(* ===== verification/Prelude.thy ===== *)
theory Prelude
  imports Main "HOL-Library.Multiset"
begin

text \<open>
  Shared ground of the development: how values of the Go program are written in HOL, the
  theorem collections the component proofs use, and generic lemmas on maps and lists.

  \<^item> A Go \<^verbatim>\<open>int\<close> (64 bit) is an \<open>int\<close>; where the code computes with it, \<open>wrap64\<close>
    writes out the wrap-around.
  \<^item> A Go \<^verbatim>\<open>map[K]V\<close> is a map \<open>'k \<rightharpoonup> 'v\<close>. A map variable that may hold \<^verbatim>\<open>nil\<close> is an
    option of a map (\<open>None\<close> is the nil map).
  \<^item> \<^verbatim>\<open>range\<close> over a map visits the keys in an order the language leaves open. A definition
    that ranges over a map takes this order as an argument, a list of keys, and
    \<open>is_order ks m\<close> says that \<open>ks\<close> is an order the language allows. Theorems hold for
    every such list.
  \<^item> A text or a vote object (\<^verbatim>\<open>string\<close>, \<^verbatim>\<open>[]byte\<close>) is a \<open>string\<close>, a list of bytes; an
    object that may be \<^verbatim>\<open>nil\<close> is an option.
\<close>

named_theorems backend_defs \<open>definitions of the backend operations\<close>
named_theorems spec_defs \<open>definitions of the abstract poll store\<close>
named_theorems err_simps \<open>classification of errors along their chain\<close>

type_synonym bytes = string

text \<open>The votes of one poll by user (\<^verbatim>\<open>map[int][]byte\<close>), possibly a nil map, each possibly nil.\<close>
type_synonym user_votes = "(int \<rightharpoonup> bytes option) option"

text \<open>\<^verbatim>\<open>map[int]map[int][]byte\<close>, by poll and user.\<close>
type_synonym live_votes = "int \<rightharpoonup> user_votes"

definition wrap64 :: "int \<Rightarrow> int" where
  "wrap64 i = (i + 2 ^ 63) mod 2 ^ 64 - 2 ^ 63"

definition in_int64 :: "int \<Rightarrow> bool" where
  "in_int64 i \<longleftrightarrow> - (2 ^ 63) \<le> i \<and> i < 2 ^ 63"

definition in_int32 :: "int \<Rightarrow> bool" where
  "in_int32 i \<longleftrightarrow> - (2 ^ 31) \<le> i \<and> i < 2 ^ 31"

definition is_order :: "'k list \<Rightarrow> ('k \<rightharpoonup> 'v) \<Rightarrow> bool" where
  "is_order ks m \<longleftrightarrow> distinct ks \<and> set ks = dom m"

text \<open>Reading a possibly nil map: a nil map has no keys.\<close>
definition deref :: "('k \<rightharpoonup> 'v) option \<Rightarrow> ('k \<rightharpoonup> 'v)" where
  "deref m = (case m of None \<Rightarrow> Map.empty | Some f \<Rightarrow> f)"

text \<open>Reading \<^verbatim>\<open>m[p]\<close> of a map of maps: nil when the key is missing.\<close>
definition sub_map :: "('p \<rightharpoonup> ('k \<rightharpoonup> 'v) option) \<Rightarrow> 'p \<Rightarrow> ('k \<rightharpoonup> 'v)" where
  "sub_map m p = (case m p of None \<Rightarrow> Map.empty | Some n \<Rightarrow> deref n)"

lemma wrap64_id [simp]: "in_int64 i \<Longrightarrow> wrap64 i = i"
  by (simp add: wrap64_def in_int64_def)

lemma wrap64_in_int64 [simp]: "in_int64 (wrap64 i)"
proof -
  have "0 \<le> (i + 2 ^ 63) mod 2 ^ 64" "(i + 2 ^ 63) mod 2 ^ 64 < 2 ^ 64" by simp_all
  then show ?thesis by (simp add: wrap64_def in_int64_def)
qed

lemma in_int32_in_int64: "in_int32 i \<Longrightarrow> in_int64 i"
  by (simp add: in_int32_def in_int64_def)

lemma deref_simps [simp]: "deref None = Map.empty" "deref (Some f) = f"
  by (simp_all add: deref_def)

lemma sub_map_None [simp]: "m p = None \<Longrightarrow> sub_map m p = Map.empty"
  by (simp add: sub_map_def)

lemma sub_map_Some [simp]: "m p = Some n \<Longrightarrow> sub_map m p = deref n"
  by (simp add: sub_map_def)

lemma sub_map_upd: "sub_map (m(p := x)) q = (if q = p then (case x of None \<Rightarrow> Map.empty | Some n \<Rightarrow> deref n) else sub_map m q)"
  by (simp add: sub_map_def)

lemma is_orderD:
  assumes "is_order ks m"
  shows "distinct ks" and "set ks = dom m" and "finite (dom m)"
  using assms unfolding is_order_def by (metis List.finite_set)+

lemma is_order_empty [simp]: "is_order ks Map.empty \<longleftrightarrow> ks = []"
  by (auto simp: is_order_def)

lemma is_order_exists: "finite (dom m) \<Longrightarrow> \<exists>ks. is_order ks m"
  unfolding is_order_def by (metis finite_distinct_list)

lemma is_order_mset: "is_order ks m \<Longrightarrow> mset ks = mset_set (dom m)"
  unfolding is_order_def by (metis mset_set_set)

lemma is_order_perm: "is_order ks m \<Longrightarrow> is_order ls m \<Longrightarrow> mset ks = mset ls"
  by (simp add: is_order_mset)

lemma is_order_length: "is_order ks m \<Longrightarrow> length ks = card (dom m)"
  unfolding is_order_def by (metis distinct_card)

lemma is_order_sort [simp]: "is_order (sort ks) m \<longleftrightarrow> is_order ks m"
  for ks :: "'a::linorder list"
  by (simp add: is_order_def)

text \<open>The values a range over \<open>m\<close> in the order \<open>ks\<close> visits.\<close>

lemma map_filter_dom: "set ks \<subseteq> dom m \<Longrightarrow> List.map_filter m ks = map (\<lambda>k. the (m k)) ks"
  by (induction ks) (auto simp: List.map_filter_simps)

definition vals :: "('k \<rightharpoonup> 'v) \<Rightarrow> 'v multiset" where
  "vals m = image_mset (\<lambda>k. the (m k)) (mset_set (dom m))"

lemma values_mset: "is_order ks m \<Longrightarrow> mset (List.map_filter m ks) = vals m"
  by (simp add: map_filter_dom is_orderD(2) is_order_mset vals_def)

lemma vals_empty [simp]: "vals Map.empty = {#}"
  by (simp add: vals_def)

lemma vals_upd:
  assumes "finite (dom m)" and "k \<notin> dom m"
  shows "vals (m(k \<mapsto> v)) = add_mset v (vals m)"
proof -
  have "image_mset (\<lambda>x. the ((m(k \<mapsto> v)) x)) (mset_set (dom m)) = image_mset (\<lambda>x. the (m x)) (mset_set (dom m))"
    by (rule image_mset_cong) (use assms in \<open>auto\<close>)
  with assms show ?thesis by (simp add: vals_def)
qed

lemma in_vals: "finite (dom m) \<Longrightarrow> m k = Some v \<Longrightarrow> v \<in># vals m"
  by (force simp: vals_def image_iff)

text \<open>Two sorted lists with distinct elements and the same set are the same list.\<close>

lemma sorted_order_unique:
  fixes xs ys :: "'a::linorder list"
  assumes "sorted xs" "distinct xs" "sorted ys" "distinct ys" "set xs = set ys"
  shows "xs = ys"
  using assms by (rule sorted_distinct_set_unique)

text \<open>
  A test that each step of a loop makes and that returns at the first failure: \<open>first_fail f xs\<close>
  is what \<^verbatim>\<open>for _, x := range xs { if msg := f(x); msg != nil { return msg } }\<close> returns.
\<close>

fun first_fail :: "('a \<Rightarrow> 'e option) \<Rightarrow> 'a list \<Rightarrow> 'e option" where
  "first_fail f [] = None"
| "first_fail f (x # xs) = (case f x of Some e \<Rightarrow> Some e | None \<Rightarrow> first_fail f xs)"

lemma first_fail_None [simp]: "first_fail f xs = None \<longleftrightarrow> (\<forall>x \<in> set xs. f x = None)"
  by (induction xs) (auto split: option.splits)

lemma first_fail_Some: "first_fail f xs = Some e \<Longrightarrow> \<exists>x \<in> set xs. f x = Some e"
  by (induction xs) (auto split: option.splits)

end
