(* ===== verification/Strconv.thy ===== *)
theory Strconv
  imports Prelude
begin

text \<open>
  The conversions of Go's \<^verbatim>\<open>strconv\<close> and of \<^verbatim>\<open>fmt\<close>'s \<^verbatim>\<open>%d\<close> that the service uses: decimal text
  of an integer and back. They print poll and user ids into messages and Redis keys and parse
  them from URLs, JSON keys and Redis hashes. \<open>Atoi\<close> accepts an optional sign and decimal
  digits and fails outside the 64 bit range; the content of its error is never used.
\<close>

definition digit_char :: "nat \<Rightarrow> char" where
  "digit_char d = char_of (48 + d)"

fun utoa :: "nat \<Rightarrow> string" where
  "utoa n = (if n < 10 then [digit_char n] else utoa (n div 10) @ [digit_char (n mod 10)])"

declare utoa.simps [simp del]

definition Itoa :: "int \<Rightarrow> string" where
  "Itoa i = (if i < 0 then CHR ''-'' # utoa (nat (- i)) else utoa (nat i))"

definition is_digit :: "char \<Rightarrow> bool" where
  "is_digit c \<longleftrightarrow> 48 \<le> (of_char c :: nat) \<and> (of_char c :: nat) \<le> 57"

definition digit_val :: "char \<Rightarrow> nat" where
  "digit_val c = of_char c - 48"

definition digits_val :: "string \<Rightarrow> nat" where
  "digits_val cs = foldl (\<lambda>n c. 10 * n + digit_val c) 0 cs"

definition parse_digits :: "string \<Rightarrow> nat option" where
  "parse_digits cs = (if cs \<noteq> [] \<and> list_all is_digit cs then Some (digits_val cs) else None)"

definition Atoi :: "string \<Rightarrow> int option" where
  "Atoi cs =
     (let (neg, ds) = (case cs of [] \<Rightarrow> (False, [])
                       | c # r \<Rightarrow> if c = CHR ''-'' then (True, r)
                                else if c = CHR ''+'' then (False, r) else (False, cs))
      in case parse_digits ds of
           None \<Rightarrow> None
         | Some n \<Rightarrow> let i = (if neg then - int n else int n) in if in_int64 i then Some i else None)"

lemma digit_char [simp]:
  assumes "d < 10"
  shows "is_digit (digit_char d)" and "digit_val (digit_char d) = d"
  using assms by (simp_all add: is_digit_def digit_val_def digit_char_def)

lemma digit_char_neq [simp]:
  assumes "d < 10"
  shows "digit_char d \<noteq> CHR ''-''" and "digit_char d \<noteq> CHR ''+''"
proof -
  have "(of_char (digit_char d) :: nat) = 48 + d" using assms by (simp add: digit_char_def)
  then show "digit_char d \<noteq> CHR ''-''" "digit_char d \<noteq> CHR ''+''" by auto
qed

lemma utoa_parse: "utoa n \<noteq> [] \<and> list_all is_digit (utoa n) \<and> digits_val (utoa n) = n"
proof (induction n rule: utoa.induct)
  case (1 n)
  then show ?case
    by (cases "n < 10") (auto simp: utoa.simps [of n] digits_val_def)
qed

lemma parse_digits_utoa [simp]: "parse_digits (utoa n) = Some n"
  using utoa_parse [of n] by (simp add: parse_digits_def)

lemma utoa_Cons: "\<exists>c r. utoa n = c # r \<and> c \<noteq> CHR ''-'' \<and> c \<noteq> CHR ''+''"
proof (induction n rule: utoa.induct)
  case (1 n)
  then show ?case
    by (cases "n < 10") (auto simp: utoa.simps [of n])
qed

lemma Atoi_Itoa [simp]: "in_int64 i \<Longrightarrow> Atoi (Itoa i) = Some i"
proof (cases "i < 0")
  case True
  moreover assume "in_int64 i"
  ultimately show ?thesis by (simp add: Atoi_def Itoa_def)
next
  case False
  moreover assume "in_int64 i"
  moreover obtain c r where cr: "utoa (nat i) = c # r" "c \<noteq> CHR ''-''" "c \<noteq> CHR ''+''"
    using utoa_Cons by blast
  moreover have "parse_digits (c # r) = Some (nat i)"
    using parse_digits_utoa [of "nat i"] cr by simp
  ultimately show ?thesis by (simp add: Atoi_def Itoa_def)
qed

lemma Itoa_chars: "c \<in> set (Itoa i) \<Longrightarrow> is_digit c \<or> c = CHR ''-''"
proof -
  have "list_all is_digit (utoa n)" for n using utoa_parse [of n] by simp
  then show "c \<in> set (Itoa i) \<Longrightarrow> is_digit c \<or> c = CHR ''-''"
    by (auto simp: Itoa_def list_all_iff split: if_splits)
qed

lemma Atoi_range: "Atoi cs = Some i \<Longrightarrow> in_int64 i"
  by (auto simp: Atoi_def Let_def split: option.splits if_splits prod.splits)

lemma utoa_inj [simp]: "utoa m = utoa n \<longleftrightarrow> m = n"
  by (metis option.inject parse_digits_utoa)

lemma Itoa_inj [simp]: "Itoa i = Itoa j \<longleftrightarrow> i = j"
  using utoa_Cons [of "nat i"] utoa_Cons [of "nat j"] by (auto simp: Itoa_def)

end
