(* ===== verification/Json.thy ===== *)
theory Json
  imports Strconv
begin

text \<open>
  What the service uses of Go's \<^verbatim>\<open>encoding/json\<close>: reading one JSON value from the front of a
  request body (\<^verbatim>\<open>json.NewDecoder(r).Decode\<close>), unmarshalling it into the types of the ballot, and
  printing it again in compact form.

  A JSON value keeps the text of its string and number literals, so that a raw message
  (\<^verbatim>\<open>json.RawMessage\<close>) is the value itself: printing gives the compact form of the text that was
  read, as \<^verbatim>\<open>json.Marshal\<close> does. White space inside a raw message, which \<^verbatim>\<open>Marshal\<close> removes, is not
  kept. The limit on the depth of nested values is left out. The recursion of the parser is bounded by fuel; the length of the input is always enough, because each nested value takes at
  least one character.
\<close>

datatype json =
    JNull
  | JBool bool
  | JNumber string                    \<comment> \<open>the literal\<close>
  | JString string                    \<comment> \<open>the literal between the quotes, with its escapes\<close>
  | JArray "json list"
  | JObject "(string \<times> json) list"    \<comment> \<open>keys as literals, in the order of the text\<close>

abbreviation quote_char :: char where "quote_char \<equiv> CHR 0x22"
abbreviation backslash :: char where "backslash \<equiv> CHR 0x5C"

definition is_ws :: "char \<Rightarrow> bool" where
  "is_ws c \<longleftrightarrow> c = CHR '' '' \<or> c = CHR 0x09 \<or> c = CHR 0x0A \<or> c = CHR 0x0D"

definition skip_ws :: "string \<Rightarrow> string" where
  "skip_ws s = dropWhile is_ws s"

definition is_hex :: "char \<Rightarrow> bool" where
  "is_hex c \<longleftrightarrow> is_digit c \<or> (let n = (of_char c :: nat) in 65 \<le> n \<and> n \<le> 70 \<or> 97 \<le> n \<and> n \<le> 102)"

definition prepend :: "string \<Rightarrow> (string \<times> string) option \<Rightarrow> (string \<times> string) option" where
  "prepend p r = map_option (\<lambda>(l, rest). (p @ l, rest)) r"

text \<open>A string literal after its opening quote: the text up to the closing quote, and the rest.\<close>

fun scan_string :: "string \<Rightarrow> (string \<times> string) option" where
  "scan_string [] = None"
| "scan_string (c # cs) =
     (if c = quote_char then Some ([], cs)
      else if c = backslash then
        (case cs of
           [] \<Rightarrow> None
         | e # r \<Rightarrow>
             if e \<in> set [quote_char, backslash, CHR ''/'', CHR ''b'', CHR ''f'', CHR ''n'', CHR ''r'', CHR ''t'']
             then prepend [c, e] (scan_string r)
             else if e = CHR ''u'' then
               (case r of
                  h1 # h2 # h3 # h4 # r' \<Rightarrow>
                    if is_hex h1 \<and> is_hex h2 \<and> is_hex h3 \<and> is_hex h4
                    then prepend [c, e, h1, h2, h3, h4] (scan_string r') else None
                | _ \<Rightarrow> None)
             else None)
      else if (of_char c :: nat) < 32 then None
      else prepend [c] (scan_string cs))"

definition scan_digits :: "string \<Rightarrow> (string \<times> string) option" where
  "scan_digits s = (let ds = takeWhile is_digit s in if ds = [] then None else Some (ds, dropWhile is_digit s))"

definition scan_int :: "string \<Rightarrow> (string \<times> string) option" where
  "scan_int s = (case s of [] \<Rightarrow> None
     | c # r \<Rightarrow> if c = CHR ''0'' then Some ([c], r) else scan_digits s)"

definition scan_frac :: "string \<Rightarrow> (string \<times> string) option" where
  "scan_frac s = (case s of [] \<Rightarrow> Some ([], [])
     | c # r \<Rightarrow> if c = CHR ''.'' then prepend [c] (scan_digits r) else Some ([], s))"

definition scan_exp :: "string \<Rightarrow> (string \<times> string) option" where
  "scan_exp s = (case s of [] \<Rightarrow> Some ([], [])
     | c # r \<Rightarrow> if c = CHR ''e'' \<or> c = CHR ''E'' then
         (case r of [] \<Rightarrow> None
          | d # r' \<Rightarrow> if d = CHR ''+'' \<or> d = CHR ''-'' then prepend [c, d] (scan_digits r')
                     else prepend [c] (scan_digits r))
       else Some ([], s))"

definition scan_number :: "string \<Rightarrow> (string \<times> string) option" where
  "scan_number s =
     (let (sign, s0) = (case s of c # r \<Rightarrow> if c = CHR ''-'' then ([c], r) else ([], s) | [] \<Rightarrow> ([], []))
      in case scan_int s0 of None \<Rightarrow> None
       | Some (i, s1) \<Rightarrow>
         (case scan_frac s1 of None \<Rightarrow> None
          | Some (f, s2) \<Rightarrow>
            (case scan_exp s2 of None \<Rightarrow> None
             | Some (e, s3) \<Rightarrow> Some (sign @ i @ f @ e, s3))))"

definition strip_prefix :: "string \<Rightarrow> string \<Rightarrow> string option" where
  "strip_prefix p s = (if take (length p) s = p then Some (drop (length p) s) else None)"

fun parse_value :: "nat \<Rightarrow> string \<Rightarrow> (json \<times> string) option"
  and parse_elems :: "nat \<Rightarrow> string \<Rightarrow> (json list \<times> string) option"
  and parse_members :: "nat \<Rightarrow> string \<Rightarrow> ((string \<times> json) list \<times> string) option"
where
  "parse_value 0 s = None"
| "parse_value (Suc n) s =
     (case skip_ws s of
        [] \<Rightarrow> None
      | c # r \<Rightarrow>
          if c = quote_char then map_option (\<lambda>(l, r'). (JString l, r')) (scan_string r)
          else if c = CHR ''{'' then
            (case skip_ws r of
               [] \<Rightarrow> None
             | d # r' \<Rightarrow> if d = CHR ''}'' then Some (JObject [], r')
                        else map_option (\<lambda>(ms, r''). (JObject ms, r'')) (parse_members n (d # r')))
          else if c = CHR ''['' then
            (case skip_ws r of
               [] \<Rightarrow> None
             | d # r' \<Rightarrow> if d = CHR '']'' then Some (JArray [], r')
                        else map_option (\<lambda>(js, r''). (JArray js, r'')) (parse_elems n (d # r')))
          else case strip_prefix ''null'' (c # r) of
            Some r' \<Rightarrow> Some (JNull, r')
          | None \<Rightarrow> (case strip_prefix ''true'' (c # r) of
            Some r' \<Rightarrow> Some (JBool True, r')
          | None \<Rightarrow> (case strip_prefix ''false'' (c # r) of
            Some r' \<Rightarrow> Some (JBool False, r')
          | None \<Rightarrow> map_option (\<lambda>(l, r'). (JNumber l, r')) (scan_number (c # r)))))"
| "parse_elems 0 s = None"
| "parse_elems (Suc n) s =
     (case parse_value n s of
        None \<Rightarrow> None
      | Some (j, r) \<Rightarrow>
        (case skip_ws r of
           [] \<Rightarrow> None
         | d # r' \<Rightarrow> if d = CHR '']'' then Some ([j], r')
                    else if d = CHR '','' then map_option (\<lambda>(js, r''). (j # js, r'')) (parse_elems n r')
                    else None))"
| "parse_members 0 s = None"
| "parse_members (Suc n) s =
     (case skip_ws s of
        [] \<Rightarrow> None
      | q # s' \<Rightarrow>
        if q \<noteq> quote_char then None
        else case scan_string s' of
          None \<Rightarrow> None
        | Some (k, r0) \<Rightarrow>
          (case skip_ws r0 of
             [] \<Rightarrow> None
           | col # r1 \<Rightarrow>
             if col \<noteq> CHR '':'' then None
             else case parse_value n r1 of
               None \<Rightarrow> None
             | Some (j, r) \<Rightarrow>
               (case skip_ws r of
                  [] \<Rightarrow> None
                | d # r' \<Rightarrow> if d = CHR ''}'' then Some ([(k, j)], r')
                           else if d = CHR '','' then map_option (\<lambda>(ms, r''). ((k, j) # ms, r'')) (parse_members n r')
                           else None)))"

text \<open>The first JSON value of the body; what follows it is not read.\<close>

definition Decoder_Decode :: "string \<Rightarrow> json option" where
  "Decoder_Decode body = map_option fst (parse_value (Suc (2 * length body)) body)"

fun json_print :: "json \<Rightarrow> string"
  and json_print_list :: "json list \<Rightarrow> string"
  and json_print_members :: "(string \<times> json) list \<Rightarrow> string"
where
  "json_print JNull = ''null''"
| "json_print (JBool b) = (if b then ''true'' else ''false'')"
| "json_print (JNumber l) = l"
| "json_print (JString l) = [quote_char] @ l @ [quote_char]"
| "json_print (JArray js) = ''['' @ json_print_list js @ '']''"
| "json_print (JObject ms) = ''{'' @ json_print_members ms @ ''}''"
| "json_print_list [] = []"
| "json_print_list (j # js) = json_print j @ (if js = [] then [] else '','' @ json_print_list js)"
| "json_print_members [] = []"
| "json_print_members ((k, j) # ms) =
     [quote_char] @ k @ [quote_char] @ '':'' @ json_print j @ (if ms = [] then [] else '','' @ json_print_members ms)"

text \<open>
  \<^verbatim>\<open>json.Marshal\<close> of a raw message: compact, with the characters that HTML treats specially and the
  line separators U+2028 and U+2029 as escapes.
\<close>

fun compact_escape :: "string \<Rightarrow> string" where
  "compact_escape [] = []"
| "compact_escape (c # cs) =
     (if c = CHR ''<'' then [backslash] @ ''u003c'' @ compact_escape cs
      else if c = CHR ''>'' then [backslash] @ ''u003e'' @ compact_escape cs
      else if c = CHR ''&'' then [backslash] @ ''u0026'' @ compact_escape cs
      else if c = CHR 0xE2 then
        (case cs of
           d # e # r \<Rightarrow>
             if d = CHR 0x80 \<and> e = CHR 0xA8 then [backslash] @ ''u2028'' @ compact_escape r
             else if d = CHR 0x80 \<and> e = CHR 0xA9 then [backslash] @ ''u2029'' @ compact_escape r
             else c # compact_escape cs
         | _ \<Rightarrow> c # compact_escape cs)
      else c # compact_escape cs)"

definition RawMessage_Marshal :: "json option \<Rightarrow> string" where
  "RawMessage_Marshal raw = (case raw of None \<Rightarrow> ''null'' | Some j \<Rightarrow> compact_escape (json_print j))"

text \<open>
  UTF-8 as \<^verbatim>\<open>unicode/utf8\<close> reads it: the number of bytes of the first rune of a text, \<open>0\<close> when its
  first byte does not begin a rune (a lone continuation byte, an overlong form, a surrogate, a rune
  that is cut off).
\<close>

definition byte_in :: "nat \<Rightarrow> nat \<Rightarrow> char \<Rightarrow> bool" where
  "byte_in lo hi c \<longleftrightarrow> lo \<le> of_char c \<and> of_char c \<le> hi"

abbreviation continuation :: "char \<Rightarrow> bool" where
  "continuation \<equiv> byte_in 128 191"

definition accept_second :: "char \<Rightarrow> char \<Rightarrow> bool" where
  "accept_second c d =
     byte_in (if c = CHR 0xE0 then 160 else if c = CHR 0xF0 then 144 else 128)
             (if c = CHR 0xED then 159 else if c = CHR 0xF4 then 143 else 191) d"

definition rune_length :: "string \<Rightarrow> nat" where
  "rune_length s =
     (case s of
        [] \<Rightarrow> 0
      | c # r \<Rightarrow>
          if byte_in 0 127 c then 1
          else if byte_in 194 223 c then (case r of d # _ \<Rightarrow> if continuation d then 2 else 0 | _ \<Rightarrow> 0)
          else if byte_in 224 239 c then
            (case r of
               d # e # _ \<Rightarrow>
                 if accept_second c d \<and> continuation e then 3 else 0
             | _ \<Rightarrow> 0)
          else if byte_in 240 244 c then
            (case r of
               d # e # f # _ \<Rightarrow>
                 if accept_second c d \<and> continuation e \<and> continuation f then 4 else 0
             | _ \<Rightarrow> 0)
          else 0)"

fun valid_utf8 :: "string \<Rightarrow> bool" where
  "valid_utf8 [] = True"
| "valid_utf8 (c # cs) = (0 < rune_length (c # cs) \<and> valid_utf8 (drop (rune_length (c # cs) - 1) cs))"

text \<open>
  \<^verbatim>\<open>json.Marshal\<close> of a Go string: quotes, escapes, and the escapes for HTML; a byte that does not begin
  a rune becomes the escape of the replacement character.
\<close>

definition hex_digit :: "nat \<Rightarrow> char" where
  "hex_digit n = (if n < 10 then char_of (48 + n) else char_of (87 + n))"

definition escape_char :: "char \<Rightarrow> string" where
  "escape_char c =
     (let n = (of_char c :: nat) in
      if c = quote_char \<or> c = backslash then [backslash, c]
      else if n = 8 then [backslash, CHR ''b'']
      else if n = 12 then [backslash, CHR ''f'']
      else if n = 10 then [backslash, CHR ''n'']
      else if n = 13 then [backslash, CHR ''r'']
      else if n = 9 then [backslash, CHR ''t'']
      else if n < 32 \<or> c \<in> {CHR ''<'', CHR ''>'', CHR ''&''}
      then [backslash] @ ''u00'' @ [hex_digit (n div 16), hex_digit (n mod 16)]
      else [c])"

definition escape_rune :: "string \<Rightarrow> string" where
  "escape_rune r =
     (if r = [CHR 0xE2, CHR 0x80, CHR 0xA8] then [backslash] @ ''u2028''
      else if r = [CHR 0xE2, CHR 0x80, CHR 0xA9] then [backslash] @ ''u2029''
      else r)"

fun escape_string :: "string \<Rightarrow> string" where
  "escape_string [] = []"
| "escape_string (c # cs) =
     (if byte_in 0 127 c then escape_char c @ escape_string cs
      else (let n = rune_length (c # cs) in
        if n = 0 then [backslash] @ ''ufffd'' @ escape_string cs
        else escape_rune (take n (c # cs)) @ escape_string (drop (n - 1) cs)))"

definition string_Marshal :: "string \<Rightarrow> string" where
  "string_Marshal s = [quote_char] @ escape_string s @ [quote_char]"

text \<open>
  The value of a string literal: escapes are replaced, \<^verbatim>\<open>\u\<close> escapes by their UTF-8 bytes, and bytes that
  do not begin a rune by the replacement character.
\<close>

definition hex_val :: "char \<Rightarrow> nat" where
  "hex_val c = (let n = of_char c in if n \<le> 57 then n - 48 else if n \<le> 70 then n - 55 else n - 87)"

definition hex4 :: "char \<Rightarrow> char \<Rightarrow> char \<Rightarrow> char \<Rightarrow> nat" where
  "hex4 a b c d = ((hex_val a * 16 + hex_val b) * 16 + hex_val c) * 16 + hex_val d"

definition utf8 :: "nat \<Rightarrow> string" where
  "utf8 r =
     (if r < 128 then [char_of r]
      else if r < 2048 then [char_of (192 + r div 64), char_of (128 + r mod 64)]
      else if r < 65536 then [char_of (224 + r div 4096), char_of (128 + r div 64 mod 64), char_of (128 + r mod 64)]
      else [char_of (240 + r div 262144), char_of (128 + r div 4096 mod 64),
            char_of (128 + r div 64 mod 64), char_of (128 + r mod 64)])"

definition replacement_char :: string where
  "replacement_char = utf8 65533"

fun unquote :: "string \<Rightarrow> string" where
  "unquote [] = []"
| "unquote (c # cs) =
     (if byte_in 0 127 c \<and> c \<noteq> backslash then c # unquote cs
      else if c \<noteq> backslash then
        (let n = rune_length (c # cs) in
         if n = 0 then replacement_char @ unquote cs else take n (c # cs) @ unquote (drop (n - 1) cs))
      else case cs of
        [] \<Rightarrow> []
      | e # r \<Rightarrow>
          if e = CHR ''u'' then
            (case r of
               h1 # h2 # h3 # h4 # r' \<Rightarrow>
                 let x = hex4 h1 h2 h3 h4 in
                 if 55296 \<le> x \<and> x < 57344 then
                   (case r' of
                      b # u # g1 # g2 # g3 # g4 # r'' \<Rightarrow>
                        let y = hex4 g1 g2 g3 g4 in
                        if b = backslash \<and> u = CHR ''u'' \<and> x < 56320 \<and> 56320 \<le> y \<and> y < 57344
                        then utf8 (65536 + (x - 55296) * 1024 + (y - 56320)) @ unquote r''
                        else replacement_char @ unquote r'
                    | _ \<Rightarrow> replacement_char @ unquote r')
                 else utf8 x @ unquote r'
             | _ \<Rightarrow> [])
          else if e = CHR ''b'' then CHR 0x08 # unquote r
          else if e = CHR ''f'' then CHR 0x0C # unquote r
          else if e = CHR ''n'' then CHR 0x0A # unquote r
          else if e = CHR ''r'' then CHR 0x0D # unquote r
          else if e = CHR ''t'' then CHR 0x09 # unquote r
          else e # unquote r)"

text \<open>
  Unmarshalling into a Go \<^verbatim>\<open>int\<close>, a \<^verbatim>\<open>string\<close> and a map with integer keys. \<open>null\<close> leaves the
  target unchanged. A map that is not nil is filled further; a key that is no integer or an
  element of the wrong type makes the whole call fail. The result \<open>None\<close> is an error.
\<close>

fun unmarshal_int :: "json \<Rightarrow> int \<Rightarrow> int option" where
  "unmarshal_int JNull old = Some old"
| "unmarshal_int (JNumber l) old = Atoi l"
| "unmarshal_int j old = None"

fun unmarshal_string :: "json \<Rightarrow> string \<Rightarrow> string option" where
  "unmarshal_string JNull old = Some old"
| "unmarshal_string (JString l) old = Some (unquote l)"
| "unmarshal_string j old = None"

fun unmarshal_members :: "(json \<Rightarrow> 'v option) \<Rightarrow> (string \<times> json) list \<Rightarrow> (int \<rightharpoonup> 'v) \<Rightarrow> (int \<rightharpoonup> 'v) option" where
  "unmarshal_members elem [] m = Some m"
| "unmarshal_members elem ((k, j) # ms) m =
     (case (Atoi (unquote k), elem j) of
        (Some i, Some v) \<Rightarrow> unmarshal_members elem ms (m(i \<mapsto> v))
      | _ \<Rightarrow> None)"

fun unmarshal_map :: "(json \<Rightarrow> 'v option) \<Rightarrow> json \<Rightarrow> (int \<rightharpoonup> 'v) option \<Rightarrow> (int \<rightharpoonup> 'v) option option" where
  "unmarshal_map elem JNull old = Some None"
| "unmarshal_map elem (JObject ms) old = map_option Some (unmarshal_members elem ms (deref old))"
| "unmarshal_map elem j old = None"

text \<open>
  Field names of a struct match without regard to case: ASCII letters are folded, and the long s
  (bytes C5 BF) folds to S.
\<close>

definition to_upper :: "char \<Rightarrow> char" where
  "to_upper c = (let n = (of_char c :: nat) in if 97 \<le> n \<and> n \<le> 122 then char_of (n - 32) else c)"

fun foldName :: "string \<Rightarrow> string" where
  "foldName [] = []"
| "foldName [c] = [to_upper c]"
| "foldName (c # d # cs) =
     (if c = CHR 0xC5 \<and> d = CHR 0xBF then CHR ''S'' # foldName cs else to_upper c # foldName (d # cs))"

definition field_matches :: "string \<Rightarrow> string \<Rightarrow> bool" where
  "field_matches name key = (key = name \<or> foldName key = foldName name)"

declare escape_string.simps(2) [simp del] unquote.simps(2) [simp del]

lemma unquote_ascii [simp]: "(of_char c :: nat) < 128 \<Longrightarrow> c \<noteq> backslash \<Longrightarrow> unquote (c # r) = c # unquote r"
  by (simp add: unquote.simps(2) [of c] byte_in_def)

lemma unmarshal_members_finite:
  "unmarshal_members elem ms m = Some m' \<Longrightarrow> finite (dom m) \<Longrightarrow> finite (dom m')"
  by (induction elem ms m rule: unmarshal_members.induct) (auto split: option.splits)

lemma unmarshal_map_finite:
  "unmarshal_map elem j old = Some new \<Longrightarrow> finite (dom (deref old)) \<Longrightarrow> finite (dom (deref new))"
  by (induction elem j old rule: unmarshal_map.induct) (auto dest: unmarshal_members_finite)

lemma unmarshal_map_ok:
  "unmarshal_map elem j old = Some (Some m) \<Longrightarrow> \<exists>ms. j = JObject ms \<and> unmarshal_members elem ms (deref old) = Some m"
  by (induction elem j old rule: unmarshal_map.induct) auto

end
