(* ===== verification/Go_Errors.thy ===== *)
theory Go_Errors
  imports Strconv
begin

text \<open>
  Error values of the service: \<^verbatim>\<open>vote/error.go\<close>, the status-code error of \<^verbatim>\<open>vote/http/error.go\<close>,
  the marker errors of the backends, the errors of the libraries that the code inspects, and
  wrapping by \<^verbatim>\<open>fmt.Errorf("...: %w", err)\<close>. \<^verbatim>\<open>errors.As\<close> and \<^verbatim>\<open>errors.Is\<close> search the chain that
  \<^verbatim>\<open>Unwrap\<close> gives.
\<close>

datatype TypeError =
  ErrInternal | ErrExists | ErrNotExists | ErrInvalid | ErrDoubleVote | ErrNotAllowed | ErrStopped

datatype err =
    TypeErr TypeError                 \<comment> \<open>a \<^verbatim>\<open>vote.TypeError\<close> used as an error\<close>
  | messageError TypeError string     \<comment> \<open>\<^verbatim>\<open>vote.messageError\<close>\<close>
  | Wrapped string err                \<comment> \<open>\<^verbatim>\<open>fmt.Errorf("msg: %w", err)\<close>\<close>
  | statusCodeError err int           \<comment> \<open>\<^verbatim>\<open>http.statusCodeError\<close>\<close>
  | doesNotExistError string          \<comment> \<open>error with method \<^verbatim>\<open>DoesNotExist()\<close>\<close>
  | doubleVoteError string            \<comment> \<open>error with method \<^verbatim>\<open>DoubleVote()\<close>\<close>
  | stoppedError string               \<comment> \<open>error with method \<^verbatim>\<open>Stopped()\<close>\<close>
  | DsDoesNotExist string             \<comment> \<open>\<^verbatim>\<open>dsfetch.DoesNotExistError\<close>\<close>
  | PgError string string             \<comment> \<open>\<^verbatim>\<open>pgconn.PgError\<close> with its code\<close>
  | RedisErrNil                       \<comment> \<open>\<^verbatim>\<open>redis.ErrNil\<close>\<close>
  | PgErrNoRows                       \<comment> \<open>\<^verbatim>\<open>pgx.ErrNoRows\<close>\<close>
  | ContextCanceled
  | DeadlineExceeded
  | plainError string                 \<comment> \<open>any other error\<close>

primrec TypeError_Type :: "TypeError \<Rightarrow> string" where
  "TypeError_Type ErrExists = ''exist''"
| "TypeError_Type ErrNotExists = ''not-exist''"
| "TypeError_Type ErrInvalid = ''invalid''"
| "TypeError_Type ErrDoubleVote = ''double-vote''"
| "TypeError_Type ErrNotAllowed = ''not-allowed''"
| "TypeError_Type ErrStopped = ''stopped''"
| "TypeError_Type ErrInternal = ''internal''"

primrec TypeError_msg :: "TypeError \<Rightarrow> string" where
  "TypeError_msg ErrExists = ''Poll does already exist with differet config''"
| "TypeError_msg ErrNotExists = ''Poll does not exist''"
| "TypeError_msg ErrInvalid = ''The input data is invalid''"
| "TypeError_msg ErrDoubleVote = ''Not the first vote''"
| "TypeError_msg ErrStopped = ''The vote is not open for votes''"
| "TypeError_msg ErrNotAllowed = ''You are not allowed to vote''"
| "TypeError_msg ErrInternal = ''Ups, something went wrong!''"

definition TypeError_Error :: "TypeError \<Rightarrow> string" where
  "TypeError_Error t =
     ''{\"error\":\"'' @ TypeError_Type t @ ''\",\"message\":\"'' @ TypeError_msg t @ ''\"}''"

definition MessageError :: "TypeError \<Rightarrow> string \<Rightarrow> err" where
  "MessageError t msg = messageError t msg"

fun err_Error :: "err \<Rightarrow> string" where
  "err_Error (TypeErr t) = TypeError_Error t"
| "err_Error (messageError t msg) = msg"
| "err_Error (Wrapped msg e) = msg @ '': '' @ err_Error e"
| "err_Error (statusCodeError e code) = Itoa code @ '' - '' @ err_Error e"
| "err_Error (doesNotExistError msg) = msg"
| "err_Error (doubleVoteError msg) = msg"
| "err_Error (stoppedError msg) = msg"
| "err_Error (DsDoesNotExist msg) = msg"
| "err_Error (PgError code msg) = msg"
| "err_Error RedisErrNil = ''redigo: nil returned''"
| "err_Error PgErrNoRows = ''no rows in result set''"
| "err_Error ContextCanceled = ''context canceled''"
| "err_Error DeadlineExceeded = ''context deadline exceeded''"
| "err_Error (plainError msg) = msg"

definition WrapError :: "TypeError \<Rightarrow> err \<Rightarrow> err" where
  "WrapError t e = messageError t (err_Error e)"

text \<open>
  \<open>chain e\<close> is \<open>e\<close> and the errors \<^verbatim>\<open>Unwrap\<close> reaches from it, outermost first;
  \<open>err_find P e\<close> is the first of them that satisfies \<open>P\<close>, as \<^verbatim>\<open>errors.As\<close> finds it.
\<close>

fun chain :: "err \<Rightarrow> err list" where
  "chain (messageError t msg) = [messageError t msg, TypeErr t]"
| "chain (Wrapped msg e) = Wrapped msg e # chain e"
| "chain (statusCodeError e code) = statusCodeError e code # chain e"
| "chain e = [e]"

definition err_find :: "(err \<Rightarrow> bool) \<Rightarrow> err \<Rightarrow> err option" where
  "err_find P e = List.find P (chain e)"

definition err_as :: "(err \<Rightarrow> bool) \<Rightarrow> err \<Rightarrow> bool" where
  "err_as P e \<longleftrightarrow> list_ex P (chain e)"

fun is_doesNotExistError :: "err \<Rightarrow> bool" where
  "is_doesNotExistError (doesNotExistError m) = True"
| "is_doesNotExistError e = False"

fun is_doubleVoteError :: "err \<Rightarrow> bool" where
  "is_doubleVoteError (doubleVoteError m) = True"
| "is_doubleVoteError e = False"

fun is_stoppedError :: "err \<Rightarrow> bool" where
  "is_stoppedError (stoppedError m) = True"
| "is_stoppedError e = False"

fun is_DsDoesNotExist :: "err \<Rightarrow> bool" where
  "is_DsDoesNotExist (DsDoesNotExist m) = True"
| "is_DsDoesNotExist e = False"

text \<open>The type an error reports through a \<^verbatim>\<open>Type()\<close> method, searched along the chain.\<close>

fun own_Type :: "err \<Rightarrow> string option" where
  "own_Type (TypeErr t) = Some (TypeError_Type t)"
| "own_Type (messageError t msg) = Some (TypeError_Type t)"
| "own_Type e = None"

definition err_Type :: "err \<Rightarrow> string option" where
  "err_Type e = (case err_find (\<lambda>x. own_Type x \<noteq> None) e of None \<Rightarrow> None | Some x \<Rightarrow> own_Type x)"

definition is_context_done :: "err \<Rightarrow> bool" where
  "is_context_done e \<longleftrightarrow> err_as (\<lambda>x. x = ContextCanceled) e \<or> err_as (\<lambda>x. x = DeadlineExceeded) e"

lemma err_as_simps [simp, err_simps]:
  "err_as P (TypeErr t) \<longleftrightarrow> P (TypeErr t)"
  "err_as P (messageError t msg) \<longleftrightarrow> P (messageError t msg) \<or> P (TypeErr t)"
  "err_as P (Wrapped msg e) \<longleftrightarrow> P (Wrapped msg e) \<or> err_as P e"
  "err_as P (statusCodeError e code) \<longleftrightarrow> P (statusCodeError e code) \<or> err_as P e"
  "err_as P (doesNotExistError m) \<longleftrightarrow> P (doesNotExistError m)"
  "err_as P (doubleVoteError m) \<longleftrightarrow> P (doubleVoteError m)"
  "err_as P (stoppedError m) \<longleftrightarrow> P (stoppedError m)"
  "err_as P (DsDoesNotExist m) \<longleftrightarrow> P (DsDoesNotExist m)"
  "err_as P (PgError c m) \<longleftrightarrow> P (PgError c m)"
  "err_as P RedisErrNil \<longleftrightarrow> P RedisErrNil"
  "err_as P PgErrNoRows \<longleftrightarrow> P PgErrNoRows"
  "err_as P ContextCanceled \<longleftrightarrow> P ContextCanceled"
  "err_as P DeadlineExceeded \<longleftrightarrow> P DeadlineExceeded"
  "err_as P (plainError m) \<longleftrightarrow> P (plainError m)"
  by (simp_all add: err_as_def)

lemma err_Type_simps [simp, err_simps]:
  "err_Type (TypeErr t) = Some (TypeError_Type t)"
  "err_Type (messageError t msg) = Some (TypeError_Type t)"
  "err_Type (Wrapped msg e) = err_Type e"
  "err_Type (statusCodeError e code) = err_Type e"
  "err_Type (plainError m) = None"
  "err_Type (doesNotExistError m) = None"
  "err_Type (doubleVoteError m) = None"
  "err_Type (stoppedError m) = None"
  by (simp_all add: err_Type_def err_find_def)

lemma TypeError_Type_inj: "TypeError_Type s = TypeError_Type t \<longleftrightarrow> s = t"
  by (cases s; cases t) simp_all

end
