(* ===== verification/Ballot.thy ===== *)
theory Ballot
  imports Json Go_Errors
begin

text \<open>
  The ballot of \<^verbatim>\<open>vote/vote.go\<close>: the types \<^verbatim>\<open>maybeInt\<close>, \<^verbatim>\<open>ballotValue\<close> and \<^verbatim>\<open>ballot\<close>, their
  unmarshalling, and \<^verbatim>\<open>validate\<close>. The poll is the part of \<^verbatim>\<open>dsmodels.Poll\<close> that the service reads.
  \<^verbatim>\<open>validate\<close> ranges over the ballot's map; the order is the argument \<open>ks\<close>. The reference
  \<open>ballot_fits\<close> says which ballots are valid without any order, and \<^verbatim>\<open>validate\<close> is shown to
  decide it.
\<close>

record Poll =
  poll_MeetingID :: int
  poll_Type :: string
  poll_Backend :: string
  poll_Pollmethod :: string
  poll_EntitledGroupIDs :: "int list"
  poll_OptionIDs :: "int list"
  poll_MinVotesAmount :: int
  poll_MaxVotesAmount :: int
  poll_MaxVotesPerOption :: int
  poll_GlobalYes :: bool
  poll_GlobalNo :: bool
  poll_GlobalAbstain :: bool
  poll_LiveVotingEnabled :: bool

record maybeInt =
  unmarshalled :: bool
  mi_value :: int

record ballotValue =
  str :: string
  optionAmount :: "(int \<rightharpoonup> int) option"
  optionYNA :: "(int \<rightharpoonup> string) option"
  original :: "json option"

record ballot =
  UserID :: maybeInt
  BallotValue :: ballotValue

definition zero_ballot :: ballot where
  "zero_ballot = \<lparr>UserID = \<lparr>unmarshalled = False, mi_value = 0\<rparr>,
     BallotValue = \<lparr>str = [], optionAmount = None, optionYNA = None, original = None\<rparr>\<rparr>"

definition maybeInt_UnmarshalJSON :: "json \<Rightarrow> maybeInt \<Rightarrow> err + maybeInt" where
  "maybeInt_UnmarshalJSON b m =
     (case unmarshal_int b (mi_value m) of
        None \<Rightarrow> Inl (Wrapped ''decoding value as int'' (plainError ''json: cannot unmarshal''))
      | Some i \<Rightarrow> Inr (m\<lparr>mi_value := i, unmarshalled := True\<rparr>))"

definition maybeInt_Value :: "maybeInt \<Rightarrow> int \<times> bool" where
  "maybeInt_Value m = (mi_value m, unmarshalled m)"

definition ballotValue_UnmarshalJSON :: "json \<Rightarrow> ballotValue \<Rightarrow> err + ballotValue" where
  "ballotValue_UnmarshalJSON b v0 =
     (let v = v0\<lparr>original := Some b\<rparr> in
      case unmarshal_string b (str v) of
        Some s \<Rightarrow> Inr (v\<lparr>str := s\<rparr>)
      | None \<Rightarrow>
        (case unmarshal_map (\<lambda>j. unmarshal_int j 0) b (optionAmount v) of
           Some m \<Rightarrow> Inr (v\<lparr>optionAmount := m\<rparr>)
         | None \<Rightarrow>
           (let v' = v\<lparr>optionAmount := None\<rparr> in
            case unmarshal_map (\<lambda>j. unmarshal_string j []) b (optionYNA v') of
              Some m \<Rightarrow> Inr (v'\<lparr>optionYNA := m\<rparr>)
            | None \<Rightarrow> Inl (plainError (''unknown vote value: `'' @ json_print b @ ''`'')))))"

text \<open>Decoding the fields of the JSON object in the order of the text; other fields are ignored.\<close>

fun ballot_fields :: "(string \<times> json) list \<Rightarrow> ballot \<Rightarrow> err + ballot" where
  "ballot_fields [] b = Inr b"
| "ballot_fields ((k, j) # ms) b =
     (let key = unquote k in
      if field_matches ''user_id'' key then
        (case maybeInt_UnmarshalJSON j (UserID b) of
           Inl e \<Rightarrow> Inl e
         | Inr m \<Rightarrow> ballot_fields ms (b\<lparr>UserID := m\<rparr>))
      else if field_matches ''value'' key then
        (case ballotValue_UnmarshalJSON j (BallotValue b) of
           Inl e \<Rightarrow> Inl e
         | Inr v \<Rightarrow> ballot_fields ms (b\<lparr>BallotValue := v\<rparr>))
      else ballot_fields ms b)"

fun ballot_Unmarshal :: "json \<Rightarrow> err + ballot" where
  "ballot_Unmarshal JNull = Inr zero_ballot"
| "ballot_Unmarshal (JObject ms) = ballot_fields ms zero_ballot"
| "ballot_Unmarshal j = Inl (plainError ''json: cannot unmarshal'')"

definition decode_ballot :: "string \<Rightarrow> err + ballot" where
  "decode_ballot body =
     (case Decoder_Decode body of
        None \<Rightarrow> Inl (plainError ''invalid JSON'')
      | Some j \<Rightarrow> ballot_Unmarshal j)"

datatype ballot_type = ballotValueUnknown | ballotValueString | ballotValueOptionAmount | ballotValueOptionString

definition ballotValue_Type :: "ballotValue \<Rightarrow> ballot_type" where
  "ballotValue_Type v =
     (if str v \<noteq> [] then ballotValueString
      else if optionAmount v \<noteq> None then ballotValueOptionAmount
      else if optionYNA v \<noteq> None then ballotValueOptionString
      else ballotValueUnknown)"

definition allowedGlobal :: "Poll \<Rightarrow> string \<Rightarrow> bool" where
  "allowedGlobal poll s =
     (if s = ''Y'' then poll_GlobalYes poll
      else if s = ''N'' then poll_GlobalNo poll
      else if s = ''A'' then poll_GlobalAbstain poll
      else False)"

text \<open>The loop over the amounts: the sum of the amounts, or the message of the first bad entry.\<close>

fun sum_amounts :: "Poll \<Rightarrow> (int \<rightharpoonup> int) \<Rightarrow> int list \<Rightarrow> int \<Rightarrow> string + int" where
  "sum_amounts poll m [] sumAmount = Inr sumAmount"
| "sum_amounts poll m (optionID # ks) sumAmount =
     (case m optionID of
        None \<Rightarrow> sum_amounts poll m ks sumAmount
      | Some amount \<Rightarrow>
          if amount < 0 then Inl (''Your vote for option '' @ Itoa optionID @ '' has to be >= 0'')
          else if amount > poll_MaxVotesPerOption poll
          then Inl (''Your vote for option '' @ Itoa optionID @ '' has to be <= '' @ Itoa (poll_MaxVotesPerOption poll))
          else if optionID \<notin> set (poll_OptionIDs poll)
          then Inl (''Option_id '' @ Itoa optionID @ '' does not belong to the poll'')
          else sum_amounts poll m ks (wrap64 (sumAmount + amount)))"

definition check_yna :: "Poll \<Rightarrow> (int \<rightharpoonup> string) \<Rightarrow> int \<Rightarrow> string option" where
  "check_yna poll m optionID =
     (case m optionID of
        None \<Rightarrow> None
      | Some yna \<Rightarrow>
          if optionID \<notin> set (poll_OptionIDs poll)
          then Some (''Option_id '' @ Itoa optionID @ '' does not belong to the poll'')
          else if yna \<noteq> ''Y'' \<and> yna \<noteq> ''N'' \<and> (yna \<noteq> ''A'' \<or> poll_Pollmethod poll \<noteq> ''YNA'')
          then Some (''Data for option '' @ Itoa optionID @ '' does not fit the poll method.'')
          else None)"

text \<open>The defaults \<^verbatim>\<open>validate\<close> puts for zero values before it looks at the ballot.\<close>

definition with_defaults :: "Poll \<Rightarrow> Poll" where
  "with_defaults poll =
     (let p1 = (if poll_MinVotesAmount poll = 0 then poll\<lparr>poll_MinVotesAmount := 1\<rparr> else poll)
      in if poll_MaxVotesPerOption p1 = 0 then p1\<lparr>poll_MaxVotesPerOption := 1\<rparr> else p1)"

definition validate_global :: "Poll \<Rightarrow> string \<Rightarrow> string" where
  "validate_global poll s =
     (if \<not> allowedGlobal poll s then ''Global vote '' @ s @ '' is not enabled'' else [])"

text \<open>The result is the message why the vote is not valid; the empty string says that it is.\<close>

definition validate :: "Poll \<Rightarrow> ballotValue \<Rightarrow> int list \<Rightarrow> string" where
  "validate poll0 v ks =
     (let poll = with_defaults poll0 in
      if poll_Pollmethod poll = ''Y'' \<or> poll_Pollmethod poll = ''N'' then
        (case ballotValue_Type v of
           ballotValueString \<Rightarrow> validate_global poll (str v)
         | ballotValueOptionAmount \<Rightarrow>
             (let poll' = (if poll_MaxVotesAmount poll = 0 then poll\<lparr>poll_MaxVotesAmount := 1\<rparr> else poll)
              in case sum_amounts poll' (deref (optionAmount v)) ks 0 of
                   Inl msg \<Rightarrow> msg
                 | Inr sumAmount \<Rightarrow>
                     if sumAmount < poll_MinVotesAmount poll' \<or> sumAmount > poll_MaxVotesAmount poll'
                     then ''The sum of your answers has to be between '' @ Itoa (poll_MinVotesAmount poll')
                            @ '' and '' @ Itoa (poll_MaxVotesAmount poll')
                     else [])
         | _ \<Rightarrow> ''Your vote has a wrong format'')
      else if poll_Pollmethod poll = ''YN'' \<or> poll_Pollmethod poll = ''YNA'' then
        (let poll' = (if poll_MaxVotesAmount poll = 0
                      then poll\<lparr>poll_MaxVotesAmount := int (length (poll_OptionIDs poll))\<rparr> else poll)
         in case ballotValue_Type v of
              ballotValueString \<Rightarrow> validate_global poll' (str v)
            | ballotValueOptionString \<Rightarrow>
                if int (length ks) < poll_MinVotesAmount poll' \<or> int (length ks) > poll_MaxVotesAmount poll'
                then ''You have to select between '' @ Itoa (poll_MinVotesAmount poll')
                       @ '' and '' @ Itoa (poll_MaxVotesAmount poll') @ '' options''
                else (case first_fail (check_yna poll' (deref (optionYNA v))) ks of
                        Some msg \<Rightarrow> msg | None \<Rightarrow> [])
            | _ \<Rightarrow> ''Your vote has a wrong format'')
      else ''Your vote has a wrong format'')"

text \<open>
  The reference: which ballots a poll accepts, without any order of iteration. The limits are the
  poll's fields with the documented defaults for zero.
\<close>

definition min_votes :: "Poll \<Rightarrow> int" where
  "min_votes poll = (if poll_MinVotesAmount poll = 0 then 1 else poll_MinVotesAmount poll)"

definition max_per_option :: "Poll \<Rightarrow> int" where
  "max_per_option poll = (if poll_MaxVotesPerOption poll = 0 then 1 else poll_MaxVotesPerOption poll)"

definition max_votes :: "Poll \<Rightarrow> int \<Rightarrow> int" where
  "max_votes poll dflt = (if poll_MaxVotesAmount poll = 0 then dflt else poll_MaxVotesAmount poll)"

definition amounts_fit :: "Poll \<Rightarrow> (int \<rightharpoonup> int) \<Rightarrow> bool" where
  "amounts_fit poll m \<longleftrightarrow>
     (\<forall>k a. m k = Some a \<longrightarrow> k \<in> set (poll_OptionIDs poll) \<and> 0 \<le> a \<and> a \<le> max_per_option poll) \<and>
     min_votes poll \<le> (\<Sum>k\<in>dom m. the (m k)) \<and> (\<Sum>k\<in>dom m. the (m k)) \<le> max_votes poll 1"

definition answers_fit :: "Poll \<Rightarrow> (int \<rightharpoonup> string) \<Rightarrow> bool" where
  "answers_fit poll m \<longleftrightarrow>
     dom m \<subseteq> set (poll_OptionIDs poll) \<and>
     ran m \<subseteq> (if poll_Pollmethod poll = ''YNA'' then {''Y'', ''N'', ''A''} else {''Y'', ''N''}) \<and>
     min_votes poll \<le> int (card (dom m)) \<and>
     int (card (dom m)) \<le> max_votes poll (int (length (poll_OptionIDs poll)))"

definition global_enabled :: "Poll \<Rightarrow> string \<Rightarrow> bool" where
  "global_enabled poll s \<longleftrightarrow>
     s = ''Y'' \<and> poll_GlobalYes poll \<or> s = ''N'' \<and> poll_GlobalNo poll \<or> s = ''A'' \<and> poll_GlobalAbstain poll"

definition ballot_fits :: "Poll \<Rightarrow> ballotValue \<Rightarrow> bool" where
  "ballot_fits poll v \<longleftrightarrow>
     poll_Pollmethod poll \<in> {''Y'', ''N'', ''YN'', ''YNA''} \<and>
     (if str v \<noteq> [] then global_enabled poll (str v)
      else if poll_Pollmethod poll \<in> {''Y'', ''N''}
      then (\<exists>m. optionAmount v = Some m \<and> amounts_fit poll m)
      else optionAmount v = None \<and> (\<exists>m. optionYNA v = Some m \<and> answers_fit poll m))"

text \<open>The map \<^verbatim>\<open>validate\<close> ranges over, and the orders the language allows.\<close>

definition value_order :: "ballotValue \<Rightarrow> int list \<Rightarrow> bool" where
  "value_order v ks \<longleftrightarrow>
     (if optionAmount v \<noteq> None then is_order ks (deref (optionAmount v)) else is_order ks (deref (optionYNA v)))"

lemma wrap64_wrap64_add: "wrap64 (wrap64 a + b) = wrap64 (a + b)"
proof -
  have "((a + 2 ^ 63) mod 2 ^ 64 + b) mod 2 ^ 64 = (a + 2 ^ 63 + b) mod (2 ^ 64 :: int)"
    by (rule mod_add_left_eq)
  then show ?thesis by (simp add: wrap64_def algebra_simps)
qed

definition amount_ok :: "Poll \<Rightarrow> int \<Rightarrow> int \<Rightarrow> bool" where
  "amount_ok poll k a \<longleftrightarrow> 0 \<le> a \<and> a \<le> poll_MaxVotesPerOption poll \<and> k \<in> set (poll_OptionIDs poll)"

lemma sum_amounts_Inr:
  assumes "in_int64 acc" "set ks \<subseteq> dom m"
  shows "sum_amounts poll m ks acc = Inr s \<longleftrightarrow>
    (\<forall>k\<in>set ks. amount_ok poll k (the (m k))) \<and> s = wrap64 (acc + (\<Sum>k\<leftarrow>ks. the (m k)))"
  using assms
proof (induction ks arbitrary: acc)
  case Nil
  then show ?case by auto
next
  case (Cons k ks)
  then obtain a where a: "m k = Some a" by auto
  with Cons.IH [of "wrap64 (acc + a)"] Cons.prems show ?case
    by (auto simp: amount_ok_def wrap64_wrap64_add add.assoc)
qed

lemma sum_amounts_Inl_nonempty: "sum_amounts poll m ks acc = Inl msg \<Longrightarrow> msg \<noteq> []"
  by (induction poll m ks acc rule: sum_amounts.induct) (auto split: option.splits if_splits)

lemma check_yna_nonempty: "check_yna poll m k = Some msg \<Longrightarrow> msg \<noteq> []"
  by (auto simp: check_yna_def split: option.splits if_splits)

text \<open>The amounts of a map whose entries are all in range add up without overflow.\<close>

lemma sum_amounts_bound:
  assumes fin: "finite (dom m)"
    and ok: "\<And>k. k \<in> dom m \<Longrightarrow> 0 \<le> the (m k) \<and> the (m k) \<le> M \<and> k \<in> set opts"
    and small: "int (card (set opts)) * M < 2 ^ 63"
  shows "in_int64 (\<Sum>k\<in>dom m. the (m k))"
proof (cases "dom m = {}")
  case True
  then show ?thesis by (simp add: in_int64_def)
next
  case False
  then have "0 \<le> M" using ok by fastforce
  have "(\<Sum>k\<in>dom m. the (m k)) \<le> (\<Sum>k\<in>dom m. M)" by (rule sum_mono) (use ok in auto)
  also have "\<dots> = int (card (dom m)) * M" by simp
  also have "\<dots> \<le> int (card (set opts)) * M"
    by (rule mult_right_mono) (use ok \<open>0 \<le> M\<close> in \<open>auto intro!: card_mono\<close>)
  finally have "(\<Sum>k\<in>dom m. the (m k)) < 2 ^ 63" using small by simp
  moreover have "0 \<le> (\<Sum>k\<in>dom m. the (m k))" by (rule sum_nonneg) (use ok in auto)
  ultimately show ?thesis by (simp add: in_int64_def)
qed

lemma with_defaults_simps [simp]:
  "poll_Pollmethod (with_defaults poll) = poll_Pollmethod poll"
  "poll_OptionIDs (with_defaults poll) = poll_OptionIDs poll"
  "poll_MaxVotesAmount (with_defaults poll) = poll_MaxVotesAmount poll"
  "poll_GlobalYes (with_defaults poll) = poll_GlobalYes poll"
  "poll_GlobalNo (with_defaults poll) = poll_GlobalNo poll"
  "poll_GlobalAbstain (with_defaults poll) = poll_GlobalAbstain poll"
  "poll_MinVotesAmount (with_defaults poll) = min_votes poll"
  "poll_MaxVotesPerOption (with_defaults poll) = max_per_option poll"
  by (simp_all add: with_defaults_def Let_def min_votes_def max_per_option_def)

lemma validate_global_iff: "s \<noteq> [] \<Longrightarrow> validate_global poll s = [] \<longleftrightarrow> global_enabled poll s"
  by (auto simp: validate_global_def allowedGlobal_def global_enabled_def)

lemma sum_amounts_order:
  assumes ord: "is_order ks m" and poll: "poll_MaxVotesPerOption q = max_per_option poll" "poll_OptionIDs q = poll_OptionIDs poll"
    and small: "int (card (set (poll_OptionIDs poll))) * max_per_option poll < 2 ^ 63"
  shows "sum_amounts q m ks 0 = Inr s \<longleftrightarrow>
    (\<forall>k a. m k = Some a \<longrightarrow> k \<in> set (poll_OptionIDs poll) \<and> 0 \<le> a \<and> a \<le> max_per_option poll) \<and>
    s = (\<Sum>k\<in>dom m. the (m k))"
proof -
  have sum: "(\<Sum>k\<leftarrow>ks. the (m k)) = (\<Sum>k\<in>dom m. the (m k))"
    using is_orderD(1,2) [OF ord] by (simp add: sum_list_distinct_conv_sum_set)
  have all: "(\<forall>k\<in>set ks. amount_ok q k (the (m k))) \<longleftrightarrow>
      (\<forall>k a. m k = Some a \<longrightarrow> k \<in> set (poll_OptionIDs poll) \<and> 0 \<le> a \<and> a \<le> max_per_option poll)"
    using is_orderD(2) [OF ord] poll by (auto simp: amount_ok_def dom_def)
  have "in_int64 (\<Sum>k\<in>dom m. the (m k))" if "\<forall>k\<in>set ks. amount_ok q k (the (m k))"
    by (rule sum_amounts_bound [OF is_orderD(3) [OF ord] _ small])
      (use that is_orderD(2) [OF ord] poll in \<open>auto simp: amount_ok_def\<close>)
  with sum_amounts_Inr [of 0 ks m q s] is_orderD(2) [OF ord] sum all show ?thesis
    by (auto simp: in_int64_def)
qed

lemma check_yna_iff: "check_yna poll m k = None \<longleftrightarrow>
    (\<forall>a. m k = Some a \<longrightarrow> k \<in> set (poll_OptionIDs poll) \<and>
       a \<in> (if poll_Pollmethod poll = ''YNA'' then {''Y'', ''N'', ''A''} else {''Y'', ''N''}))"
  by (auto simp: check_yna_def split: option.splits)

lemma check_answers:
  assumes "is_order ks m"
  shows "first_fail (check_yna poll m) ks = None \<longleftrightarrow> dom m \<subseteq> set (poll_OptionIDs poll) \<and>
     ran m \<subseteq> (if poll_Pollmethod poll = ''YNA'' then {''Y'', ''N'', ''A''} else {''Y'', ''N''})"
proof -
  have "first_fail (check_yna poll m) ks = None \<longleftrightarrow>
      (\<forall>k a. m k = Some a \<longrightarrow> k \<in> set (poll_OptionIDs poll) \<and>
         a \<in> (if poll_Pollmethod poll = ''YNA'' then {''Y'', ''N'', ''A''} else {''Y'', ''N''}))"
    unfolding first_fail_None check_yna_iff using is_orderD(2) [OF assms] by (metis domI)
  then show ?thesis unfolding ran_def dom_def by blast
qed

lemma case_string_empty:
  "(\<And>msg. r = Some msg \<Longrightarrow> msg \<noteq> []) \<Longrightarrow> (case r of Some msg \<Rightarrow> msg | None \<Rightarrow> []) = [] \<longleftrightarrow> r = None"
  by (cases r) auto

text \<open>The two branches of \<^verbatim>\<open>validate\<close> that look at the options.\<close>

lemma validate_amounts:
  assumes "poll_Pollmethod poll \<in> {''Y'', ''N''}" "str v = []" "optionAmount v = Some m"
    and ord: "is_order ks m"
    and small: "int (card (set (poll_OptionIDs poll))) * max_per_option poll < 2 ^ 63"
  shows "validate poll v ks = [] \<longleftrightarrow> amounts_fit poll m"
proof -
  define q where "q = (let w = with_defaults poll in
    if poll_MaxVotesAmount w = 0 then w\<lparr>poll_MaxVotesAmount := 1\<rparr> else w)"
  have q: "poll_MaxVotesPerOption q = max_per_option poll" "poll_OptionIDs q = poll_OptionIDs poll"
    "poll_MinVotesAmount q = min_votes poll" "poll_MaxVotesAmount q = max_votes poll 1"
    by (simp_all add: q_def Let_def max_votes_def)
  have val: "validate poll v ks = (case sum_amounts q m ks 0 of Inl msg \<Rightarrow> msg
      | Inr s \<Rightarrow> if s < poll_MinVotesAmount q \<or> s > poll_MaxVotesAmount q
          then ''The sum of your answers has to be between '' @ Itoa (poll_MinVotesAmount q)
                 @ '' and '' @ Itoa (poll_MaxVotesAmount q) else [])"
    using assms(1-3) by (auto simp: validate_def ballotValue_Type_def Let_def q_def split: sum.split)
  show ?thesis
  proof (cases "sum_amounts q m ks 0")
    case (Inl msg)
    with sum_amounts_order [OF ord q(1,2) small, of "\<Sum>k\<in>dom m. the (m k)"]
    have "\<not> amounts_fit poll m" by (auto simp: amounts_fit_def)
    with sum_amounts_Inl_nonempty [OF Inl] val Inl show ?thesis by simp
  next
    case (Inr s)
    with sum_amounts_order [OF ord q(1,2) small, of s]
    have "amounts_fit poll m \<longleftrightarrow> min_votes poll \<le> s \<and> s \<le> max_votes poll 1" by (simp add: amounts_fit_def)
    with val Inr show ?thesis by (auto simp: q)
  qed
qed

lemma validate_answers:
  assumes "poll_Pollmethod poll \<in> {''YN'', ''YNA''}" "str v = []" "optionAmount v = None" "optionYNA v = Some m"
    and ord: "is_order ks m"
  shows "validate poll v ks = [] \<longleftrightarrow> answers_fit poll m"
proof -
  define q where "q = (let w = with_defaults poll in
    if poll_MaxVotesAmount w = 0 then w\<lparr>poll_MaxVotesAmount := int (length (poll_OptionIDs w))\<rparr> else w)"
  have q: "poll_OptionIDs q = poll_OptionIDs poll" "poll_Pollmethod q = poll_Pollmethod poll"
    "poll_MinVotesAmount q = min_votes poll"
    "poll_MaxVotesAmount q = max_votes poll (int (length (poll_OptionIDs poll)))"
    by (simp_all add: q_def Let_def max_votes_def)
  have val: "validate poll v ks =
      (if int (length ks) < poll_MinVotesAmount q \<or> int (length ks) > poll_MaxVotesAmount q
       then ''You have to select between '' @ Itoa (poll_MinVotesAmount q)
              @ '' and '' @ Itoa (poll_MaxVotesAmount q) @ '' options''
       else (case first_fail (check_yna q m) ks of Some msg \<Rightarrow> msg | None \<Rightarrow> []))"
    using assms by (auto simp: validate_def ballotValue_Type_def Let_def q_def)
  have ne: "first_fail (check_yna q m) ks = Some msg \<Longrightarrow> msg \<noteq> []" for msg
    using first_fail_Some check_yna_nonempty by metis
  show ?thesis
    unfolding val answers_fit_def using is_order_length [OF ord] check_answers [OF ord, of q] q
      case_string_empty [OF ne] by auto
qed

lemma validate_iff_fits:
  assumes "value_order v ks"
    and "int (card (set (poll_OptionIDs poll))) * max_per_option poll < 2 ^ 63"
  shows "validate poll v ks = [] \<longleftrightarrow> ballot_fits poll v"
proof (cases "str v = [] \<and> poll_Pollmethod poll \<in> {''Y'', ''N'', ''YN'', ''YNA''}")
  case False
  then show ?thesis
    by (auto simp: validate_def ballot_fits_def ballotValue_Type_def Let_def validate_global_iff global_enabled_def)
next
  case True
  then have s: "str v = []" by simp
  show ?thesis
  proof (cases "poll_Pollmethod poll \<in> {''Y'', ''N''}")
    case Y: True
    then show ?thesis
    proof (cases "optionAmount v")
      case None
      with Y s show ?thesis by (auto simp: validate_def ballot_fits_def ballotValue_Type_def Let_def)
    next
      case (Some m)
      with validate_amounts [OF Y s Some _ assms(2)] assms(1) Y s show ?thesis
        by (auto simp: value_order_def ballot_fits_def)
    qed
  next
    case N: False
    with True have Y: "poll_Pollmethod poll \<in> {''YN'', ''YNA''}" by auto
    show ?thesis
    proof (cases "optionAmount v = None \<and> optionYNA v \<noteq> None")
      case False
      with Y s show ?thesis by (auto simp: validate_def ballot_fits_def ballotValue_Type_def Let_def)
    next
      case T: True
      then obtain m where m: "optionYNA v = Some m" by auto
      from T have n: "optionAmount v = None" by simp
      with validate_answers [OF Y s n m] assms(1) Y s m show ?thesis
        by (auto simp: value_order_def ballot_fits_def)
    qed
  qed
qed

text \<open>
  C10. \<^verbatim>\<open>validate\<close> decides the reference: whatever order the language iterates the ballot's map in,
  the message is empty exactly for the ballots that fit the poll. The sum of the amounts does not
  overflow as long as the options times the maximum per option fit into an \<^verbatim>\<open>int\<close>.
\<close>
theorem validate_decides:
  assumes "value_order v ks"
    and "int (card (set (poll_OptionIDs poll))) * max_per_option poll < 2 ^ 63"
  shows "validate poll v ks = [] \<longleftrightarrow> ballot_fits poll v"
  by (rule validate_iff_fits [OF assms])

definition demo_poll :: Poll where
  "demo_poll = \<lparr>poll_MeetingID = 7, poll_Type = ''named'', poll_Backend = ''fast'', poll_Pollmethod = ''Y'',
     poll_EntitledGroupIDs = [5], poll_OptionIDs = [1, 2], poll_MinVotesAmount = 0, poll_MaxVotesAmount = 3,
     poll_MaxVotesPerOption = 2, poll_GlobalYes = True, poll_GlobalNo = False, poll_GlobalAbstain = False,
     poll_LiveVotingEnabled = True\<rparr>"

definition demo_value :: ballotValue where
  "demo_value = \<lparr>str = [], optionAmount = Some [1 \<mapsto> 2, 2 \<mapsto> 1], optionYNA = None, original = None\<rparr>"

theorem validate_decides_witness:
  "value_order demo_value [2, 1] \<and>
   int (card (set (poll_OptionIDs demo_poll))) * max_per_option demo_poll < 2 ^ 63 \<and>
   ballot_fits demo_poll demo_value"
proof -
  have 1: "value_order demo_value [2, 1]" by (auto simp: value_order_def demo_value_def is_order_def)
  have 2: "int (card (set (poll_OptionIDs demo_poll))) * max_per_option demo_poll < 2 ^ 63"
    by (simp add: demo_poll_def max_per_option_def)
  have "validate demo_poll demo_value [2, 1] = []" by code_simp
  with validate_decides [OF 1 2] 1 2 show ?thesis by simp
qed

text \<open>The members of the payload that decode into the field \<^verbatim>\<open>value\<close>.\<close>

definition value_members :: "(string \<times> json) list \<Rightarrow> (string \<times> json) list" where
  "value_members ms = filter (\<lambda>(k, j). field_matches ''value'' (unquote k)) ms"

lemma value_not_user_id: "field_matches ''value'' k \<Longrightarrow> \<not> field_matches ''user_id'' k"
  by (auto simp: field_matches_def to_upper_def)

lemma ballot_fields_no_value:
  "ballot_fields ms b = Inr b' \<Longrightarrow> value_members ms = [] \<Longrightarrow> BallotValue b' = BallotValue b"
  by (induction ms b rule: ballot_fields.induct)
    (auto simp: value_members_def Let_def split: if_splits sum.splits)

lemma ballot_fields_one_value:
  "ballot_fields ms b = Inr b' \<Longrightarrow> value_members ms = [(k, j)] \<Longrightarrow>
   ballotValue_UnmarshalJSON j (BallotValue b) = Inr (BallotValue b')"
proof (induction ms b rule: ballot_fields.induct)
  case (1 b)
  then show ?case by (simp add: value_members_def)
next
  case (2 k0 j0 ms b)
  show ?case
  proof (cases "field_matches ''value'' (unquote k0)")
    case True
    with "2.prems" value_not_user_id have rest: "value_members ms = []" "k0 = k" "j0 = j"
      and nu: "\<not> field_matches ''user_id'' (unquote k0)" by (auto simp: value_members_def)
    with "2.prems"(1) True obtain v where v: "ballotValue_UnmarshalJSON j (BallotValue b) = Inr v"
      and r: "ballot_fields ms (b\<lparr>BallotValue := v\<rparr>) = Inr b'"
      by (auto simp: Let_def split: sum.splits)
    from ballot_fields_no_value [OF r rest(1)] v show ?thesis by simp
  next
    case False
    with "2.prems"(2) have vm: "value_members ms = [(k, j)]" by (simp add: value_members_def)
    with "2.IH" "2.prems"(1) False show ?thesis by (auto simp: Let_def split: if_splits sum.splits)
  qed
qed

lemma UnmarshalJSON_original: "ballotValue_UnmarshalJSON j v = Inr v' \<Longrightarrow> original v' = Some j"
  by (auto simp: ballotValue_UnmarshalJSON_def Let_def split: option.splits)

text \<open>
  C22. What is validated is what is stored: when the payload has one member \<^verbatim>\<open>value\<close>, the decoded
  ballot is that of this member alone, and the raw text that \<^verbatim>\<open>Vote\<close> saves is this member's. In
  particular nothing else in the payload, and no earlier content, takes part in the validation.
\<close>
theorem decoded_value_is_original:
  assumes "Decoder_Decode body = Some (JObject ms)" and "value_members ms = [(k, j)]"
    and "decode_ballot body = Inr b"
  shows "original (BallotValue b) = Some j \<and>
    ballotValue_UnmarshalJSON j (BallotValue zero_ballot) = Inr (BallotValue b)"
proof -
  from assms have "ballot_fields ms zero_ballot = Inr b" by (simp add: decode_ballot_def)
  from ballot_fields_one_value [OF this assms(2)] show ?thesis by (simp add: UnmarshalJSON_original)
qed

definition demo_body :: string where
  "demo_body = ''{\"user_id\": 23, \"value\": {\"1\": 2}}''"

theorem decoded_value_is_original_witness:
  "original (BallotValue (projr (decode_ballot demo_body))) = Some (JObject [(''1'', JNumber ''2'')])"
proof -
  have 1: "Decoder_Decode demo_body = Some (JObject [(''user_id'', JNumber ''23''), (''value'', JObject [(''1'', JNumber ''2'')])])"
    by code_simp
  have 2: "value_members [(''user_id'', JNumber ''23''), (''value'', JObject [(''1'', JNumber ''2'')])]
      = [(''value'', JObject [(''1'', JNumber ''2'')])]" by code_simp
  have "Atoi ''1'' = Some 1" "Atoi ''2'' = Some 2" "Atoi ''23'' = Some 23" by code_simp+
  then have 3: "decode_ballot demo_body = Inr (projr (decode_ballot demo_body))"
    by (simp add: decode_ballot_def 1 field_matches_def to_upper_def Let_def maybeInt_UnmarshalJSON_def
          ballotValue_UnmarshalJSON_def)
  from decoded_value_is_original [OF 1 2 3] show ?thesis by simp
qed

text \<open>A payload with two members \<^verbatim>\<open>value\<close>: a global answer and amounts.\<close>

definition smuggled_body :: string where
  "smuggled_body = ''{\"value\": \"Y\", \"value\": {\"1\": 1000}}''"

text \<open>
  C38. The payload is not restricted to one member \<^verbatim>\<open>value\<close>. \<^verbatim>\<open>UnmarshalJSON\<close> runs once for each, and
  keeps the text of the earlier one in \<^verbatim>\<open>str\<close> while \<^verbatim>\<open>original\<close> is overwritten. With a global
  answer first, any amounts pass the validation of every poll that allows this global answer, and
  the amounts are what is stored.
\<close>
theorem duplicate_value_is_not_validated:
  assumes "poll_Pollmethod poll \<in> {''Y'', ''N'', ''YN'', ''YNA''}" and "poll_GlobalYes poll"
  shows "\<exists>b. decode_ballot smuggled_body = Inr b \<and> validate poll (BallotValue b) ks = [] \<and>
    RawMessage_Marshal (original (BallotValue b)) = ''{\"1\":1000}''"
proof -
  have d: "Decoder_Decode smuggled_body =
      Some (JObject [(''value'', JString ''Y''), (''value'', JObject [(''1'', JNumber ''1000'')])])" by code_simp
  have 1: "Atoi ''1'' = Some 1" "Atoi ''1000'' = Some 1000" by code_simp+
  have 2: "field_matches ''value'' ''value''" "\<not> field_matches ''user_id'' ''value''" by code_simp+
  have "decode_ballot smuggled_body = Inr (zero_ballot\<lparr>BallotValue :=
      \<lparr>str = ''Y'', optionAmount = Some [1 \<mapsto> 1000], optionYNA = None,
       original = Some (JObject [(''1'', JNumber ''1000'')])\<rparr>\<rparr>)"
    by (simp add: decode_ballot_def d 1 2 Let_def ballotValue_UnmarshalJSON_def zero_ballot_def)
  moreover have "validate poll \<lparr>str = ''Y'', optionAmount = Some [1 \<mapsto> 1000], optionYNA = None,
       original = Some (JObject [(''1'', JNumber ''1000'')])\<rparr> ks = []"
    using assms by (auto simp: validate_def Let_def ballotValue_Type_def validate_global_def allowedGlobal_def)
  moreover have "RawMessage_Marshal (Some (JObject [(''1'', JNumber ''1000'')])) = ''{\"1\":1000}''"
    by code_simp
  ultimately show ?thesis by simp
qed

theorem duplicate_value_is_not_validated_witness:
  "poll_GlobalYes demo_poll \<and> \<not> ballot_fits demo_poll (demo_value\<lparr>optionAmount := Some [1 \<mapsto> 1000]\<rparr>) \<and>
   (\<exists>b. decode_ballot smuggled_body = Inr b \<and> validate demo_poll (BallotValue b) [1] = [] \<and>
     RawMessage_Marshal (original (BallotValue b)) = ''{\"1\":1000}'')"
  using duplicate_value_is_not_validated [of demo_poll "[1]"]
  by (auto simp: demo_poll_def demo_value_def ballot_fits_def amounts_fit_def max_per_option_def)

end
