(* ===== verification/Datastore.thy ===== *)
theory Datastore
  imports Ballot
begin

text \<open>
  What \<^verbatim>\<open>vote/vote.go\<close> reads from the datastore and decides from it: \<^verbatim>\<open>getMeetingUser\<close>,
  \<^verbatim>\<open>ensurePresent\<close>, \<^verbatim>\<open>ensureVoteUser\<close>, \<^verbatim>\<open>delegatedUserIDs\<close>, \<^verbatim>\<open>equalElement\<close> and \<^verbatim>\<open>preload\<close>.

  The datastore packages (\<^verbatim>\<open>dsfetch\<close>, \<^verbatim>\<open>dsmodels\<close>, \<^verbatim>\<open>dsrecorder\<close>) and the decimal package are other
  repositories. They are the parameters \<open>fetch\<close> and \<open>decimal\<close>: for each key its content, whether
  a single read (\<^verbatim>\<open>Value\<close>) of it fails, whether a batch of lazy reads (\<^verbatim>\<open>Lazy\<close>, \<^verbatim>\<open>Execute\<close>) fails,
  and the few operations on decimals. A request reads a key once, so this describes a request
  also when the datastore changes meanwhile.
\<close>

datatype ds_key =
    Meeting_UsersEnableVoteWeight int
  | Meeting_UsersEnableVoteDelegations int
  | Meeting_UsersForbidDelegatorToVote int
  | Group_MeetingUserIDs int
  | MeetingUser_UserID int
  | MeetingUser_GroupIDs int
  | MeetingUser_VoteWeight int
  | MeetingUser_VoteDelegatedToID int
  | MeetingUser_VoteDelegationsFromIDs int
  | MeetingUser_MeetingID int
  | User_DefaultVoteWeight int
  | User_MeetingUserIDs int
  | User_IsPresentInMeetingIDs int

record 'd fetch =
  ds_bool :: "ds_key \<Rightarrow> bool"
  ds_int :: "ds_key \<Rightarrow> int"
  ds_ints :: "ds_key \<Rightarrow> int list"
  ds_maybe :: "ds_key \<Rightarrow> int option"
  ds_decimal :: "ds_key \<Rightarrow> 'd"
  ds_poll :: "int \<Rightarrow> Poll"
  ds_err :: "ds_key \<Rightarrow> err option"
  ds_poll_err :: "int \<Rightarrow> err option"
  ds_Execute :: "ds_key list \<Rightarrow> err option"

record 'd decimal =
  dec_zero :: 'd                      \<comment> \<open>the zero value of the Go type\<close>
  dec_IsZero :: "'d \<Rightarrow> bool"
  dec_NewFromInt :: "int \<Rightarrow> 'd"
  dec_StringFixed :: "'d \<Rightarrow> int \<Rightarrow> string"

text \<open>\<^verbatim>\<open>Value(ctx)\<close> of a key, and the key's content after a successful batch.\<close>

definition Value :: "'d fetch \<Rightarrow> ('d fetch \<Rightarrow> ds_key \<Rightarrow> 'v) \<Rightarrow> ds_key \<Rightarrow> err + 'v" where
  "Value f get k = (case ds_err f k of Some e \<Rightarrow> Inl e | None \<Rightarrow> Inr (get f k))"

definition Poll_First :: "'d fetch \<Rightarrow> int \<Rightarrow> err + Poll" where
  "Poll_First f p = (case ds_poll_err f p of Some e \<Rightarrow> Inl e | None \<Rightarrow> Inr (ds_poll f p))"

definition Execute :: "'d fetch \<Rightarrow> ('d fetch \<Rightarrow> 'v) \<Rightarrow> ds_key list \<Rightarrow> err + 'v" where
  "Execute f get ks = (case ds_Execute f ks of Some e \<Rightarrow> Inl e | None \<Rightarrow> Inr (get f))"

text \<open>The loop over the meeting ids: the first position that holds the meeting.\<close>

fun find_meeting :: "int \<Rightarrow> (int \<times> int) list \<Rightarrow> int option" where
  "find_meeting meetingID [] = None"
| "find_meeting meetingID ((mu, mid) # ms) = (if mid = meetingID then Some mu else find_meeting meetingID ms)"

definition getMeetingUser :: "'d fetch \<Rightarrow> int \<Rightarrow> int \<Rightarrow> err + int option" where
  "getMeetingUser f userID meetingID =
     (case Value f ds_ints (User_MeetingUserIDs userID) of
        Inl e \<Rightarrow> Inl (Wrapped ''getting all meeting_user ids'' e)
      | Inr meetingUserIDs \<Rightarrow>
        (case Execute f (\<lambda>f. map (\<lambda>mu. ds_int f (MeetingUser_MeetingID mu)) meetingUserIDs)
                (map MeetingUser_MeetingID meetingUserIDs) of
           Inl e \<Rightarrow> Inl (Wrapped ''get all meeting IDs'' e)
         | Inr meetingIDs \<Rightarrow> Inr (find_meeting meetingID (zip meetingUserIDs meetingIDs))))"

definition ensurePresent :: "'d fetch \<Rightarrow> int \<Rightarrow> int \<Rightarrow> err option" where
  "ensurePresent f meetingID user =
     (case Value f ds_ints (User_IsPresentInMeetingIDs user) of
        Inl e \<Rightarrow> Some (Wrapped ''fetching is present in meetings'' e)
      | Inr presentMeetings \<Rightarrow>
          if meetingID \<in> set presentMeetings then None
          else Some (MessageError ErrNotAllowed (''You have to be present in meeting '' @ Itoa meetingID)))"

text \<open>A set built by a loop over \<open>g1\<close>, then a loop over \<open>g2\<close> that stops at the first hit.\<close>

definition equalElement :: "int list \<Rightarrow> int list \<Rightarrow> bool" where
  "equalElement g1 g2 = (let seen = foldl (\<lambda>m e. m(e \<mapsto> True)) Map.empty g1
                         in list_ex (\<lambda>e. seen e = Some True) g2)"

text \<open>The second half of \<^verbatim>\<open>ensureVoteUser\<close>: the request user votes for somebody else.\<close>

definition ensureDelegation :: "'d fetch \<Rightarrow> Poll \<Rightarrow> int \<Rightarrow> int option \<Rightarrow> int \<Rightarrow> err option" where
  "ensureDelegation f poll voteUser delegation requestUser =
     (case getMeetingUser f requestUser (poll_MeetingID poll) of
        Inl e \<Rightarrow> Some (Wrapped ''getting meeting_user for request user'' e)
      | Inr None \<Rightarrow> Some (MessageError ErrNotAllowed ''You are not in the right meeting'')
      | Inr (Some requestMeetingUserID) \<Rightarrow>
          if delegation \<noteq> Some requestMeetingUserID
          then Some (MessageError ErrNotAllowed (''You can not vote for user '' @ Itoa voteUser))
          else None)"

definition ensureVoteUser :: "'d fetch \<Rightarrow> Poll \<Rightarrow> int \<Rightarrow> int \<Rightarrow> int \<Rightarrow> err option" where
  "ensureVoteUser f poll voteUser voteMeetingUserID requestUser =
     (case Value f ds_ints (MeetingUser_GroupIDs voteMeetingUserID) of
        Inl e \<Rightarrow> Some (Wrapped (''fetching groups of user '' @ Itoa voteUser @ '' in meeting ''
                          @ Itoa (poll_MeetingID poll)) e)
      | Inr groupIDs \<Rightarrow>
      if \<not> equalElement groupIDs (poll_EntitledGroupIDs poll)
      then Some (MessageError ErrNotAllowed
             (''User '' @ Itoa voteUser @ '' is not allowed to vote. He is not in an entitled group''))
      else
      case Value f ds_bool (Meeting_UsersEnableVoteDelegations (poll_MeetingID poll)) of
        Inl e \<Rightarrow> Some (Wrapped ''fetching user enable vote delegation'' e)
      | Inr delegationActivated \<Rightarrow>
      case Value f ds_bool (Meeting_UsersForbidDelegatorToVote (poll_MeetingID poll)) of
        Inl e \<Rightarrow> Some (Wrapped ''getting users_forbid_delegator_to_vote'' e)
      | Inr forbitDelegateToVote \<Rightarrow>
      case Value f ds_maybe (MeetingUser_VoteDelegatedToID voteMeetingUserID) of
        Inl e \<Rightarrow> Some (Wrapped ''fetching delegation '' e)
      | Inr delegation \<Rightarrow>
      if delegationActivated \<and> forbitDelegateToVote \<and> delegation \<noteq> None \<and> voteUser = requestUser
      then Some (MessageError ErrNotAllowed
             ''You have delegated your vote and therefore can not vote for your self'')
      else if voteUser = requestUser then None
      else if \<not> delegationActivated
      then Some (MessageError ErrNotAllowed
             (''Vote delegation is not activated in meeting '' @ Itoa (poll_MeetingID poll)))
      else ensureDelegation f poll voteUser delegation requestUser)"

definition delegatedUserIDs :: "'d fetch \<Rightarrow> int \<Rightarrow> err + int list" where
  "delegatedUserIDs f userID =
     (case Value f ds_ints (User_MeetingUserIDs userID) of
        Inl e \<Rightarrow> Inl (Wrapped ''fetching meeting user'' e)
      | Inr meetingUserIDs \<Rightarrow>
      case Execute f (\<lambda>f. map (\<lambda>mu. ds_ints f (MeetingUser_VoteDelegationsFromIDs mu)) meetingUserIDs)
             (map MeetingUser_VoteDelegationsFromIDs meetingUserIDs) of
        Inl e \<Rightarrow> Inl (Wrapped ''getting vote_delegation_from values'' e)
      | Inr meetingUserDelegationsIDs \<Rightarrow>
      let delegatedMeetingUserIDs = concat meetingUserDelegationsIDs in
      case Execute f (\<lambda>f. map (\<lambda>mu. ds_int f (MeetingUser_UserID mu)) delegatedMeetingUserIDs)
             (map MeetingUser_UserID delegatedMeetingUserIDs) of
        Inl e \<Rightarrow> Inl (Wrapped ''getting user_ids from meeting_user_ids'' e)
      | Inr userIDs \<Rightarrow> Inr userIDs)"

text \<open>
  \<^verbatim>\<open>preload\<close>. The result carries the keys that were requested, in the order of the requests: they are
  what is in the cache afterwards (and what the recorder of \<^verbatim>\<open>Start\<close> lists).
\<close>

definition preload_meeting_keys :: "Poll \<Rightarrow> ds_key list" where
  "preload_meeting_keys poll =
     [Meeting_UsersEnableVoteWeight (poll_MeetingID poll),
      Meeting_UsersEnableVoteDelegations (poll_MeetingID poll),
      Meeting_UsersForbidDelegatorToVote (poll_MeetingID poll)]
     @ map Group_MeetingUserIDs (poll_EntitledGroupIDs poll)"

definition preload_meeting_user_keys :: "int \<Rightarrow> ds_key list" where
  "preload_meeting_user_keys muID =
     [MeetingUser_UserID muID, MeetingUser_GroupIDs muID, MeetingUser_VoteWeight muID,
      MeetingUser_VoteDelegatedToID muID, MeetingUser_MeetingID muID]"

definition preload_delegate_keys :: "int \<Rightarrow> ds_key list" where
  "preload_delegate_keys muID = [MeetingUser_UserID muID, MeetingUser_MeetingID muID]"

definition preload_user_keys :: "int list \<Rightarrow> int list \<Rightarrow> ds_key list" where
  "preload_user_keys userIDs dUserIDs =
     concat (map (\<lambda>u. [User_DefaultVoteWeight u, User_MeetingUserIDs u, User_IsPresentInMeetingIDs u]) userIDs)
     @ concat (map (\<lambda>u. [User_IsPresentInMeetingIDs u, User_MeetingUserIDs u]) dUserIDs)"

text \<open>The loop that reads, one after the other, to whom each meeting user has delegated his vote.\<close>

fun delegates_of :: "'d fetch \<Rightarrow> int list \<Rightarrow> err + int list" where
  "delegates_of f [] = Inr []"
| "delegates_of f (muID # muIDs) =
     (case Value f ds_maybe (MeetingUser_VoteDelegatedToID muID) of
        Inl e \<Rightarrow> Inl (Wrapped (''getting vote delegated to for meeting user '' @ Itoa muID) e)
      | Inr mID \<Rightarrow>
        (case delegates_of f muIDs of
           Inl e \<Rightarrow> Inl e
         | Inr ids \<Rightarrow> Inr (case mID of None \<Rightarrow> ids | Some i \<Rightarrow> i # ids)))"

definition preload :: "'d fetch \<Rightarrow> Poll \<Rightarrow> err + ds_key list" where
  "preload f poll =
     (let keys1 = preload_meeting_keys poll in
      case Execute f (\<lambda>f. map (\<lambda>g. ds_ints f (Group_MeetingUserIDs g)) (poll_EntitledGroupIDs poll)) keys1 of
        Inl e \<Rightarrow> Inl (Wrapped ''fetching users'' e)
      | Inr meetingUserIDsList \<Rightarrow>
      let muIDs = concat meetingUserIDsList; keys2 = concat (map preload_meeting_user_keys muIDs) in
      case Execute f (\<lambda>f. map (\<lambda>mu. ds_int f (MeetingUser_UserID mu)) muIDs) keys2 of
        Inl e \<Rightarrow> Inl (Wrapped ''preload meeting user data'' e)
      | Inr userIDs \<Rightarrow>
      case delegates_of f muIDs of
        Inl e \<Rightarrow> Inl e
      | Inr delegatedMeetingUserIDs \<Rightarrow>
      let keys3 = concat (map preload_delegate_keys delegatedMeetingUserIDs) in
      case Execute f (\<lambda>f. map (\<lambda>mu. ds_int f (MeetingUser_UserID mu)) delegatedMeetingUserIDs) keys3 of
        Inl e \<Rightarrow> Inl (Wrapped ''preloading delegate user ids'' e)
      | Inr dUserIDs \<Rightarrow>
      let keys4 = preload_user_keys userIDs dUserIDs in
      case Execute f (\<lambda>f. ()) keys4 of
        Inl e \<Rightarrow> Inl (Wrapped ''preloading user data'' e)
      | Inr _ \<Rightarrow> Inr (keys1 @ keys2 @ keys3 @ keys4))"

text \<open>
  The rules in terms of the datastore's content: the meeting user that stands for a user in a
  meeting, and who may cast whose vote.
\<close>

definition meeting_user :: "'d fetch \<Rightarrow> int \<Rightarrow> int \<Rightarrow> int option" where
  "meeting_user f u m = List.find (\<lambda>mu. ds_int f (MeetingUser_MeetingID mu) = m) (ds_ints f (User_MeetingUserIDs u))"

definition present :: "'d fetch \<Rightarrow> int \<Rightarrow> int \<Rightarrow> bool" where
  "present f u m \<longleftrightarrow> m \<in> set (ds_ints f (User_IsPresentInMeetingIDs u))"

definition in_entitled_group :: "'d fetch \<Rightarrow> Poll \<Rightarrow> int \<Rightarrow> bool" where
  "in_entitled_group f poll mu \<longleftrightarrow> set (ds_ints f (MeetingUser_GroupIDs mu)) \<inter> set (poll_EntitledGroupIDs poll) \<noteq> {}"

definition may_vote_for :: "'d fetch \<Rightarrow> Poll \<Rightarrow> int \<Rightarrow> int \<Rightarrow> int \<Rightarrow> bool" where
  "may_vote_for f poll voteUser mu requestUser \<longleftrightarrow>
     (let m = poll_MeetingID poll;
          delegations = ds_bool f (Meeting_UsersEnableVoteDelegations m);
          delegate = ds_maybe f (MeetingUser_VoteDelegatedToID mu)
      in if voteUser = requestUser
         then \<not> (delegations \<and> ds_bool f (Meeting_UsersForbidDelegatorToVote m) \<and> delegate \<noteq> None)
         else delegations \<and> delegate \<noteq> None \<and> delegate = meeting_user f requestUser m)"

definition may_cast :: "'d fetch \<Rightarrow> Poll \<Rightarrow> int \<Rightarrow> int \<Rightarrow> bool" where
  "may_cast f poll voteUser requestUser \<longleftrightarrow>
     voteUser \<noteq> 0 \<and> present f requestUser (poll_MeetingID poll) \<and>
     (\<exists>mu. meeting_user f voteUser (poll_MeetingID poll) = Some mu \<and> in_entitled_group f poll mu \<and>
           may_vote_for f poll voteUser mu requestUser)"

text \<open>No read fails.\<close>

definition readable :: "'d fetch \<Rightarrow> bool" where
  "readable f \<longleftrightarrow> (\<forall>k. ds_err f k = None) \<and> (\<forall>ks. ds_Execute f ks = None)"

lemma Value_readable [simp]: "readable f \<Longrightarrow> Value f get k = Inr (get f k)"
  by (simp add: readable_def Value_def)

lemma Execute_readable [simp]: "readable f \<Longrightarrow> Execute f get ks = Inr (get f)"
  by (simp add: readable_def Execute_def)

lemma Value_InrD: "Value f get k = Inr x \<Longrightarrow> x = get f k"
  by (simp add: Value_def split: option.splits)

lemma Execute_InrD: "Execute f get ks = Inr x \<Longrightarrow> x = get f"
  by (simp add: Execute_def split: option.splits)

lemma find_meeting_zip: "find_meeting m (zip mus (map g mus)) = List.find (\<lambda>mu. g mu = m) mus"
  by (induction mus) auto

lemma seen_foldl: "foldl (\<lambda>m e. m(e \<mapsto> True)) m0 g e = Some True \<longleftrightarrow> e \<in> set g \<or> m0 e = Some True"
  by (induction g arbitrary: m0) auto

lemma equalElement_iff: "equalElement g1 g2 \<longleftrightarrow> set g1 \<inter> set g2 \<noteq> {}"
  by (auto simp: equalElement_def list_ex_iff seen_foldl)

lemma getMeetingUser_Inr: "getMeetingUser f u m = Inr r \<Longrightarrow> r = meeting_user f u m"
  by (auto simp: getMeetingUser_def meeting_user_def find_meeting_zip dest!: Value_InrD Execute_InrD split: sum.splits)

lemma getMeetingUser_readable: "readable f \<Longrightarrow> getMeetingUser f u m = Inr (meeting_user f u m)"
  by (simp add: getMeetingUser_def meeting_user_def find_meeting_zip)

lemma ensurePresent_None: "ensurePresent f m u = None \<Longrightarrow> present f u m"
  by (auto simp: ensurePresent_def present_def dest!: Value_InrD split: sum.splits if_splits)

lemma ensurePresent_readable: "readable f \<Longrightarrow> ensurePresent f m u = None \<longleftrightarrow> present f u m"
  by (simp add: ensurePresent_def present_def)

lemma ensureDelegation_None:
  "ensureDelegation f poll vu d ru = None \<Longrightarrow> d \<noteq> None \<and> d = meeting_user f ru (poll_MeetingID poll)"
  by (auto simp: ensureDelegation_def dest!: getMeetingUser_Inr split: sum.splits option.splits if_splits)

lemma ensureDelegation_readable:
  "readable f \<Longrightarrow> ensureDelegation f poll vu d ru = None \<longleftrightarrow> d \<noteq> None \<and> d = meeting_user f ru (poll_MeetingID poll)"
  by (auto simp: ensureDelegation_def getMeetingUser_readable split: option.splits)

lemma ensureVoteUser_None:
  "ensureVoteUser f poll vu mu ru = None \<Longrightarrow> in_entitled_group f poll mu \<and> may_vote_for f poll vu mu ru"
  by (auto simp: ensureVoteUser_def in_entitled_group_def may_vote_for_def equalElement_iff Let_def
      dest!: Value_InrD ensureDelegation_None split: sum.splits if_splits)

lemma ensureVoteUser_readable:
  "readable f \<Longrightarrow> ensureVoteUser f poll vu mu ru = None \<longleftrightarrow> in_entitled_group f poll mu \<and> may_vote_for f poll vu mu ru"
  by (auto simp: ensureVoteUser_def in_entitled_group_def may_vote_for_def equalElement_iff Let_def
      ensureDelegation_readable)

text \<open>The users for whom \<open>u\<close> may be asked to vote: those who delegated their vote to him.\<close>

definition delegators :: "'d fetch \<Rightarrow> int \<Rightarrow> int set" where
  "delegators f u = (\<lambda>mu. ds_int f (MeetingUser_UserID mu)) `
     (\<Union>mine\<in>set (ds_ints f (User_MeetingUserIDs u)). set (ds_ints f (MeetingUser_VoteDelegationsFromIDs mine)))"

lemma delegatedUserIDs_Inr: "delegatedUserIDs f u = Inr us \<Longrightarrow> set us = delegators f u"
  unfolding delegatedUserIDs_def delegators_def Let_def
  by (simp add: set_concat split: sum.splits) (drule Value_InrD Execute_InrD, simp)+

lemma delegatedUserIDs_readable: "readable f \<Longrightarrow> \<exists>us. delegatedUserIDs f u = Inr us"
  by (simp add: delegatedUserIDs_def Let_def)

end
