(* ===== verification/Backend_Spec.thy ===== *)
theory Backend_Spec
  imports Go_Errors
begin

text \<open>
  The interface \<^verbatim>\<open>vote.Backend\<close> (\<^verbatim>\<open>vote/vote.go\<close>) and what its comments promise.

  \<^item> \<open>Backend\<close> is the method table of the Go interface. A method takes the state of the backend
    and returns its result and the new state. \<open>Stop\<close> takes in addition the choices the language
    or the server leaves open (the orders in which maps are visited).
  \<^item> \<open>poll_data\<close> and \<open>store\<close> are the abstract content of a backend: for each known poll whether
    it is stopped, who has voted and the multiset of vote objects. The \<open>spec_\<close> functions are the
    promised effects on it.
  \<^item> The locale \<open>backend_contract\<close> is the promise: every operation preserves the backend's
    invariant and acts on the abstract store as specified. Its lemmas, proved once, describe
    every history of a backend: which votes were accepted and what \<open>Stop\<close> returns, so that the
    history is \<open>legal\<close>.
\<close>

record ('s, 'o) Backend =
  bStart :: "int \<Rightarrow> 's \<Rightarrow> err option \<times> 's"
  bVote :: "int \<Rightarrow> int \<Rightarrow> bytes \<Rightarrow> 's \<Rightarrow> err option \<times> 's"
  bStop :: "'o \<Rightarrow> int \<Rightarrow> 's \<Rightarrow> (err + bytes list \<times> int list) \<times> 's"
  bClear :: "int \<Rightarrow> 's \<Rightarrow> err option \<times> 's"
  bClearAll :: "'s \<Rightarrow> err option \<times> 's"
  bLiveVotes :: "'s \<Rightarrow> (err + live_votes) \<times> 's"

record poll_data =
  stopped :: bool
  voters :: "int set"
  ballots :: "bytes multiset"

type_synonym store = "int \<rightharpoonup> poll_data"

datatype verdict = Accepted | NotStarted | AlreadyStopped | AlreadyVoted

definition fresh_poll :: poll_data where
  "fresh_poll = \<lparr>stopped = False, voters = {}, ballots = {#}\<rparr>"

definition spec_start :: "int \<Rightarrow> store \<Rightarrow> store" where
  "spec_start p S = (if S p = None then S(p \<mapsto> fresh_poll) else S)"

definition spec_verdict :: "int \<Rightarrow> int \<Rightarrow> store \<Rightarrow> verdict" where
  "spec_verdict p u S =
     (case S p of None \<Rightarrow> NotStarted
      | Some a \<Rightarrow> if stopped a then AlreadyStopped
                 else if u \<in> voters a then AlreadyVoted else Accepted)"

definition add_ballot :: "int \<Rightarrow> bytes \<Rightarrow> poll_data \<Rightarrow> poll_data" where
  "add_ballot u obj a = a\<lparr>voters := insert u (voters a), ballots := add_mset obj (ballots a)\<rparr>"

definition spec_vote :: "int \<Rightarrow> int \<Rightarrow> bytes \<Rightarrow> store \<Rightarrow> store" where
  "spec_vote p u obj S =
     (if spec_verdict p u S = Accepted then S(p := map_option (add_ballot u obj) (S p)) else S)"

definition spec_stop :: "int \<Rightarrow> store \<Rightarrow> store" where
  "spec_stop p S = S(p := map_option (stopped_update (\<lambda>_. True)) (S p))"

definition spec_clear :: "int \<Rightarrow> store \<Rightarrow> store" where
  "spec_clear p S = S(p := None)"

lemmas spec_all_defs [spec_defs] =
  spec_start_def spec_verdict_def spec_vote_def spec_stop_def spec_clear_def add_ballot_def
  fresh_poll_def

text \<open>How \<^verbatim>\<open>Vote.Vote\<close> classifies the error of a backend's \<open>Vote\<close>; \<open>None\<close> is any other error.\<close>

definition verdict_of :: "err option \<Rightarrow> verdict option" where
  "verdict_of r =
     (case r of None \<Rightarrow> Some Accepted
      | Some e \<Rightarrow> if err_as is_doesNotExistError e then Some NotStarted
                 else if err_as is_doubleVoteError e then Some AlreadyVoted
                 else if err_as is_stoppedError e then Some AlreadyStopped
                 else None)"

text \<open>The result of \<open>Stop\<close> that a poll with this content has to give.\<close>

definition stop_result :: "poll_data \<Rightarrow> bytes list \<times> int list \<Rightarrow> bool" where
  "stop_result a r \<longleftrightarrow>
     mset (fst r) = ballots a \<and> set (snd r) = voters a \<and> distinct (snd r) \<and> sorted (snd r)"

text \<open>The users and vote objects \<open>LiveVotes\<close> has to report.\<close>

definition voters_of :: "store \<Rightarrow> int \<Rightarrow> int set" where
  "voters_of S p = (case S p of None \<Rightarrow> {} | Some a \<Rightarrow> voters a)"

definition ballots_of :: "store \<Rightarrow> int \<Rightarrow> bytes multiset" where
  "ballots_of S p = (case S p of None \<Rightarrow> {#} | Some a \<Rightarrow> ballots a)"

definition live_result :: "store \<Rightarrow> live_votes \<Rightarrow> bool" where
  "live_result S lv \<longleftrightarrow>
     (\<forall>p. dom (sub_map lv p) = voters_of S p) \<and> dom lv \<subseteq> dom S \<and> None \<notin> ran lv \<and>
     (\<forall>p u obj. sub_map lv p u = Some (Some obj) \<longrightarrow> obj \<in># ballots_of S p)"

text \<open>
  A history of a backend: its calls with their results, oldest first. Calls of \<open>LiveVotes\<close> may come
  at any time and leave no trace.
\<close>

datatype event =
    EvStart int
  | EvVote int int bytes "err option"
  | EvStop int "err + bytes list \<times> int list"
  | EvClear int
  | EvClearAll

inductive backend_trace ::
  "('s, 'o) Backend \<Rightarrow> (int \<Rightarrow> bool) \<Rightarrow> ('o \<Rightarrow> int \<Rightarrow> 's \<Rightarrow> bool) \<Rightarrow> 's \<Rightarrow> event list \<Rightarrow> 's \<Rightarrow> bool"
  for B :: "('s, 'o) Backend" and ok :: "int \<Rightarrow> bool" and okO :: "'o \<Rightarrow> int \<Rightarrow> 's \<Rightarrow> bool" and s0 :: 's
where
  init: "backend_trace B ok okO s0 [] s0"
| start: "backend_trace B ok okO s0 es s \<Longrightarrow> ok p \<Longrightarrow> bStart B p s = (r, s') \<Longrightarrow>
    backend_trace B ok okO s0 (es @ [EvStart p]) s'"
| vote: "backend_trace B ok okO s0 es s \<Longrightarrow> ok p \<Longrightarrow> ok u \<Longrightarrow> obj \<noteq> [] \<Longrightarrow>
    bVote B p u obj s = (r, s') \<Longrightarrow> backend_trace B ok okO s0 (es @ [EvVote p u obj r]) s'"
| stop: "backend_trace B ok okO s0 es s \<Longrightarrow> ok p \<Longrightarrow> okO c p s \<Longrightarrow> bStop B c p s = (r, s') \<Longrightarrow>
    backend_trace B ok okO s0 (es @ [EvStop p r]) s'"
| clear: "backend_trace B ok okO s0 es s \<Longrightarrow> ok p \<Longrightarrow> bClear B p s = (r, s') \<Longrightarrow>
    backend_trace B ok okO s0 (es @ [EvClear p]) s'"
| clear_all: "backend_trace B ok okO s0 es s \<Longrightarrow> bClearAll B s = (r, s') \<Longrightarrow>
    backend_trace B ok okO s0 (es @ [EvClearAll]) s'"
| live: "backend_trace B ok okO s0 es s \<Longrightarrow> bLiveVotes B s = (y, s') \<Longrightarrow> backend_trace B ok okO s0 es s'"

inductive_cases backend_trace_snocE: "backend_trace B ok okO s0 (es @ [e]) s"

text \<open>
  Read off a history: the votes accepted for poll \<open>p\<close> since it was last cleared, and whether
  it has been stopped since then.
\<close>

fun accept_step :: "int \<Rightarrow> (int \<times> bytes) list \<Rightarrow> event \<Rightarrow> (int \<times> bytes) list" where
  "accept_step p acc (EvVote q u obj r) = (if q = p \<and> r = None then acc @ [(u, obj)] else acc)"
| "accept_step p acc (EvClear q) = (if q = p then [] else acc)"
| "accept_step p acc EvClearAll = []"
| "accept_step p acc e = acc"

definition accepted :: "int \<Rightarrow> event list \<Rightarrow> (int \<times> bytes) list" where
  "accepted p es = foldl (accept_step p) [] es"

fun closed_step :: "int \<Rightarrow> bool \<Rightarrow> event \<Rightarrow> bool" where
  "closed_step p b (EvStop q (Inr r)) = (b \<or> q = p)"
| "closed_step p b (EvClear q) = (b \<and> q \<noteq> p)"
| "closed_step p b EvClearAll = False"
| "closed_step p b e = b"

definition closed :: "int \<Rightarrow> event list \<Rightarrow> bool" where
  "closed p es = foldl (closed_step p) False es"

fun started_step :: "int \<Rightarrow> bool \<Rightarrow> event \<Rightarrow> bool" where
  "started_step p b (EvStart q) = (b \<or> q = p)"
| "started_step p b (EvClear q) = (b \<and> q \<noteq> p)"
| "started_step p b EvClearAll = False"
| "started_step p b e = b"

definition started :: "int \<Rightarrow> event list \<Rightarrow> bool" where
  "started p es = foldl (started_step p) False es"

text \<open>A poll's content is what the accepted votes say, one vote for each user.\<close>

definition matches :: "poll_data option \<Rightarrow> (int \<times> bytes) list \<Rightarrow> bool \<Rightarrow> bool \<Rightarrow> bool" where
  "matches d acc kn cl \<longleftrightarrow>
     (case d of None \<Rightarrow> acc = [] \<and> \<not> kn \<and> \<not> cl
      | Some a \<Rightarrow> voters a = set (map fst acc) \<and> ballots a = mset (map snd acc) \<and>
                 distinct (map fst acc) \<and> kn \<and> stopped a = cl)"

definition history_verdict :: "int \<Rightarrow> int \<Rightarrow> event list \<Rightarrow> verdict" where
  "history_verdict p u es =
     (if \<not> started p es then NotStarted
      else if closed p es then AlreadyStopped
      else if u \<in> set (map fst (accepted p es)) then AlreadyVoted
      else Accepted)"

text \<open>
  A history is legal when every vote and every stop has the result that the calls before it demand:
  the votes are taken one after the other, each at the moment of its call.
\<close>

fun legal_event :: "event list \<Rightarrow> event \<Rightarrow> bool" where
  "legal_event es (EvVote p u obj r) \<longleftrightarrow> verdict_of r = Some (history_verdict p u es)"
| "legal_event es (EvStop p (Inl e)) \<longleftrightarrow> \<not> started p es \<and> err_as is_doesNotExistError e"
| "legal_event es (EvStop p (Inr (objs, uids))) \<longleftrightarrow>
     started p es \<and> mset objs = mset (map snd (accepted p es)) \<and> uids = sort (map fst (accepted p es))"
| "legal_event es e \<longleftrightarrow> True"

definition legal :: "event list \<Rightarrow> bool" where
  "legal es \<longleftrightarrow> (\<forall>i<length es. legal_event (take i es) (es ! i))"

lemma legal_simps [simp]: "legal []" "legal (es @ [e]) \<longleftrightarrow> legal es \<and> legal_event es e"
  by (auto simp: legal_def nth_append less_Suc_eq)

lemma accepted_simps [simp]:
  "accepted p [] = []" "accepted p (es @ [e]) = accept_step p (accepted p es) e"
  by (simp_all add: accepted_def)

lemma closed_simps [simp]:
  "closed p [] = False" "closed p (es @ [e]) = closed_step p (closed p es) e"
  by (simp_all add: closed_def)

lemma started_simps [simp]:
  "started p [] = False" "started p (es @ [e]) = started_step p (started p es) e"
  by (simp_all add: started_def)

text \<open>In a legal history no user has two accepted votes in a poll.\<close>

lemma legal_distinct: "legal es \<Longrightarrow> distinct (map fst (accepted p es))"
proof (induction es rule: rev_induct)
  case (snoc e es)
  then show ?case by (cases "(es, e)" rule: legal_event.cases)
    (auto simp: verdict_of_def history_verdict_def split: if_splits)
qed simp

lemma matches_start: "matches (S p) acc kn cl \<Longrightarrow> matches (spec_start q S p) acc (kn \<or> q = p) cl"
  by (cases "S p"; cases "q = p") (simp_all add: matches_def spec_start_def fresh_poll_def)

lemma matches_stop:
  "matches (S p) acc kn cl \<Longrightarrow> S q \<noteq> None \<Longrightarrow> matches (spec_stop q S p) acc kn (cl \<or> q = p)"
  by (cases "S p"; cases "q = p") (simp_all add: matches_def spec_stop_def)

lemma matches_clear: "matches (S p) acc kn cl \<Longrightarrow>
    matches (spec_clear q S p) (if q = p then [] else acc) (kn \<and> q \<noteq> p) (cl \<and> q \<noteq> p)"
  by (cases "q = p") (simp_all add: matches_def spec_clear_def)

lemma matches_vote: "matches (S p) acc kn cl \<Longrightarrow> spec_verdict p u S = Accepted \<Longrightarrow>
    matches (spec_vote p u obj S p) (acc @ [(u, obj)]) kn cl"
  by (cases "S p") (auto simp: matches_def spec_vote_def spec_verdict_def add_ballot_def split: if_splits)

lemma matches_verdict: "matches (S p) (accepted p es) (started p es) (closed p es) \<Longrightarrow>
    spec_verdict p u S = history_verdict p u es"
  by (cases "S p") (auto simp: matches_def spec_verdict_def history_verdict_def)

lemma voters_of_vote: "voters_of (spec_vote p u obj S) q =
    (if q = p \<and> spec_verdict p u S = Accepted then insert u (voters_of S p) else voters_of S q)"
  by (auto simp: voters_of_def spec_defs split: option.splits if_splits)

lemma voters_of_simps [simp]:
  "voters_of (spec_start p S) q = voters_of S q"
  "voters_of (spec_stop p S) q = voters_of S q"
  "voters_of (spec_clear p S) q = (if q = p then {} else voters_of S q)"
  "voters_of Map.empty q = {}"
  by (auto simp: voters_of_def spec_defs split: option.splits)

locale backend_contract =
  fixes B :: "('s, 'o) Backend"
    and inv :: "'s \<Rightarrow> bool"
    and abs :: "'s \<Rightarrow> store"
    and ok :: "int \<Rightarrow> bool"
    and okO :: "'o \<Rightarrow> int \<Rightarrow> 's \<Rightarrow> bool"
  assumes start_law: "inv s \<Longrightarrow> ok p \<Longrightarrow> bStart B p s = (r, s') \<Longrightarrow>
      r = None \<and> inv s' \<and> abs s' = spec_start p (abs s)"
    and vote_law: "inv s \<Longrightarrow> ok p \<Longrightarrow> ok u \<Longrightarrow> obj \<noteq> [] \<Longrightarrow> bVote B p u obj s = (r, s') \<Longrightarrow>
      verdict_of r = Some (spec_verdict p u (abs s)) \<and> inv s' \<and> abs s' = spec_vote p u obj (abs s)"
    and stop_unknown_law: "inv s \<Longrightarrow> ok p \<Longrightarrow> okO c p s \<Longrightarrow> abs s p = None \<Longrightarrow>
      bStop B c p s = (x, s') \<Longrightarrow>
      (\<exists>e. x = Inl e \<and> err_as is_doesNotExistError e) \<and> inv s' \<and> abs s' = abs s"
    and stop_law: "inv s \<Longrightarrow> ok p \<Longrightarrow> okO c p s \<Longrightarrow> abs s p = Some a \<Longrightarrow>
      bStop B c p s = (x, s') \<Longrightarrow>
      (\<exists>res. x = Inr res \<and> stop_result a res) \<and> inv s' \<and> abs s' = spec_stop p (abs s)"
    and clear_law: "inv s \<Longrightarrow> ok p \<Longrightarrow> bClear B p s = (r, s') \<Longrightarrow>
      r = None \<and> inv s' \<and> abs s' = spec_clear p (abs s)"
    and clear_all_law: "inv s \<Longrightarrow> bClearAll B s = (r, s') \<Longrightarrow>
      r = None \<and> inv s' \<and> abs s' = Map.empty"
    and live_law: "inv s \<Longrightarrow> bLiveVotes B s = (y, s') \<Longrightarrow>
      (\<exists>lv. y = Inr lv \<and> live_result (abs s) lv) \<and> inv s' \<and> abs s' = abs s"
begin

lemma vote_accepted_iff:
  assumes "inv s" "ok p" "ok u" "obj \<noteq> []" "bVote B p u obj s = (r, s')"
  shows "r = None \<longleftrightarrow> spec_verdict p u (abs s) = Accepted"
  using vote_law [OF assms] by (auto simp: verdict_of_def split: option.splits if_splits)

lemma vote_matches:
  assumes m: "matches (abs s p) acc kn cl" and "inv s" "ok q" "ok u" "obj \<noteq> []"
    and v: "bVote B q u obj s = (r, s')"
  shows "matches (abs s' p) (accept_step p acc (EvVote q u obj r)) kn cl"
proof (cases "q = p \<and> r = None")
  case False
  with assms vote_accepted_iff [of s q u obj r s'] vote_law [of s q u obj r s'] show ?thesis
    by (auto simp: spec_vote_def)
next
  case True
  with assms have "spec_verdict p u (abs s) = Accepted" "abs s' = spec_vote p u obj (abs s)"
    using vote_accepted_iff [of s q u obj r s'] vote_law [of s q u obj r s'] by auto
  with m True matches_vote show ?thesis by simp
qed

lemma stop_cases:
  assumes s: "inv s" "ok p" "okO c p s" and v: "bStop B c p s = (r, s')"
  shows "inv s' \<and> abs s' = spec_stop p (abs s) \<and>
    (case abs s p of None \<Rightarrow> (\<exists>e. r = Inl e \<and> err_as is_doesNotExistError e)
     | Some a \<Rightarrow> (\<exists>res. r = Inr res \<and> stop_result a res))"
proof (cases "abs s p")
  case None
  with stop_unknown_law [OF s None v] show ?thesis by (auto simp: spec_stop_def)
next
  case (Some a)
  with stop_law [OF s Some v] show ?thesis by auto
qed

lemma stop_matches:
  assumes m: "matches (abs s p) acc kn cl" and s: "inv s" "ok q" "okO c q s"
    and v: "bStop B c q s = (r, s')"
  shows "matches (abs s' p) acc kn (closed_step p cl (EvStop q r)) \<and> inv s'"
proof (cases "abs s q")
  case None
  from stop_unknown_law [OF s this v] m show ?thesis by auto
next
  case (Some a)
  from stop_law [OF s this v] obtain res where "r = Inr res" "abs s' = spec_stop q (abs s)" "inv s'"
    by blast
  with matches_stop [of "abs s" p acc kn cl q] m Some show ?thesis by simp
qed

lemma trace_matches:
  assumes "backend_trace B ok okO s0 es s" "inv s0" "abs s0 = Map.empty"
  shows "inv s \<and> (\<forall>p. matches (abs s p) (accepted p es) (started p es) (closed p es))"
  using assms
proof (induction rule: backend_trace.induct)
  case init
  then show ?case by (simp add: matches_def)
next
  case (start es s p r s')
  with start_law [of s p r s'] show ?case by (simp add: matches_start)
next
  case (vote es s p u obj r s')
  then have inv: "inv s" and m: "\<And>q. matches (abs s q) (accepted q es) (started q es) (closed q es)" by auto
  have "matches (abs s' q) (accept_step q (accepted q es) (EvVote p u obj r)) (started q es) (closed q es)" for q
    by (rule vote_matches [OF m inv vote.hyps(2,3,4,5)])
  moreover have "inv s'" using vote_law [OF inv vote.hyps(2,3,4,5)] by simp
  ultimately show ?case by (auto simp del: accept_step.simps)
next
  case (stop es s p c r s')
  then have inv: "inv s" and m: "\<And>q. matches (abs s q) (accepted q es) (started q es) (closed q es)" by auto
  have "matches (abs s' q) (accepted q es) (started q es) (closed_step q (closed q es) (EvStop p r)) \<and> inv s'" for q
    by (rule stop_matches [OF m inv stop.hyps(2,3,4)])
  then show ?case by (simp del: closed_step.simps)
next
  case (clear es s p r s')
  with clear_law [of s p r s'] matches_clear [of "abs s"] show ?case by simp
next
  case (clear_all es s r s')
  with clear_all_law [of s r s'] show ?case by (auto simp: matches_def)
next
  case (live es s y s')
  with live_law [of s y s'] show ?case by auto
qed

lemma trace_vote:
  assumes tr: "backend_trace B ok okO s0 es s" "inv s0" "abs s0 = Map.empty"
    and "ok p" "ok u" "obj \<noteq> []"
  shows "verdict_of (fst (bVote B p u obj s)) = Some (history_verdict p u es)"
proof -
  obtain r s' where v: "bVote B p u obj s = (r, s')" by fastforce
  from trace_matches [OF tr] have "inv s"
    and m: "matches (abs s p) (accepted p es) (started p es) (closed p es)" by auto
  from vote_law [OF this(1) assms(4-6) v] matches_verdict [of "abs s" p es u] m v show ?thesis by simp
qed

lemma trace_stop:
  assumes tr: "backend_trace B ok okO s0 es s" "inv s0" "abs s0 = Map.empty"
    and ok: "ok p" "okO c p s"
  shows "case fst (bStop B c p s) of
      Inl e \<Rightarrow> \<not> started p es \<and> err_as is_doesNotExistError e
    | Inr (objs, uids) \<Rightarrow> started p es \<and> distinct (map fst (accepted p es)) \<and>
        mset objs = mset (map snd (accepted p es)) \<and> uids = sort (map fst (accepted p es))"
proof -
  obtain r s' where st: "bStop B c p s = (r, s')" by fastforce
  from trace_matches [OF tr] have inv: "inv s"
    and m: "matches (abs s p) (accepted p es) (started p es) (closed p es)" by auto
  show ?thesis
  proof (cases "abs s p")
    case None
    with stop_unknown_law [OF inv ok None st] m st show ?thesis by (auto simp: matches_def)
  next
    case (Some a)
    with stop_law [OF inv ok Some st] obtain objs uids where r: "r = Inr (objs, uids)"
      and res: "stop_result a (objs, uids)" by auto
    with m Some have "set uids = set (map fst (accepted p es))" "distinct uids" "sorted uids"
      "distinct (map fst (accepted p es))" by (auto simp: matches_def stop_result_def)
    then have "uids = sort (map fst (accepted p es))" by (auto intro!: sorted_order_unique)
    with m Some res r st show ?thesis by (simp add: matches_def stop_result_def)
  qed
qed

lemma trace_legal:
  assumes "backend_trace B ok okO s0 es s" "inv s0" "abs s0 = Map.empty"
  shows "legal es"
  using assms
proof (induction rule: backend_trace.induct)
  case (vote es s p u obj r s')
  with trace_vote [of s0 es s p u obj] show ?case by simp
next
  case (stop es s p c r s')
  with trace_stop [of s0 es s p c] show ?case by (auto split: sum.splits)
qed simp_all

lemma stop_again:
  assumes "inv s" "ok p" "okO c p s" and st: "bStop B c p s = (Inr (objs, uids), s')"
    and "okO d p s'" and again: "bStop B d p s' = (r, s'')"
  shows "\<exists>objs'. r = Inr (objs', uids) \<and> mset objs' = mset objs \<and> abs s'' = abs s'"
proof -
  obtain a where a: "abs s p = Some a"
    using stop_unknown_law [OF assms(1-3) _ st] by (cases "abs s p") auto
  from stop_law [OF assms(1-3) a st] have 1: "stop_result a (objs, uids)" "inv s'" "abs s' = spec_stop p (abs s)" by auto
  with a have a': "abs s' p = Some (a\<lparr>stopped := True\<rparr>)" by (simp add: spec_stop_def)
  from stop_law [OF 1(2) assms(2,5) a' again] obtain res where
    2: "r = Inr res" "stop_result (a\<lparr>stopped := True\<rparr>) res" "abs s'' = spec_stop p (abs s')" by auto
  from 1 2 have "snd res = uids" by (auto simp: stop_result_def intro!: sorted_order_unique)
  moreover from 1 2 have "mset (fst res) = mset objs" by (simp add: stop_result_def)
  moreover from 2 1 have "abs s'' = abs s'" by (auto simp: spec_stop_def option.map_comp comp_def intro!: ext)
  ultimately show ?thesis using 2(1) by (cases res) auto
qed

lemma vote_frame:
  assumes "inv s" "ok p" "ok u" "obj \<noteq> []" "bVote B p u obj s = (r, s')" "q \<noteq> p"
  shows "abs s' q = abs s q"
  using vote_law [OF assms(1-5)] assms(6) by (simp add: spec_vote_def)

end

end
