(* ===== verification/Vote_Service.thy ===== *)
theory Vote_Service
  imports Datastore Backend_Spec
begin

text \<open>
  The service of \<^verbatim>\<open>vote/vote.go\<close>: the type \<^verbatim>\<open>Vote\<close> with its two backends, the flow and the map of live
  votes, and its methods \<^verbatim>\<open>New\<close>, \<^verbatim>\<open>Start\<close>, \<^verbatim>\<open>Stop\<close>, \<^verbatim>\<open>Clear\<close>, \<^verbatim>\<open>ClearAll\<close>, \<^verbatim>\<open>Vote\<close>, \<^verbatim>\<open>Voted\<close>,
  \<^verbatim>\<open>AllLiveVotes\<close> and \<^verbatim>\<open>loadVoted\<close>.

  The record \<open>Vote\<close> is the state: the states of the two backends, of the flow, and \<^verbatim>\<open>liveVotes\<close>. The
  record \<open>deps\<close> holds the code the service is given: the method tables of the backends, how a
  flow answers reads, whether it has the method \<^verbatim>\<open>Reset\<close>, and the decimal package. Methods are
  functions from the state to the result and the new state. A method is one step here; the
  interleavings of their phases are the subject of \<^verbatim>\<open>Vote_Concurrency\<close>.
\<close>

record ('f, 'l, 'w) Vote =
  fastBackend :: 'f
  longBackend :: 'l
  flow :: 'w
  liveVotes :: live_votes

record ('f, 'fo, 'l, 'lo, 'w, 'd) deps =
  fast :: "('f, 'fo) Backend"
  long :: "('l, 'lo) Backend"
  ds :: "'w \<Rightarrow> 'd fetch"
  Reset :: "('w \<Rightarrow> 'w) option"
  decimal :: "'d decimal"

text \<open>The method \<^verbatim>\<open>backend\<close> chooses where a call of a backend goes.\<close>

definition backend :: "Poll \<Rightarrow> ('f \<Rightarrow> 'r \<times> 'f) \<Rightarrow> ('l \<Rightarrow> 'r \<times> 'l) \<Rightarrow> ('f, 'l, 'w) Vote \<Rightarrow> 'r \<times> ('f, 'l, 'w) Vote" where
  "backend p onFast onLong v =
     (if poll_Backend p = ''fast''
      then (case onFast (fastBackend v) of (r, f) \<Rightarrow> (r, v\<lparr>fastBackend := f\<rparr>))
      else (case onLong (longBackend v) of (r, l) \<Rightarrow> (r, v\<lparr>longBackend := l\<rparr>)))"

text \<open>Loading the poll's configuration, the first step of \<^verbatim>\<open>Start\<close>, \<^verbatim>\<open>Stop\<close> and \<^verbatim>\<open>Vote\<close>.\<close>

definition load_poll :: "'d fetch \<Rightarrow> int \<Rightarrow> err + Poll" where
  "load_poll f pollID =
     (case Poll_First f pollID of
        Inl e \<Rightarrow> if err_as is_DsDoesNotExist e
                then Inl (MessageError ErrNotExists (''Poll '' @ Itoa pollID @ '' does not exist''))
                else Inl (Wrapped ''loading poll'' e)
      | Inr poll \<Rightarrow> Inr poll)"

definition loadVoted :: "('f, 'fo, 'l, 'lo, 'w, 'd) deps \<Rightarrow> ('f, 'l, 'w) Vote \<Rightarrow> err option \<times> ('f, 'l, 'w) Vote" where
  "loadVoted D v =
     (case bLiveVotes (fast D) (fastBackend v) of
        (Inl e, f) \<Rightarrow> (Some (Wrapped ''fetching data from fast backend'' e), v\<lparr>fastBackend := f\<rparr>)
      | (Inr combinedData, f) \<Rightarrow>
        (case bLiveVotes (long D) (longBackend v) of
           (Inl e, l) \<Rightarrow> (Some (Wrapped ''fetching data from long backend'' e),
                         v\<lparr>fastBackend := f, longBackend := l\<rparr>)
         | (Inr longData, l) \<Rightarrow>
             (None, v\<lparr>fastBackend := f, longBackend := l, liveVotes := combinedData ++ longData\<rparr>)))"

definition vote_New :: "('f, 'fo, 'l, 'lo, 'w, 'd) deps \<Rightarrow> 'f \<Rightarrow> 'l \<Rightarrow> 'w \<Rightarrow> err + ('f, 'l, 'w) Vote" where
  "vote_New D fst0 lng0 fl =
     (case loadVoted D \<lparr>fastBackend = fst0, longBackend = lng0, flow = fl, liveVotes = Map.empty\<rparr> of
        (Some e, v) \<Rightarrow> Inl (Wrapped ''loading voted'' e)
      | (None, v) \<Rightarrow> Inr v)"

definition vote_Start :: "('f, 'fo, 'l, 'lo, 'w, 'd) deps \<Rightarrow> int \<Rightarrow> ('f, 'l, 'w) Vote \<Rightarrow> err option \<times> ('f, 'l, 'w) Vote" where
  "vote_Start D pollID v =
     (case load_poll (ds D (flow v)) pollID of
        Inl e \<Rightarrow> (Some e, v)
      | Inr poll \<Rightarrow>
      if poll_Type poll = ''analog'' then (Some (MessageError ErrInvalid ''Analog poll can not be started''), v)
      else case preload (ds D (flow v)) poll of
        Inl e \<Rightarrow> (Some (Wrapped ''preloading data'' e), v)
      | Inr keys \<Rightarrow>
      case backend poll (bStart (fast D) pollID) (bStart (long D) pollID) v of
        (Some e, v') \<Rightarrow> (Some (Wrapped ''starting poll in the backend'' e), v')
      | (None, v') \<Rightarrow> (None, v'))"

definition vote_Stop :: "('f, 'fo, 'l, 'lo, 'w, 'd) deps \<Rightarrow> 'fo \<Rightarrow> 'lo \<Rightarrow> int \<Rightarrow> ('f, 'l, 'w) Vote
    \<Rightarrow> (err + bytes list \<times> int list) \<times> ('f, 'l, 'w) Vote" where
  "vote_Stop D fc lc pollID v =
     (case load_poll (ds D (flow v)) pollID of
        Inl e \<Rightarrow> (Inl e, v)
      | Inr poll \<Rightarrow>
      case backend poll (bStop (fast D) fc pollID) (bStop (long D) lc pollID) v of
        (Inl e, v') \<Rightarrow>
          if err_as is_doesNotExistError e
          then (Inl (MessageError ErrNotExists (''Poll '' @ Itoa pollID @ '' does not exist in the backend'')), v')
          else (Inl (Wrapped ''fetching vote objects'' e), v')
      | (Inr res, v') \<Rightarrow> (Inr res, v'))"

definition vote_Clear :: "('f, 'fo, 'l, 'lo, 'w, 'd) deps \<Rightarrow> int \<Rightarrow> ('f, 'l, 'w) Vote \<Rightarrow> err option \<times> ('f, 'l, 'w) Vote" where
  "vote_Clear D pollID v =
     (case bClear (fast D) pollID (fastBackend v) of
        (Some e, f) \<Rightarrow> (Some (Wrapped ''clearing fastBackend'' e), v\<lparr>fastBackend := f\<rparr>)
      | (None, f) \<Rightarrow>
        (case bClear (long D) pollID (longBackend v) of
           (Some e, l) \<Rightarrow> (Some (Wrapped ''clearing longBackend'' e), v\<lparr>fastBackend := f, longBackend := l\<rparr>)
         | (None, l) \<Rightarrow>
             (None, v\<lparr>fastBackend := f, longBackend := l, liveVotes := (liveVotes v)(pollID \<mapsto> None)\<rparr>)))"

definition vote_ClearAll :: "('f, 'fo, 'l, 'lo, 'w, 'd) deps \<Rightarrow> ('f, 'l, 'w) Vote \<Rightarrow> err option \<times> ('f, 'l, 'w) Vote" where
  "vote_ClearAll D v0 =
     (let v = (case Reset D of Some r \<Rightarrow> v0\<lparr>flow := r (flow v0)\<rparr> | None \<Rightarrow> v0) in
      case bClearAll (fast D) (fastBackend v) of
        (Some e, f) \<Rightarrow> (Some (Wrapped ''clearing fastBackend'' e), v\<lparr>fastBackend := f\<rparr>)
      | (None, f) \<Rightarrow>
        (case bClearAll (long D) (longBackend v) of
           (Some e, l) \<Rightarrow> (Some (Wrapped ''clearing long Backend'' e), v\<lparr>fastBackend := f, longBackend := l\<rparr>)
         | (None, l) \<Rightarrow> (None, v\<lparr>fastBackend := f, longBackend := l, liveVotes := Map.empty\<rparr>)))"

text \<open>
  \<^verbatim>\<open>Vote\<close>. The weight: the meeting user's, else the user's default, when the meeting uses weights;
  one when the result is zero.
\<close>

definition vote_weight :: "'d decimal \<Rightarrow> bool \<Rightarrow> 'd \<Rightarrow> 'd \<Rightarrow> 'd" where
  "vote_weight dec voteWeightEnabled meetingUserVoteWeight userDefaultVoteWeight =
     (let w1 = (if voteWeightEnabled
                then (if dec_IsZero dec meetingUserVoteWeight then userDefaultVoteWeight else meetingUserVoteWeight)
                else dec_zero dec)
      in if dec_IsZero dec w1 then dec_NewFromInt dec 1 else w1)"

text \<open>The stored object: the anonymous struct \<^verbatim>\<open>voteData\<close>, and its JSON with \<^verbatim>\<open>omitempty\<close> for the ids.\<close>

record voteData =
  vd_RequestUser :: int
  vd_VoteUser :: int
  vd_Value :: "json option"
  vd_Weight :: string

definition int_field :: "string \<Rightarrow> int \<Rightarrow> string" where
  "int_field name i = (if i = 0 then [] else [quote_char] @ name @ [quote_char] @ '':'' @ Itoa i @ '','')"

definition voteData_Marshal :: "voteData \<Rightarrow> bytes" where
  "voteData_Marshal d =
     ''{'' @ int_field ''request_user_id'' (vd_RequestUser d) @ int_field ''vote_user_id'' (vd_VoteUser d)
     @ ''\"value\":'' @ RawMessage_Marshal (vd_Value d) @ '',\"weight\":'' @ string_Marshal (vd_Weight d) @ ''}''"

definition vote_object :: "Poll \<Rightarrow> int \<Rightarrow> int \<Rightarrow> json option \<Rightarrow> string \<Rightarrow> bytes" where
  "vote_object poll requestUser voteUser raw weight =
     (let voteData = \<lparr>vd_RequestUser = requestUser, vd_VoteUser = voteUser, vd_Value = raw, vd_Weight = weight\<rparr>
      in voteData_Marshal
           (if poll_Type poll \<noteq> ''named'' then voteData\<lparr>vd_RequestUser := 0, vd_VoteUser := 0\<rparr> else voteData))"

text \<open>The error of a backend's \<^verbatim>\<open>Vote\<close> as the caller of the service sees it.\<close>

definition vote_error :: "err \<Rightarrow> err" where
  "vote_error e =
     (if err_as is_doesNotExistError e then TypeErr ErrNotExists
      else if err_as is_doubleVoteError e then TypeErr ErrDoubleVote
      else if err_as is_stoppedError e then TypeErr ErrStopped
      else Wrapped ''save vote'' e)"

text \<open>
  The first phase of \<^verbatim>\<open>Vote\<close>: everything before the backend is called. The result is the poll, the
  user the vote counts for and the object to store. \<open>ks\<close> is the order in which \<^verbatim>\<open>validate\<close> ranges
  over the ballot.
\<close>

definition vote_prepare :: "'d decimal \<Rightarrow> 'd fetch \<Rightarrow> int list \<Rightarrow> int \<Rightarrow> int \<Rightarrow> string \<Rightarrow> err + Poll \<times> int \<times> bytes" where
  "vote_prepare dec f ks pollID requestUser body =
     (case load_poll f pollID of
        Inl e \<Rightarrow> Inl e
      | Inr poll \<Rightarrow>
      case ensurePresent f (poll_MeetingID poll) requestUser of
        Some e \<Rightarrow> Inl e
      | None \<Rightarrow>
      case decode_ballot body of
        Inl e \<Rightarrow> Inl (MessageError ErrInvalid (''decoding payload: '' @ err_Error e))
      | Inr vote \<Rightarrow>
      let voteUser = (case maybeInt_Value (UserID vote) of (i, exist) \<Rightarrow> if exist then i else requestUser) in
      if voteUser = 0 then Inl (MessageError ErrNotAllowed ''Votes for anonymous user are not allowed'')
      else case getMeetingUser f voteUser (poll_MeetingID poll) of
        Inl e \<Rightarrow> Inl (Wrapped ''get meeting user for vote user'' e)
      | Inr None \<Rightarrow> Inl (MessageError ErrNotAllowed ''You are not in the right meeting'')
      | Inr (Some voteMeetingUserID) \<Rightarrow>
      case ensureVoteUser f poll voteUser voteMeetingUserID requestUser of
        Some e \<Rightarrow> Inl e
      | None \<Rightarrow>
      let validation = validate poll (BallotValue vote) ks in
      if validation \<noteq> [] then Inl (MessageError ErrInvalid validation)
      else case Execute f
             (\<lambda>f. (ds_bool f (Meeting_UsersEnableVoteWeight (poll_MeetingID poll)),
                   ds_decimal f (MeetingUser_VoteWeight voteMeetingUserID),
                   ds_decimal f (User_DefaultVoteWeight voteUser)))
             [Meeting_UsersEnableVoteWeight (poll_MeetingID poll), MeetingUser_VoteWeight voteMeetingUserID,
              User_DefaultVoteWeight voteUser] of
        Inl e \<Rightarrow> Inl (Wrapped ''getting vote weight'' e)
      | Inr (voteWeightEnabled, muWeight, userWeight) \<Rightarrow>
          Inr (poll, voteUser,
               vote_object poll requestUser voteUser (original (BallotValue vote))
                 (dec_StringFixed dec (vote_weight dec voteWeightEnabled muWeight userWeight) 6)))"

text \<open>The last phase, under the lock: the vote enters the live votes.\<close>

definition record_live :: "Poll \<Rightarrow> int \<Rightarrow> int \<Rightarrow> bytes \<Rightarrow> live_votes \<Rightarrow> live_votes" where
  "record_live poll pollID voteUser bs lv =
     (let liveVote = (if poll_Type poll = ''named'' then Some bs else None);
          lv' = (case lv pollID of Some (Some m) \<Rightarrow> lv | _ \<Rightarrow> lv(pollID \<mapsto> Some Map.empty))
      in lv'(pollID \<mapsto> Some ((sub_map lv' pollID)(voteUser \<mapsto> liveVote))))"

definition vote_Vote :: "('f, 'fo, 'l, 'lo, 'w, 'd) deps \<Rightarrow> int list \<Rightarrow> int \<Rightarrow> int \<Rightarrow> string
    \<Rightarrow> ('f, 'l, 'w) Vote \<Rightarrow> err option \<times> ('f, 'l, 'w) Vote" where
  "vote_Vote D ks pollID requestUser body v =
     (case vote_prepare (decimal D) (ds D (flow v)) ks pollID requestUser body of
        Inl e \<Rightarrow> (Some e, v)
      | Inr (poll, voteUser, bs) \<Rightarrow>
      case backend poll (bVote (fast D) pollID voteUser bs) (bVote (long D) pollID voteUser bs) v of
        (Some e, v') \<Rightarrow> (Some (vote_error e), v')
      | (None, v') \<Rightarrow> (None, v'\<lparr>liveVotes := record_live poll pollID voteUser bs (liveVotes v')\<rparr>))"

text \<open>
  \<^verbatim>\<open>Voted\<close>. \<open>ord\<close> gives the order in which the users of a poll are visited; the order of the polls
  does not matter, since each poll fills its own entry.
\<close>

definition voted_poll :: "live_votes \<Rightarrow> (int \<Rightarrow> int list) \<Rightarrow> int list \<Rightarrow> int \<Rightarrow> int list option" where
  "voted_poll lv ord requested pid =
     (case lv pid of
        None \<Rightarrow> None
      | Some userID2Vote \<Rightarrow>
          (case filter (\<lambda>uid. uid \<in> set requested) (ord pid) of [] \<Rightarrow> None | us \<Rightarrow> Some us))"

definition vote_Voted :: "('f, 'fo, 'l, 'lo, 'w, 'd) deps \<Rightarrow> (int \<Rightarrow> int list) \<Rightarrow> int list \<Rightarrow> int \<Rightarrow> ('f, 'l, 'w) Vote
    \<Rightarrow> err + (int \<rightharpoonup> int list option)" where
  "vote_Voted D ord pollIDs requestUser v =
     (case delegatedUserIDs (ds D (flow v)) requestUser of
        Inl e \<Rightarrow> Inl (Wrapped ''getting all delegated users'' e)
      | Inr userIDs \<Rightarrow>
          Inr (\<lambda>pid. if pid \<in> set pollIDs then Some (voted_poll (liveVotes v) ord (requestUser # userIDs) pid) else None))"

text \<open>
  \<^verbatim>\<open>AllLiveVotes\<close>: the loop over the users of a named poll with live voting. \<open>None\<close> is the panic of
  an assignment to a nil map: a nil vote sets the poll's map to nil, and a later vote is written
  into it.
\<close>

fun copy_votes :: "(int \<rightharpoonup> bytes option) \<Rightarrow> int list \<Rightarrow> (int \<rightharpoonup> string option) option \<Rightarrow> (int \<rightharpoonup> string option) option option" where
  "copy_votes votes [] out = Some out"
| "copy_votes votes (userID # us) out =
     (case votes userID of
        None \<Rightarrow> copy_votes votes us out
      | Some None \<Rightarrow> copy_votes votes us None
      | Some (Some vote) \<Rightarrow>
          (case out of None \<Rightarrow> None
           | Some m \<Rightarrow> copy_votes votes us (Some (m(userID \<mapsto> Some vote)))))"

definition live_poll :: "Poll \<Rightarrow> (int \<rightharpoonup> bytes option) \<Rightarrow> int list \<Rightarrow> (int \<rightharpoonup> string option) option option" where
  "live_poll poll votes us =
     (if poll_LiveVotingEnabled poll \<and> poll_Type poll = ''named''
      then copy_votes votes us (Some Map.empty)
      else Some (Some (map_option (\<lambda>_. None) \<circ> votes)))"

fun all_live :: "'d fetch \<Rightarrow> live_votes \<Rightarrow> (int \<Rightarrow> int list) \<Rightarrow> int list \<Rightarrow> (int \<rightharpoonup> (int \<rightharpoonup> string option) option)
    \<Rightarrow> (int \<rightharpoonup> (int \<rightharpoonup> string option) option) option" where
  "all_live f lv us [] out = Some out"
| "all_live f lv us (pollID # ps) out =
     (case Poll_First f pollID of
        Inl e \<Rightarrow> all_live f lv us ps out
      | Inr poll \<Rightarrow>
        (case live_poll poll (sub_map lv pollID) (us pollID) of
           None \<Rightarrow> None
         | Some m \<Rightarrow> all_live f lv us ps (out(pollID \<mapsto> m))))"

definition vote_AllLiveVotes :: "('f, 'fo, 'l, 'lo, 'w, 'd) deps \<Rightarrow> int list \<Rightarrow> (int \<Rightarrow> int list) \<Rightarrow> ('f, 'l, 'w) Vote
    \<Rightarrow> (int \<rightharpoonup> (int \<rightharpoonup> string option) option) option" where
  "vote_AllLiveVotes D ps us v = all_live (ds D (flow v)) (liveVotes v) us ps Map.empty"

subsection \<open>Who votes, and what is stored\<close>

text \<open>The user a ballot is cast for, and the weight of his vote.\<close>

definition vote_user :: "ballot \<Rightarrow> int \<Rightarrow> int" where
  "vote_user b requestUser = (if unmarshalled (UserID b) then mi_value (UserID b) else requestUser)"

definition weight_of :: "'d decimal \<Rightarrow> 'd fetch \<Rightarrow> Poll \<Rightarrow> int \<Rightarrow> string" where
  "weight_of dec f poll u =
     (let mu = the (meeting_user f u (poll_MeetingID poll)) in
      dec_StringFixed dec
       (vote_weight dec (ds_bool f (Meeting_UsersEnableVoteWeight (poll_MeetingID poll)))
          (ds_decimal f (MeetingUser_VoteWeight mu)) (ds_decimal f (User_DefaultVoteWeight u))) 6)"

definition stored_object :: "'d decimal \<Rightarrow> 'd fetch \<Rightarrow> Poll \<Rightarrow> int \<Rightarrow> ballot \<Rightarrow> bytes" where
  "stored_object dec f poll requestUser b =
     vote_object poll requestUser (vote_user b requestUser) (original (BallotValue b))
       (weight_of dec f poll (vote_user b requestUser))"

lemma load_poll_Inr: "load_poll f p = Inr poll \<Longrightarrow> ds_poll_err f p = None \<and> poll = ds_poll f p"
  by (auto simp: load_poll_def Poll_First_def split: option.splits sum.splits if_splits)

lemma load_poll_ok [simp]: "ds_poll_err f p = None \<Longrightarrow> load_poll f p = Inr (ds_poll f p)"
  by (simp add: load_poll_def Poll_First_def)

lemma maybeInt_vote_user [simp]:
  "(case maybeInt_Value (UserID b) of (i, exist) \<Rightarrow> if exist then i else ru) = vote_user b ru"
  by (simp add: maybeInt_Value_def vote_user_def)

lemma vote_prepare_Inr:
  assumes "vote_prepare dec f ks p ru body = Inr (poll, vu, bs)"
  obtains b where "ds_poll_err f p = None" "poll = ds_poll f p" "decode_ballot body = Inr b"
    "vu = vote_user b ru" "may_cast f poll vu ru" "validate poll (BallotValue b) ks = []"
    "bs = stored_object dec f poll ru b"
proof -
  from assms obtain b mu where 1: "load_poll f p = Inr poll" "ensurePresent f (poll_MeetingID poll) ru = None"
      "decode_ballot body = Inr b" "vote_user b ru = vu" "vu \<noteq> 0"
      "getMeetingUser f vu (poll_MeetingID poll) = Inr (Some mu)"
      "ensureVoteUser f poll vu mu ru = None" "validate poll (BallotValue b) ks = []"
      "bs = vote_object poll ru vu (original (BallotValue b)) (dec_StringFixed dec
        (vote_weight dec (ds_bool f (Meeting_UsersEnableVoteWeight (poll_MeetingID poll)))
          (ds_decimal f (MeetingUser_VoteWeight mu)) (ds_decimal f (User_DefaultVoteWeight vu))) 6)"
    unfolding vote_prepare_def maybeInt_vote_user Let_def
    by (auto split: sum.splits option.splits if_splits dest!: Execute_InrD)
  from getMeetingUser_Inr [OF 1(6)] have mu: "meeting_user f vu (poll_MeetingID poll) = Some mu" by simp
  have "may_cast f poll vu ru"
    using 1(5) ensurePresent_None [OF 1(2)] mu ensureVoteUser_None [OF 1(7)] by (auto simp: may_cast_def)
  moreover have "bs = stored_object dec f poll ru b"
    using 1(4,9) mu by (simp add: stored_object_def weight_of_def)
  ultimately show ?thesis using that 1(3,4,8) load_poll_Inr [OF 1(1)] by blast
qed

lemma vote_prepare_readable:
  assumes "readable f" "ds_poll_err f p = None" "decode_ballot body = Inr b"
    and "may_cast f (ds_poll f p) (vote_user b ru) ru" "validate (ds_poll f p) (BallotValue b) ks = []"
  shows "vote_prepare dec f ks p ru body =
    Inr (ds_poll f p, vote_user b ru, stored_object dec f (ds_poll f p) ru b)"
proof -
  from assms(4) obtain mu where mu: "meeting_user f (vote_user b ru) (poll_MeetingID (ds_poll f p)) = Some mu"
    "in_entitled_group f (ds_poll f p) mu" "may_vote_for f (ds_poll f p) (vote_user b ru) mu ru"
    "vote_user b ru \<noteq> 0" "present f ru (poll_MeetingID (ds_poll f p))" by (auto simp: may_cast_def)
  then have "ensurePresent f (poll_MeetingID (ds_poll f p)) ru = None"
    "ensureVoteUser f (ds_poll f p) (vote_user b ru) mu ru = None"
    using assms(1) by (simp_all add: ensurePresent_readable ensureVoteUser_readable)
  with assms mu show ?thesis
    by (simp add: vote_prepare_def getMeetingUser_readable stored_object_def weight_of_def Let_def)
qed

text \<open>When the first phase gives no vote, a request changes nothing.\<close>

lemma vote_Vote_rejected:
  "vote_prepare (decimal D) (ds D (flow v)) ks p ru body = Inl e \<Longrightarrow> vote_Vote D ks p ru body v = (Some e, v)"
  by (simp add: vote_Vote_def)

text \<open>Votes in polls that are not named do not carry the users.\<close>

lemma vote_object_anonymous:
  "poll_Type poll \<noteq> ''named'' \<Longrightarrow> vote_object poll ru vu raw w = vote_object poll ru' vu' raw w"
  by (simp add: vote_object_def Let_def)

lemma vote_object_nonempty [simp]: "vote_object poll ru vu raw w \<noteq> []"
  by (simp add: vote_object_def voteData_Marshal_def Let_def)

lemma stored_object_nonempty [simp]: "stored_object dec f poll ru b \<noteq> []"
  by (simp add: stored_object_def)

lemma sub_map_record_live:
  "sub_map (record_live poll p u bs lv) q =
     (if q = p then (sub_map lv p)(u \<mapsto> (if poll_Type poll = ''named'' then Some bs else None)) else sub_map lv q)"
  by (auto simp: record_live_def Let_def sub_map_def split: option.split)

end
