(* ===== verification/Service_Contract.thy ===== *)
theory Service_Contract
  imports Vote_Service
begin

text \<open>
  The service over two backends that keep the contract of \<^verbatim>\<open>vote.Backend\<close>. The locale
  \<open>vote_service\<close> takes two interpretations of \<open>backend_contract\<close> and the assumption that a poll
  stays on the backend it is configured for. Its lemmas show that every method acts on the
  service's abstract store as the backend contract says, that the live votes know exactly the
  users that have voted, and what \<^verbatim>\<open>Stop\<close>, \<^verbatim>\<open>Vote\<close> and \<^verbatim>\<open>Voted\<close> answer after any history.
\<close>

text \<open>
  \<open>on_fast p\<close> says on which backend the poll \<open>p\<close> is configured to be. \<open>svc_abs\<close> is the abstract
  store of the service: each poll as the backend holds it where it is configured.
\<close>

definition svc_abs :: "('f \<Rightarrow> store) \<Rightarrow> ('l \<Rightarrow> store) \<Rightarrow> (int \<Rightarrow> bool) \<Rightarrow> ('f, 'l, 'w) Vote \<Rightarrow> store" where
  "svc_abs absF absL on_fast v p = (if on_fast p then absF (fastBackend v) p else absL (longBackend v) p)"

definition svc_sep :: "('f \<Rightarrow> store) \<Rightarrow> ('l \<Rightarrow> store) \<Rightarrow> (int \<Rightarrow> bool) \<Rightarrow> ('f, 'l, 'w) Vote \<Rightarrow> bool" where
  "svc_sep absF absL on_fast v \<longleftrightarrow>
     dom (absF (fastBackend v)) \<subseteq> {p. on_fast p} \<and> dom (absL (longBackend v)) \<subseteq> {p. \<not> on_fast p}"

definition svc_inv :: "('f \<Rightarrow> bool) \<Rightarrow> ('f \<Rightarrow> store) \<Rightarrow> ('l \<Rightarrow> bool) \<Rightarrow> ('l \<Rightarrow> store) \<Rightarrow> (int \<Rightarrow> bool)
    \<Rightarrow> ('f, 'l, 'w) Vote \<Rightarrow> bool" where
  "svc_inv invF absF invL absL on_fast v \<longleftrightarrow>
     invF (fastBackend v) \<and> invL (longBackend v) \<and> svc_sep absF absL on_fast v"

text \<open>The live votes know exactly the users that have voted.\<close>

definition live_ok :: "store \<Rightarrow> live_votes \<Rightarrow> bool" where
  "live_ok S lv \<longleftrightarrow> (\<forall>p. dom (sub_map lv p) = voters_of S p)"

text \<open>
  Histories of the service: requests of all kinds in any order, loads from the backends and changes
  of the datastore. The events are those that reach a backend; a vote appears with the user it is
  cast for, the stored object and the service's answer.
\<close>

inductive service_trace ::
  "('f, 'fo, 'l, 'lo, 'w, 'd) deps \<Rightarrow> (int \<Rightarrow> bool) \<Rightarrow> ('fo \<Rightarrow> int \<Rightarrow> 'f \<Rightarrow> bool) \<Rightarrow> ('lo \<Rightarrow> int \<Rightarrow> 'l \<Rightarrow> bool)
   \<Rightarrow> ('f, 'l, 'w) Vote \<Rightarrow> event list \<Rightarrow> ('f, 'l, 'w) Vote \<Rightarrow> bool"
  for D :: "('f, 'fo, 'l, 'lo, 'w, 'd) deps" and ok :: "int \<Rightarrow> bool"
    and okOF :: "'fo \<Rightarrow> int \<Rightarrow> 'f \<Rightarrow> bool" and okOL :: "'lo \<Rightarrow> int \<Rightarrow> 'l \<Rightarrow> bool" and v0 :: "('f, 'l, 'w) Vote"
where
  init: "service_trace D ok okOF okOL v0 [] v0"
| start: "service_trace D ok okOF okOL v0 es v \<Longrightarrow> ok p \<Longrightarrow> vote_Start D p v = (r, v') \<Longrightarrow>
    service_trace D ok okOF okOL v0 (if r = None then es @ [EvStart p] else es) v'"
| vote: "service_trace D ok okOF okOL v0 es v \<Longrightarrow>
    vote_prepare (decimal D) (ds D (flow v)) ks p ru body = Inr (poll, vu, bs) \<Longrightarrow> ok p \<Longrightarrow> ok vu \<Longrightarrow>
    vote_Vote D ks p ru body v = (r, v') \<Longrightarrow> service_trace D ok okOF okOL v0 (es @ [EvVote p vu bs r]) v'"
| vote_rejected: "service_trace D ok okOF okOL v0 es v \<Longrightarrow>
    vote_prepare (decimal D) (ds D (flow v)) ks p ru body = Inl e \<Longrightarrow>
    vote_Vote D ks p ru body v = (r, v') \<Longrightarrow> service_trace D ok okOF okOL v0 es v'"
| stop: "service_trace D ok okOF okOL v0 es v \<Longrightarrow> ok p \<Longrightarrow> okOF fc p (fastBackend v) \<Longrightarrow>
    okOL lc p (longBackend v) \<Longrightarrow> vote_Stop D fc lc p v = (r, v') \<Longrightarrow>
    service_trace D ok okOF okOL v0 (es @ [EvStop p r]) v'"
| clear: "service_trace D ok okOF okOL v0 es v \<Longrightarrow> ok p \<Longrightarrow> vote_Clear D p v = (r, v') \<Longrightarrow>
    service_trace D ok okOF okOL v0 (es @ [EvClear p]) v'"
| clear_all: "service_trace D ok okOF okOL v0 es v \<Longrightarrow> vote_ClearAll D v = (r, v') \<Longrightarrow>
    service_trace D ok okOF okOL v0 (es @ [EvClearAll]) v'"
| load: "service_trace D ok okOF okOL v0 es v \<Longrightarrow> loadVoted D v = (r, v') \<Longrightarrow>
    service_trace D ok okOF okOL v0 es v'"
| update: "service_trace D ok okOF okOL v0 es v \<Longrightarrow> service_trace D ok okOF okOL v0 es (v\<lparr>flow := w\<rparr>)"

text \<open>An effect on the store that concerns one poll only.\<close>

definition local_at :: "int \<Rightarrow> (store \<Rightarrow> store) \<Rightarrow> bool" where
  "local_at p g \<longleftrightarrow> (\<forall>S q. q \<noteq> p \<longrightarrow> g S q = S q) \<and> (\<forall>S T. S p = T p \<longrightarrow> g S p = g T p)"

lemma spec_verdict_cong: "S p = T p \<Longrightarrow> spec_verdict p u S = spec_verdict p u T"
  by (simp add: spec_verdict_def)

lemma local_at_spec [simp]:
  "local_at p (spec_start p)" "local_at p (spec_vote p u obj)" "local_at p (spec_stop p)"
  "local_at p (spec_clear p)" "local_at p (\<lambda>S. S)"
  by (simp_all add: local_at_def spec_start_def spec_stop_def spec_clear_def spec_vote_def spec_verdict_def)

lemma local_atD:
  "local_at p g \<Longrightarrow> q \<noteq> p \<Longrightarrow> g S q = S q" "local_at p g \<Longrightarrow> S p = T p \<Longrightarrow> g S p = g T p"
  unfolding local_at_def by blast+

text \<open>What the caller is told about a vote that reached the backend.\<close>

primrec vote_answer :: "verdict \<Rightarrow> err option" where
  "vote_answer Accepted = None"
| "vote_answer NotStarted = Some (TypeErr ErrNotExists)"
| "vote_answer AlreadyVoted = Some (TypeErr ErrDoubleVote)"
| "vote_answer AlreadyStopped = Some (TypeErr ErrStopped)"

lemma vote_answer_None [simp]: "vote_answer vd = None \<longleftrightarrow> vd = Accepted"
  by (cases vd) simp_all

lemma vote_error_answer: "verdict_of rb = Some vd \<Longrightarrow> vote_answer vd = map_option vote_error rb"
  by (auto simp: verdict_of_def vote_error_def split: option.splits if_splits)

lemma live_ok_spec [simp]:
  "live_ok (spec_start p S) lv = live_ok S lv" "live_ok (spec_stop p S) lv = live_ok S lv"
  by (simp_all add: live_ok_def)

lemma live_ok_clear: "live_ok S lv \<Longrightarrow> live_ok (spec_clear p S) (lv(p \<mapsto> None))"
  by (simp add: live_ok_def sub_map_upd)

lemma live_ok_record:
  "live_ok S lv \<Longrightarrow> spec_verdict p u S = Accepted \<Longrightarrow> live_ok (spec_vote p u bs S) (record_live poll p u obj lv)"
  by (simp add: live_ok_def sub_map_record_live voters_of_vote)

text \<open>The users in an entry of the result of \<^verbatim>\<open>Voted\<close>, which is nil for none.\<close>

definition these_users :: "int list option \<Rightarrow> int list" where
  "these_users us = (case us of None \<Rightarrow> [] | Some xs \<Rightarrow> xs)"

text \<open>The history of a poll follows the effects on the store.\<close>

abbreviation follows :: "store \<Rightarrow> event list \<Rightarrow> bool" where
  "follows S es \<equiv> \<forall>p. matches (S p) (accepted p es) (started p es) (closed p es)"

lemma follows_start: "follows S es \<Longrightarrow> follows (spec_start p S) (es @ [EvStart p])"
  by (simp add: matches_start)

lemma follows_vote:
  assumes "follows S es" "r = None \<longleftrightarrow> spec_verdict p u S = Accepted"
  shows "follows (spec_vote p u obj S) (es @ [EvVote p u obj r])"
proof
  fix q
  show "matches (spec_vote p u obj S q) (accepted q (es @ [EvVote p u obj r]))
      (started q (es @ [EvVote p u obj r])) (closed q (es @ [EvVote p u obj r]))"
    using assms matches_vote [of S p "accepted p es" "started p es" "closed p es" u obj]
    by (cases "q = p \<and> r = None") (auto simp: spec_vote_def)
qed

lemma follows_stop: "follows S es \<Longrightarrow> S p \<noteq> None \<Longrightarrow> follows (spec_stop p S) (es @ [EvStop p (Inr res)])"
  by (simp add: matches_stop)

lemma follows_clear: "follows S es \<Longrightarrow> follows (spec_clear p S) (es @ [EvClear p])"
  using matches_clear [of S] by simp

locale vote_service =
  fastc: backend_contract "fast D" invF absF okF okOF + longc: backend_contract "long D" invL absL okL okOL
  for D :: "('f, 'fo, 'l, 'lo, 'w, 'd) deps"
    and invF :: "'f \<Rightarrow> bool" and absF :: "'f \<Rightarrow> store" and okF :: "int \<Rightarrow> bool"
    and okOF :: "'fo \<Rightarrow> int \<Rightarrow> 'f \<Rightarrow> bool"
    and invL :: "'l \<Rightarrow> bool" and absL :: "'l \<Rightarrow> store" and okL :: "int \<Rightarrow> bool"
    and okOL :: "'lo \<Rightarrow> int \<Rightarrow> 'l \<Rightarrow> bool" +
  fixes on_fast :: "int \<Rightarrow> bool"
  assumes config: "ds_poll_err (ds D w) p = None \<Longrightarrow> (poll_Backend (ds_poll (ds D w) p) = ''fast'') = on_fast p"
begin

abbreviation cstate :: "('f, 'l, 'w) Vote \<Rightarrow> store" where
  "cstate \<equiv> svc_abs absF absL on_fast"

abbreviation sinv :: "('f, 'l, 'w) Vote \<Rightarrow> bool" where
  "sinv \<equiv> svc_inv invF absF invL absL on_fast"

lemma cstate_liveVotes [simp]: "cstate (v\<lparr>liveVotes := lv\<rparr>) = cstate v" "cstate (v\<lparr>flow := w\<rparr>) = cstate v"
  by (auto simp: svc_abs_def)

lemma sinv_liveVotes [simp]: "sinv (v\<lparr>liveVotes := lv\<rparr>) = sinv v" "sinv (v\<lparr>flow := w\<rparr>) = sinv v"
  by (auto simp: svc_inv_def svc_sep_def)

lemma config_load:
  "load_poll (ds D w) p = Inr poll \<Longrightarrow> (poll_Backend poll = ''fast'') = on_fast p"
  using config [of w p] by (auto dest: load_poll_Inr)

text \<open>A call that goes to the poll's backend and concerns only this poll acts on the service's store alike.\<close>

lemma step_fast:
  assumes "sinv v" "local_at p g" "on_fast p" "invF f" "absF f = g (absF (fastBackend v))"
  shows "sinv (v\<lparr>fastBackend := f\<rparr>) \<and> cstate (v\<lparr>fastBackend := f\<rparr>) = g (cstate v)"
proof
  have "on_fast q" if "absF f q \<noteq> None" for q
    using assms that local_atD(1) [OF assms(2), of q] by (cases "q = p") (auto simp: svc_inv_def svc_sep_def)
  with assms show "sinv (v\<lparr>fastBackend := f\<rparr>)" by (auto simp: svc_inv_def svc_sep_def)
  have "absF (fastBackend v) p = cstate v p" using assms(3) by (simp add: svc_abs_def)
  then have "g (absF (fastBackend v)) p = g (cstate v) p" by (rule local_atD(2) [OF assms(2)])
  moreover have "g S q = S q" if "q \<noteq> p" for S q using local_atD(1) [OF assms(2) that] .
  ultimately have "cstate (v\<lparr>fastBackend := f\<rparr>) q = g (cstate v) q" for q
    using assms(3,5) by (cases "q = p") (simp_all add: svc_abs_def)
  then show "cstate (v\<lparr>fastBackend := f\<rparr>) = g (cstate v)" by (rule ext)
qed

lemma step_long:
  assumes "sinv v" "local_at p g" "\<not> on_fast p" "invL l" "absL l = g (absL (longBackend v))"
  shows "sinv (v\<lparr>longBackend := l\<rparr>) \<and> cstate (v\<lparr>longBackend := l\<rparr>) = g (cstate v)"
proof
  have "\<not> on_fast q" if "absL l q \<noteq> None" for q
    using assms that local_atD(1) [OF assms(2), of q] by (cases "q = p") (auto simp: svc_inv_def svc_sep_def)
  with assms show "sinv (v\<lparr>longBackend := l\<rparr>)" by (auto simp: svc_inv_def svc_sep_def)
  have "absL (longBackend v) p = cstate v p" using assms(3) by (simp add: svc_abs_def)
  then have "g (absL (longBackend v)) p = g (cstate v) p" by (rule local_atD(2) [OF assms(2)])
  moreover have "g S q = S q" if "q \<noteq> p" for S q using local_atD(1) [OF assms(2) that] .
  ultimately have "cstate (v\<lparr>longBackend := l\<rparr>) q = g (cstate v) q" for q
    using assms(3,5) by (cases "q = p") (simp_all add: svc_abs_def)
  then show "cstate (v\<lparr>longBackend := l\<rparr>) = g (cstate v)" by (rule ext)
qed

lemma backend_step:
  assumes inv: "sinv v" and loc: "local_at p g" and cfg: "(poll_Backend poll = ''fast'') = on_fast p"
    and F: "\<And>r f. on_fast p \<Longrightarrow> onF (fastBackend v) = (r, f) \<Longrightarrow>
      invF f \<and> absF f = g (absF (fastBackend v)) \<and> Q r"
    and L: "\<And>r l. \<not> on_fast p \<Longrightarrow> onL (longBackend v) = (r, l) \<Longrightarrow>
      invL l \<and> absL l = g (absL (longBackend v)) \<and> Q r"
    and b: "backend poll onF onL v = (r, v')"
  shows "sinv v' \<and> cstate v' = g (cstate v) \<and> liveVotes v' = liveVotes v \<and> flow v' = flow v \<and> Q r"
proof (cases "on_fast p")
  case True
  obtain f where f: "onF (fastBackend v) = (r, f)" "v' = v\<lparr>fastBackend := f\<rparr>"
    using b cfg True by (auto simp: backend_def split: prod.splits)
  with F [OF True f(1)] step_fast [OF inv loc True] show ?thesis by simp
next
  case False
  obtain l where l: "onL (longBackend v) = (r, l)" "v' = v\<lparr>longBackend := l\<rparr>"
    using b cfg False by (auto simp: backend_def split: prod.splits)
  with L [OF False l(1)] step_long [OF inv loc False] show ?thesis by simp
qed

lemma cstate_at:
  "on_fast p \<Longrightarrow> cstate v p = absF (fastBackend v) p" "\<not> on_fast p \<Longrightarrow> cstate v p = absL (longBackend v) p"
  by (simp_all add: svc_abs_def)

lemma Start_step:
  assumes "sinv v" "okF p" "okL p" "vote_Start D p v = (r, v')"
  shows "(if r = None then sinv v' \<and> cstate v' = spec_start p (cstate v) \<and> liveVotes v' = liveVotes v else v' = v)"
proof (cases "\<exists>poll ks. load_poll (ds D (flow v)) p = Inr poll \<and> poll_Type poll \<noteq> ''analog'' \<and>
    preload (ds D (flow v)) poll = Inr ks")
  case False
  with assms(4) show ?thesis by (auto simp: vote_Start_def split: sum.splits if_splits)
next
  case True
  then obtain poll ks where pk: "load_poll (ds D (flow v)) p = Inr poll" "poll_Type poll \<noteq> ''analog''"
    "preload (ds D (flow v)) poll = Inr ks" by auto
  obtain rb w where b: "backend poll (bStart (fast D) p) (bStart (long D) p) v = (rb, w)" by fastforce
  have "sinv w \<and> cstate w = spec_start p (cstate v) \<and> liveVotes w = liveVotes v \<and> flow w = flow v \<and> rb = None"
    by (rule backend_step [OF assms(1) _ config_load [OF pk(1)] _ _ b])
      (use assms(1-3) fastc.start_law longc.start_law in \<open>auto simp: svc_inv_def\<close>)
  with assms(4) pk b show ?thesis by (auto simp: vote_Start_def)
qed

lemma backend_Vote_step:
  assumes "sinv v" "okF p" "okL p" "okF u" "okL u" "bs \<noteq> []" "(poll_Backend poll = ''fast'') = on_fast p"
    and "backend poll (bVote (fast D) p u bs) (bVote (long D) p u bs) v = (rb, w)"
  shows "sinv w \<and> cstate w = spec_vote p u bs (cstate v) \<and> liveVotes w = liveVotes v \<and> flow w = flow v \<and>
    verdict_of rb = Some (spec_verdict p u (cstate v))"
proof (rule backend_step [OF assms(1) _ assms(7) _ _ assms(8)])
  fix r f assume "on_fast p" "bVote (fast D) p u bs (fastBackend v) = (r, f)"
  with fastc.vote_law [of "fastBackend v" p u bs r f] assms(1-6) cstate_at(1) [of p v]
    spec_verdict_cong [of "cstate v" p "absF (fastBackend v)" u]
  show "invF f \<and> absF f = spec_vote p u bs (absF (fastBackend v)) \<and> verdict_of r = Some (spec_verdict p u (cstate v))"
    by (simp add: svc_inv_def)
next
  fix r l assume "\<not> on_fast p" "bVote (long D) p u bs (longBackend v) = (r, l)"
  with longc.vote_law [of "longBackend v" p u bs r l] assms(1-6) cstate_at(2) [of p v]
    spec_verdict_cong [of "cstate v" p "absL (longBackend v)" u]
  show "invL l \<and> absL l = spec_vote p u bs (absL (longBackend v)) \<and> verdict_of r = Some (spec_verdict p u (cstate v))"
    by (simp add: svc_inv_def)
qed simp

lemma Vote_step:
  assumes "sinv v" "okF p" "okL p" "okF u" "okL u"
    and prep: "vote_prepare (decimal D) (ds D (flow v)) ks p ru body = Inr (poll, u, bs)"
    and vote: "vote_Vote D ks p ru body v = (r, v')"
  shows "r = vote_answer (spec_verdict p u (cstate v)) \<and> sinv v' \<and> cstate v' = spec_vote p u bs (cstate v) \<and>
    liveVotes v' = (if r = None then record_live poll p u bs (liveVotes v) else liveVotes v)"
proof -
  from prep have poll: "load_poll (ds D (flow v)) p = Inr poll" and bs: "bs \<noteq> []"
    by (auto elim!: vote_prepare_Inr)
  obtain rb w where b: "backend poll (bVote (fast D) p u bs) (bVote (long D) p u bs) v = (rb, w)" by fastforce
  from backend_Vote_step [OF assms(1-5) bs config_load [OF poll] b]
  have w: "sinv w" "cstate w = spec_vote p u bs (cstate v)" "liveVotes w = liveVotes v"
    and rb: "verdict_of rb = Some (spec_verdict p u (cstate v))" by auto
  from vote prep b have "r = map_option vote_error rb"
    and "v' = (if rb = None then w\<lparr>liveVotes := record_live poll p u bs (liveVotes w)\<rparr> else w)"
    by (auto simp: vote_Vote_def split: option.splits)
  with vote_error_answer [OF rb] w show ?thesis by (auto split: if_splits)
qed

lemma Vote_live:
  assumes "live_ok (cstate v) (liveVotes v)" "sinv v" "okF p" "okL p" "okF u" "okL u"
    and "vote_prepare (decimal D) (ds D (flow v)) ks p ru body = Inr (poll, u, bs)"
    and "vote_Vote D ks p ru body v = (r, v')"
  shows "live_ok (cstate v') (liveVotes v')"
  using Vote_step [OF assms(2-8)] assms(1) live_ok_record [of "cstate v" "liveVotes v" p u bs poll bs]
  by (auto simp: spec_vote_def)

lemma backend_Stop_step:
  assumes "sinv v" "okF p" "okL p" "okOF fc p (fastBackend v)" "okOL lc p (longBackend v)"
    and cfg: "(poll_Backend poll = ''fast'') = on_fast p"
    and b: "backend poll (bStop (fast D) fc p) (bStop (long D) lc p) v = (rb, w)"
  shows "sinv w \<and> cstate w = spec_stop p (cstate v) \<and> liveVotes w = liveVotes v \<and> flow w = flow v \<and>
    (case cstate v p of None \<Rightarrow> (\<exists>e. rb = Inl e \<and> err_as is_doesNotExistError e)
     | Some a \<Rightarrow> (\<exists>res. rb = Inr res \<and> stop_result a res))"
proof (rule backend_step [OF assms(1) _ cfg _ _ b])
  fix r f assume f: "on_fast p" "bStop (fast D) fc p (fastBackend v) = (r, f)"
  from fastc.stop_cases [OF _ assms(2,4) f(2)] assms(1) cstate_at(1) [OF f(1), of v]
  show "invF f \<and> absF f = spec_stop p (absF (fastBackend v)) \<and>
      (case cstate v p of None \<Rightarrow> (\<exists>e. r = Inl e \<and> err_as is_doesNotExistError e)
       | Some a \<Rightarrow> (\<exists>res. r = Inr res \<and> stop_result a res))"
    by (simp add: svc_inv_def)
next
  fix r l assume l: "\<not> on_fast p" "bStop (long D) lc p (longBackend v) = (r, l)"
  from longc.stop_cases [OF _ assms(3,5) l(2)] assms(1) cstate_at(2) [OF l(1), of v]
  show "invL l \<and> absL l = spec_stop p (absL (longBackend v)) \<and>
      (case cstate v p of None \<Rightarrow> (\<exists>e. r = Inl e \<and> err_as is_doesNotExistError e)
       | Some a \<Rightarrow> (\<exists>res. r = Inr res \<and> stop_result a res))"
    by (simp add: svc_inv_def)
qed simp

lemma Stop_step:
  assumes "sinv v" "okF p" "okL p" "okOF fc p (fastBackend v)" "okOL lc p (longBackend v)"
    and stop: "vote_Stop D fc lc p v = (r, v')"
  shows "case r of
      Inl e \<Rightarrow> sinv v' \<and> cstate v' = cstate v \<and> liveVotes v' = liveVotes v \<and>
        (ds_poll_err (ds D (flow v)) p = None \<longrightarrow> cstate v p = None \<and> err_Type e = Some (TypeError_Type ErrNotExists))
    | Inr res \<Rightarrow> sinv v' \<and> cstate v' = spec_stop p (cstate v) \<and> liveVotes v' = liveVotes v \<and>
        (\<exists>a. cstate v p = Some a \<and> stop_result a res)"
proof (cases "load_poll (ds D (flow v)) p")
  case (Inl e)
  with stop assms(1) show ?thesis by (auto simp: vote_Stop_def)
next
  case (Inr poll)
  obtain rb w where b: "backend poll (bStop (fast D) fc p) (bStop (long D) lc p) v = (rb, w)" by fastforce
  note * = backend_Stop_step [OF assms(1-5) config_load [OF Inr] b]
  show ?thesis
  proof (cases "cstate v p")
    case None
    with * have "spec_stop p (cstate v) = cstate v" by (auto simp: spec_stop_def)
    with * None stop Inr b show ?thesis by (auto simp: vote_Stop_def MessageError_def)
  next
    case (Some a)
    with * stop Inr b show ?thesis by (auto simp: vote_Stop_def)
  qed
qed

lemma Clear_step:
  assumes inv: "sinv v" and ok: "okF p" "okL p" and c: "vote_Clear D p v = (r, v')"
  shows "r = None \<and> sinv v' \<and> cstate v' = spec_clear p (cstate v) \<and> liveVotes v' = (liveVotes v)(p \<mapsto> None)"
proof -
  obtain rf f rl l where f: "bClear (fast D) p (fastBackend v) = (rf, f)"
    and l: "bClear (long D) p (longBackend v) = (rl, l)" by fastforce
  from fastc.clear_law [OF _ ok(1) f] inv have F: "rf = None" "invF f" "absF f = spec_clear p (absF (fastBackend v))"
    by (auto simp: svc_inv_def)
  from longc.clear_law [OF _ ok(2) l] inv have L: "rl = None" "invL l" "absL l = spec_clear p (absL (longBackend v))"
    by (auto simp: svc_inv_def)
  from c f l F L have v': "r = None" "v' = v\<lparr>fastBackend := f, longBackend := l, liveVotes := (liveVotes v)(p \<mapsto> None)\<rparr>"
    by (auto simp: vote_Clear_def)
  with F L inv show ?thesis by (auto simp: svc_inv_def svc_sep_def svc_abs_def spec_clear_def split: if_splits)
qed

lemma ClearAll_step:
  assumes inv: "sinv v" and c: "vote_ClearAll D v = (r, v')"
  shows "r = None \<and> sinv v' \<and> cstate v' = Map.empty \<and> liveVotes v' = Map.empty"
proof -
  obtain rf f rl l where f: "bClearAll (fast D) (fastBackend v) = (rf, f)"
    and l: "bClearAll (long D) (longBackend v) = (rl, l)" by fastforce
  from fastc.clear_all_law [OF _ f] inv have F: "rf = None" "invF f" "absF f = Map.empty"
    by (auto simp: svc_inv_def)
  from longc.clear_all_law [OF _ l] inv have L: "rl = None" "invL l" "absL l = Map.empty"
    by (auto simp: svc_inv_def)
  from c f l F L show ?thesis
    by (auto simp: vote_ClearAll_def Let_def svc_inv_def svc_sep_def svc_abs_def split: option.splits)
qed

lemma loadVoted_step:
  assumes inv: "sinv v" and c: "loadVoted D v = (r, v')"
  shows "r = None \<and> sinv v' \<and> cstate v' = cstate v \<and> live_ok (cstate v') (liveVotes v') \<and> flow v' = flow v"
proof -
  obtain rf f rl l where f: "bLiveVotes (fast D) (fastBackend v) = (rf, f)"
    and l: "bLiveVotes (long D) (longBackend v) = (rl, l)" by fastforce
  from fastc.live_law [OF _ f] inv obtain lvF where F: "rf = Inr lvF" "invF f" "absF f = absF (fastBackend v)"
    and lf: "live_result (absF (fastBackend v)) lvF" by (auto simp: svc_inv_def)
  from longc.live_law [OF _ l] inv obtain lvL where L: "rl = Inr lvL" "invL l" "absL l = absL (longBackend v)"
    and ll: "live_result (absL (longBackend v)) lvL" by (auto simp: svc_inv_def)
  have "dom (sub_map (lvF ++ lvL) p) = voters_of (cstate v) p" for p
  proof (cases "on_fast p")
    case True
    with inv ll have "p \<notin> dom lvL" unfolding svc_inv_def svc_sep_def live_result_def by blast
    then have "lvL p = None" by (simp add: domIff)
    then have "sub_map (lvF ++ lvL) p = sub_map lvF p" by (simp add: sub_map_def map_add_def)
    with True lf show ?thesis by (simp add: live_result_def voters_of_def svc_abs_def)
  next
    case False
    with inv lf have "p \<notin> dom lvF" unfolding svc_inv_def svc_sep_def live_result_def by blast
    then have "lvF p = None" by (simp add: domIff)
    then have "sub_map (lvF ++ lvL) p = sub_map lvL p" by (simp add: sub_map_def map_add_def split: option.split)
    with False ll show ?thesis by (simp add: live_result_def voters_of_def svc_abs_def)
  qed
  moreover from c f l F L have "r = None"
      "v' = v\<lparr>fastBackend := f, longBackend := l, liveVotes := lvF ++ lvL\<rparr>" by (auto simp: loadVoted_def)
  moreover have "cstate v' = cstate v" using calculation F L by (auto simp: svc_abs_def)
  ultimately show ?thesis using F L inv by (simp add: svc_inv_def svc_sep_def live_ok_def)
qed

lemma New_ok:
  assumes "invF f" "invL l" "dom (absF f) \<subseteq> {p. on_fast p}" "dom (absL l) \<subseteq> {p. \<not> on_fast p}"
  obtains v where "vote_New D f l w = Inr v" "sinv v" "live_ok (cstate v) (liveVotes v)" "flow v = w"
    "\<And>p. cstate v p = (if on_fast p then absF f p else absL l p)"
proof -
  define v0 where "v0 = \<lparr>fastBackend = f, longBackend = l, flow = w, liveVotes = Map.empty\<rparr>"
  obtain r v where v: "loadVoted D v0 = (r, v)" by fastforce
  have "sinv v0" using assms by (simp add: svc_inv_def svc_sep_def v0_def)
  from loadVoted_step [OF this v] have "r = None" "sinv v" "cstate v = cstate v0"
    "live_ok (cstate v) (liveVotes v)" "flow v = w" by (auto simp: v0_def)
  with v that [of v] show ?thesis by (simp add: vote_New_def v0_def svc_abs_def)
qed

abbreviation trace :: "('f, 'l, 'w) Vote \<Rightarrow> event list \<Rightarrow> ('f, 'l, 'w) Vote \<Rightarrow> bool" where
  "trace \<equiv> service_trace D (\<lambda>p. okF p \<and> okL p) okOF okOL"

text \<open>The invariant of the service in every state it can reach from an empty one.\<close>

lemma trace_inv:
  assumes "trace v0 es v" "sinv v0" "cstate v0 = Map.empty" "live_ok (cstate v0) (liveVotes v0)"
  shows "sinv v \<and> live_ok (cstate v) (liveVotes v) \<and> follows (cstate v) es"
  using assms
proof (induction rule: service_trace.induct)
  case init
  then show ?case by (simp add: matches_def)
next
  case (start es v p r v')
  with Start_step [of v p r v'] follows_start [of "cstate v" es p] show ?case by (auto split: if_splits)
next
  case (vote es v ks p ru body poll vu bs r v')
  then have IH: "sinv v" "live_ok (cstate v) (liveVotes v)" "follows (cstate v) es"
    and ok: "okF p" "okL p" "okF vu" "okL vu" by auto
  note st = Vote_step [OF IH(1) ok vote.hyps(2,5)]
  then have "r = None \<longleftrightarrow> spec_verdict p vu (cstate v) = Accepted" by simp
  from follows_vote [OF IH(3) this, of bs] st Vote_live [OF IH(2,1) ok vote.hyps(2,5)] show ?case by simp
next
  case (vote_rejected es v ks p ru body e r v')
  then show ?case by (simp add: vote_Vote_rejected)
next
  case (stop es v p fc lc r v')
  then have IH: "sinv v" "live_ok (cstate v) (liveVotes v)" "follows (cstate v) es" by auto
  from stop.hyps(2) have ok: "okF p" "okL p" by auto
  from Stop_step [OF IH(1) ok stop.hyps(3,4,5)] IH follows_stop [OF IH(3), of p] show ?case
    by (cases r) auto
next
  case (clear es v p r v')
  then have IH: "sinv v" "live_ok (cstate v) (liveVotes v)" "follows (cstate v) es" "okF p" "okL p" by auto
  from Clear_step [OF IH(1,4,5) clear.hyps(3)] follows_clear [OF IH(3), of p] live_ok_clear [OF IH(2), of p]
  show ?case by (metis (no_types, lifting))
next
  case (clear_all es v r v')
  with ClearAll_step [of v r v'] show ?case by (auto simp: matches_def live_ok_def)
next
  case (load es v r v')
  with loadVoted_step [of v r v'] show ?case by auto
next
  case (update es v w)
  then show ?case by simp
qed

lemma trace_live:
  assumes "trace v0 es v" "sinv v0" "cstate v0 = Map.empty" "live_ok (cstate v0) (liveVotes v0)"
  shows "dom (sub_map (liveVotes v) p) = set (map fst (accepted p es))"
proof -
  from trace_inv [OF assms] have "dom (sub_map (liveVotes v) p) = voters_of (cstate v) p"
    and m: "matches (cstate v p) (accepted p es) (started p es) (closed p es)" by (auto simp: live_ok_def)
  then show ?thesis by (cases "cstate v p") (auto simp: matches_def voters_of_def)
qed

text \<open>What the methods answer after any history.\<close>

lemma trace_Vote:
  assumes tr: "trace v0 es v" "sinv v0" "cstate v0 = Map.empty" "live_ok (cstate v0) (liveVotes v0)"
    and ok: "okF p" "okL p" "okF u" "okL u"
    and prep: "vote_prepare (decimal D) (ds D (flow v)) ks p ru body = Inr (poll, u, bs)"
  shows "fst (vote_Vote D ks p ru body v) = vote_answer (history_verdict p u es)"
proof -
  obtain r v' where v: "vote_Vote D ks p ru body v = (r, v')" by fastforce
  from trace_inv [OF tr] have "sinv v" and m: "matches (cstate v p) (accepted p es) (started p es) (closed p es)" by auto
  from Vote_step [OF this(1) ok prep v] matches_verdict [of "cstate v" p es u] m v show ?thesis by simp
qed

lemma trace_Stop:
  assumes tr: "trace v0 es v" "sinv v0" "cstate v0 = Map.empty" "live_ok (cstate v0) (liveVotes v0)"
    and ok: "okF p" "okL p" "okOF fc p (fastBackend v)" "okOL lc p (longBackend v)"
    and poll: "ds_poll_err (ds D (flow v)) p = None"
  shows "case fst (vote_Stop D fc lc p v) of
      Inl e \<Rightarrow> \<not> started p es \<and> err_Type e = Some (TypeError_Type ErrNotExists)
    | Inr (objs, uids) \<Rightarrow> started p es \<and> distinct (map fst (accepted p es)) \<and>
        mset objs = mset (map snd (accepted p es)) \<and> uids = sort (map fst (accepted p es))"
proof -
  obtain r v' where st: "vote_Stop D fc lc p v = (r, v')" by fastforce
  from trace_inv [OF tr] have inv: "sinv v"
    and m: "matches (cstate v p) (accepted p es) (started p es) (closed p es)" by auto
  show ?thesis
  proof (cases r)
    case (Inl e)
    with Stop_step [OF inv ok st] poll m st show ?thesis by (auto simp: matches_def)
  next
    case (Inr res)
    obtain objs uids where res: "res = (objs, uids)" by fastforce
    from Stop_step [OF inv ok st] Inr res obtain a where a: "cstate v p = Some a" "stop_result a (objs, uids)" by auto
    with m have "set uids = set (map fst (accepted p es))" "distinct uids" "sorted uids"
      "distinct (map fst (accepted p es))" by (auto simp: matches_def stop_result_def)
    then have "uids = sort (map fst (accepted p es))" by (auto intro!: sorted_order_unique)
    with m a res Inr st show ?thesis by (simp add: matches_def stop_result_def)
  qed
qed

lemma trace_Voted:
  assumes tr: "trace v0 es v" "sinv v0" "cstate v0 = Map.empty" "live_ok (cstate v0) (liveVotes v0)"
    and ord: "\<And>p. is_order (ord p) (sub_map (liveVotes v) p)"
    and vd: "vote_Voted D ord pollIDs ru v = Inr out" and p: "p \<in> set pollIDs"
  shows "\<exists>us. out p = Some us \<and> distinct (these_users us) \<and>
    set (these_users us) = set (map fst (accepted p es)) \<inter> insert ru (delegators (ds D (flow v)) ru)"
proof -
  from trace_live [OF tr] is_orderD(1,2) [OF ord [of p]]
  have o: "distinct (ord p)" "set (ord p) = set (map fst (accepted p es))" by simp_all
  from vd obtain dus where dus: "delegatedUserIDs (ds D (flow v)) ru = Inr dus"
    and out: "out p = Some (voted_poll (liveVotes v) ord (ru # dus) p)"
    using p by (auto simp: vote_Voted_def split: sum.splits)
  have "these_users (voted_poll (liveVotes v) ord (ru # dus) p) = filter (\<lambda>u. u \<in> set (ru # dus)) (ord p)"
    using ord [of p] by (cases "liveVotes v p") (auto simp: voted_poll_def these_users_def split: list.split)
  with out o delegatedUserIDs_Inr [OF dus] show ?thesis by auto
qed

end

end
