(* ===== verification/Memory_Backend.thy ===== *)
theory Memory_Backend
  imports Backend_Spec
begin

text \<open>
  The in-memory backend, \<^verbatim>\<open>backend/memory/memory.go\<close>: two Go maps under one mutex, so that each
  method is one atomic step on the record \<open>memory\<close>. The backend is shown to satisfy the
  contract of \<^verbatim>\<open>vote.Backend\<close>, which gives the facts about its histories.
\<close>

definition pollStateUnknown :: int where "pollStateUnknown = 0"
definition pollStateStarted :: int where "pollStateStarted = 1"
definition pollStateStopped :: int where "pollStateStopped = 2"

record memory =
  votes :: "int \<rightharpoonup> (int \<rightharpoonup> bytes)"
  state :: "int \<rightharpoonup> int"

definition memory_New :: memory where
  "memory_New = \<lparr>votes = Map.empty, state = Map.empty\<rparr>"

text \<open>Reading \<^verbatim>\<open>b.state[pollID]\<close> gives the zero value for a missing key.\<close>

definition state_at :: "memory \<Rightarrow> int \<Rightarrow> int" where
  "state_at b p = (case state b p of None \<Rightarrow> 0 | Some st \<Rightarrow> st)"

definition votes_at :: "memory \<Rightarrow> int \<Rightarrow> (int \<rightharpoonup> bytes)" where
  "votes_at b p = (case votes b p of None \<Rightarrow> Map.empty | Some m \<Rightarrow> m)"

definition memory_Start :: "int \<Rightarrow> memory \<Rightarrow> err option \<times> memory" where
  "memory_Start pollID b =
     (if state_at b pollID = pollStateStopped then (None, b)
      else (None, b\<lparr>state := (state b)(pollID \<mapsto> pollStateStarted)\<rparr>))"

definition memory_Stop :: "int list \<times> int list \<Rightarrow> int \<Rightarrow> memory \<Rightarrow> (err + bytes list \<times> int list) \<times> memory" where
  "memory_Stop ord pollID b =
     (if state_at b pollID = pollStateUnknown
      then (Inl (doesNotExistError ''Poll does not exist''), b)
      else let b' = b\<lparr>state := (state b)(pollID \<mapsto> pollStateStopped)\<rparr>;
               userIDs = fst ord;
               vs = List.map_filter (votes_at b' pollID) (snd ord)
           in (Inr (vs, sort userIDs), b'))"

definition memory_Vote :: "int \<Rightarrow> int \<Rightarrow> bytes \<Rightarrow> memory \<Rightarrow> err option \<times> memory" where
  "memory_Vote pollID userID vote b =
     (if state_at b pollID = pollStateUnknown
      then (Some (doesNotExistError ''poll is not started''), b)
      else if state_at b pollID = pollStateStopped
      then (Some (stoppedError ''poll is stopped''), b)
      else let b' = (if votes b pollID = None then b\<lparr>votes := (votes b)(pollID \<mapsto> Map.empty)\<rparr> else b)
           in if userID \<in> dom (votes_at b' pollID)
              then (Some (doubleVoteError ''user has already voted''), b')
              else (None, b'\<lparr>votes := (votes b')(pollID \<mapsto> (votes_at b' pollID)(userID \<mapsto> vote))\<rparr>))"

definition memory_Clear :: "int \<Rightarrow> memory \<Rightarrow> err option \<times> memory" where
  "memory_Clear pollID b = (None, b\<lparr>votes := (votes b)(pollID := None), state := (state b)(pollID := None)\<rparr>)"

definition memory_ClearAll :: "memory \<Rightarrow> err option \<times> memory" where
  "memory_ClearAll b = (None, b\<lparr>votes := Map.empty, state := Map.empty\<rparr>)"

definition memory_LiveVotes :: "memory \<Rightarrow> (err + live_votes) \<times> memory" where
  "memory_LiveVotes b = (Inr (\<lambda>p. map_option (\<lambda>m. Some (\<lambda>u. map_option Some (m u))) (votes b p)), b)"

text \<open>The check the tests make on the backend: the message of the failed test, if it fails.\<close>

definition memory_AssertUserHasVoted :: "int \<Rightarrow> int \<Rightarrow> memory \<Rightarrow> string option" where
  "memory_AssertUserHasVoted pollID userID b =
     (if userID \<notin> dom (votes_at b pollID) then Some (''User '' @ Itoa userID @ '' has not voted'') else None)"

lemma AssertUserHasVoted_after_vote: "memory_Vote p u obj b = (None, b') \<Longrightarrow> memory_AssertUserHasVoted p u b' = None"
  by (auto simp: memory_Vote_def memory_AssertUserHasVoted_def votes_at_def Let_def split: if_splits)

definition memory_backend :: "(memory, int list \<times> int list) Backend" where
  "memory_backend = \<lparr>bStart = memory_Start, bVote = memory_Vote, bStop = memory_Stop,
     bClear = memory_Clear, bClearAll = memory_ClearAll, bLiveVotes = memory_LiveVotes\<rparr>"

lemmas memory_defs [backend_defs] =
  memory_Start_def memory_Stop_def memory_Vote_def memory_Clear_def memory_ClearAll_def
  memory_LiveVotes_def state_at_def votes_at_def
  pollStateUnknown_def pollStateStarted_def pollStateStopped_def

text \<open>
  The invariant: a known poll is started or stopped, only a known poll has votes, and the votes
  of a poll are finitely many.
\<close>

definition memory_inv :: "memory \<Rightarrow> bool" where
  "memory_inv b \<longleftrightarrow>
     (\<forall>p st. state b p = Some st \<longrightarrow> st = pollStateStarted \<or> st = pollStateStopped) \<and>
     (\<forall>p. state b p = None \<longrightarrow> votes b p = None) \<and>
     (\<forall>p. finite (dom (votes_at b p)))"

definition memory_abs :: "memory \<Rightarrow> store" where
  "memory_abs b p =
     (case state b p of None \<Rightarrow> None
      | Some st \<Rightarrow> Some \<lparr>stopped = (st = pollStateStopped), voters = dom (votes_at b p),
          ballots = vals (votes_at b p)\<rparr>)"

definition memory_order :: "int list \<times> int list \<Rightarrow> int \<Rightarrow> memory \<Rightarrow> bool" where
  "memory_order ord p b \<longleftrightarrow> is_order (fst ord) (votes_at b p) \<and> is_order (snd ord) (votes_at b p)"

lemma votes_at_simps [simp]:
  "votes_at (b\<lparr>state := f\<rparr>) = votes_at b"
  "votes_at (b\<lparr>votes := (votes b)(p := None)\<rparr>) q = (if q = p then Map.empty else votes_at b q)"
  by (auto simp: votes_at_def)

lemma memory_inv_state:
  "memory_inv b \<Longrightarrow> state b p = Some st \<Longrightarrow> st = 1 \<or> st = 2"
  by (auto simp: memory_inv_def pollStateStarted_def pollStateStopped_def)

lemma memory_inv_votes: "memory_inv b \<Longrightarrow> state b p = None \<Longrightarrow> votes b p = None"
  by (auto simp: memory_inv_def)

lemma memory_inv_finite: "memory_inv b \<Longrightarrow> finite (dom (votes_at b p))"
  by (simp add: memory_inv_def)

lemma memory_New_inv [simp]: "memory_inv memory_New" "memory_abs memory_New = Map.empty"
  by (auto simp: memory_inv_def memory_New_def memory_abs_def votes_at_def)

lemma memory_Start_law:
  assumes inv: "memory_inv b" and st: "memory_Start p b = (r, b')"
  shows "r = None \<and> memory_inv b' \<and> memory_abs b' = spec_start p (memory_abs b)"
proof (cases "state b p")
  case None
  then have b': "b' = b\<lparr>state := (state b)(p \<mapsto> pollStateStarted)\<rparr>" and r: "r = None"
    using st by (simp_all add: memory_Start_def state_at_def pollStateStopped_def)
  have "votes_at b p = Map.empty" using memory_inv_votes [OF inv None] by (simp add: votes_at_def)
  with None have "memory_abs b' q = spec_start p (memory_abs b) q" for q
    by (simp add: memory_abs_def b' spec_start_def fresh_poll_def pollStateStarted_def
        pollStateStopped_def cong: option.case_cong)
  moreover have "memory_inv b'" using inv by (simp add: memory_inv_def b')
  ultimately show ?thesis using r by auto
next
  case (Some x)
  then have "b' = b" and "r = None"
    using st memory_inv_state [OF inv Some] by (auto simp: memory_Start_def state_at_def
        pollStateStopped_def pollStateStarted_def fun_upd_idem split: if_splits)
  with inv Some show ?thesis by (simp add: spec_start_def memory_abs_def)
qed

lemma memory_Vote_accept:
  fixes obj :: bytes and b :: memory and p u :: int
  assumes "memory_inv b" "state b p = Some 1" "u \<notin> dom (votes_at b p)"
  defines "b' \<equiv> b\<lparr>votes := (votes b)(p \<mapsto> (votes_at b p)(u \<mapsto> obj))\<rparr>"
  shows "memory_inv b'" and "memory_abs b' = spec_vote p u obj (memory_abs b)"
proof -
  have at: "votes_at b' q = (if q = p then (votes_at b p)(u \<mapsto> obj) else votes_at b q)" for q
    by (simp add: b'_def votes_at_def)
  have st: "state b' = state b" by (simp add: b'_def)
  show "memory_inv b'"
    using assms(1,2) by (auto simp: memory_inv_def at st) (auto simp: b'_def)
  have "memory_abs b' q = spec_vote p u obj (memory_abs b) q" for q
    using assms(2,3) memory_inv_finite [OF assms(1), of p]
    by (cases "q = p")
      (simp_all add: memory_abs_def at st spec_defs pollStateStopped_def vals_upd split: option.splits)
  then show "memory_abs b' = spec_vote p u obj (memory_abs b)" by auto
qed

text \<open>Creating the empty map of a poll's votes changes nothing that can be observed.\<close>

lemma memory_touch:
  assumes "votes b p = None"
  shows "votes_at (b\<lparr>votes := (votes b)(p \<mapsto> Map.empty)\<rparr>) = votes_at b"
  using assms by (auto simp: votes_at_def)

lemma memory_Vote_cases:
  assumes "memory_inv b"
  shows "memory_Vote p u obj b =
    (case state b p of None \<Rightarrow> (Some (doesNotExistError ''poll is not started''), b)
     | Some st \<Rightarrow> if st = 2 then (Some (stoppedError ''poll is stopped''), b)
         else if u \<in> dom (votes_at b p) then (Some (doubleVoteError ''user has already voted''), b)
         else (None, b\<lparr>votes := (votes b)(p \<mapsto> (votes_at b p)(u \<mapsto> obj))\<rparr>))"
  using memory_inv_state [OF assms, of p]
  by (auto simp: memory_defs split: option.splits)

lemma memory_Vote_law:
  assumes inv: "memory_inv b" and v: "memory_Vote p u obj b = (r, b')"
  shows "verdict_of r = Some (spec_verdict p u (memory_abs b)) \<and> memory_inv b' \<and>
    memory_abs b' = spec_vote p u obj (memory_abs b)"
proof (cases "\<exists>st. state b p = Some st \<and> st \<noteq> 2 \<and> u \<notin> dom (votes_at b p)")
  case True
  then have st: "state b p = Some 1" and u: "u \<notin> dom (votes_at b p)"
    using memory_inv_state [OF inv, of p] by auto
  with v have "r = None" "b' = b\<lparr>votes := (votes b)(p \<mapsto> (votes_at b p)(u \<mapsto> obj))\<rparr>"
    by (simp_all add: memory_Vote_cases [OF inv])
  moreover have "spec_verdict p u (memory_abs b) = Accepted"
    using st u by (simp add: spec_verdict_def memory_abs_def pollStateStopped_def)
  ultimately show ?thesis
    using memory_Vote_accept [OF inv st u] by (simp add: verdict_of_def)
next
  case False
  then have "b' = b" "verdict_of r = Some (spec_verdict p u (memory_abs b))"
    "spec_verdict p u (memory_abs b) \<noteq> Accepted"
    using v by (auto simp: memory_Vote_cases [OF inv] verdict_of_def spec_verdict_def
        memory_abs_def pollStateStopped_def split: option.splits if_splits)
  with inv show ?thesis by (simp add: spec_vote_def)
qed

lemma memory_Stop_unknown_law:
  assumes "memory_inv b" "memory_abs b p = None" "memory_Stop c p b = (r, b')"
  shows "(\<exists>e. r = Inl e \<and> err_as is_doesNotExistError e) \<and> memory_inv b' \<and> memory_abs b' = memory_abs b"
  using assms by (auto simp: memory_defs memory_abs_def split: option.splits)

lemma memory_Stop_law:
  assumes inv: "memory_inv b" and ord: "memory_order c p b" and a: "memory_abs b p = Some a"
    and st: "memory_Stop c p b = (r, b')"
  shows "(\<exists>res. r = Inr res \<and> stop_result a res) \<and> memory_inv b' \<and> memory_abs b' = spec_stop p (memory_abs b)"
proof -
  obtain x where x: "state b p = Some x" using a by (auto simp: memory_abs_def split: option.splits)
  with memory_inv_state [OF inv x] have "x \<noteq> 0" by auto
  with x st have r: "r = Inr (List.map_filter (votes_at b p) (snd c), sort (fst c))"
    and b': "b' = b\<lparr>state := (state b)(p \<mapsto> pollStateStopped)\<rparr>"
    by (auto simp: memory_defs)
  have at: "votes_at b' = votes_at b" by (auto simp: b' votes_at_def)
  have "stop_result a (List.map_filter (votes_at b p) (snd c), sort (fst c))"
    using ord a x by (auto simp: stop_result_def memory_order_def memory_abs_def values_mset is_orderD)
  moreover have "memory_inv b'" using inv by (auto simp: memory_inv_def at) (auto simp: b' split: if_splits)
  moreover have "memory_abs b' q = spec_stop p (memory_abs b) q" for q
    using x by (auto simp: memory_abs_def spec_stop_def b' cong: option.case_cong)
  ultimately show ?thesis using r by auto
qed

lemma memory_Clear_law:
  assumes "memory_inv b" "memory_Clear p b = (r, b')"
  shows "r = None \<and> memory_inv b' \<and> memory_abs b' = spec_clear p (memory_abs b)"
proof -
  have "memory_abs b' q = spec_clear p (memory_abs b) q" for q
    using assms by (auto simp: memory_Clear_def memory_abs_def spec_clear_def cong: option.case_cong)
  with assms show ?thesis by (auto simp: memory_Clear_def memory_inv_def split: if_splits) blast
qed

lemma memory_ClearAll_law:
  assumes "memory_ClearAll b = (r, b')"
  shows "r = None \<and> memory_inv b' \<and> memory_abs b' = Map.empty"
  using assms by (auto simp: memory_defs memory_inv_def memory_abs_def)

lemma memory_LiveVotes_law:
  assumes inv: "memory_inv b" and "memory_LiveVotes b = (r, b')"
  shows "(\<exists>lv. r = Inr lv \<and> live_result (memory_abs b) lv) \<and> b' = b"
proof -
  define lv where "lv = (\<lambda>p. map_option (\<lambda>m. Some (\<lambda>u. map_option Some (m u))) (votes b p))"
  have sub: "sub_map lv p = (\<lambda>u. map_option Some (votes_at b p u))" for p
    by (cases "votes b p") (auto simp: lv_def votes_at_def sub_map_def)
  have "dom (sub_map lv p) = voters_of (memory_abs b) p" for p
    using memory_inv_votes [OF inv, of p]
    by (auto simp: sub voters_of_def memory_abs_def votes_at_def split: option.splits)
  moreover have "dom lv \<subseteq> dom (memory_abs b)"
    using memory_inv_votes [OF inv] by (fastforce simp: lv_def memory_abs_def split: option.splits)
  moreover have "obj \<in># ballots_of (memory_abs b) p" if "sub_map lv p u = Some (Some obj)" for p u obj
  proof -
    from that have "votes_at b p u = Some obj" by (simp add: sub)
    moreover from this have "state b p \<noteq> None"
      using memory_inv_votes [OF inv, of p] by (auto simp: votes_at_def split: option.splits)
    ultimately show ?thesis
      using memory_inv_finite [OF inv, of p]
      by (auto simp: ballots_of_def memory_abs_def intro: in_vals)
  qed
  moreover have "None \<notin> ran lv" by (auto simp: lv_def ran_def)
  ultimately have "live_result (memory_abs b) lv" by (simp add: live_result_def)
  with assms show ?thesis by (auto simp: memory_defs lv_def)
qed

lemma memory_backend_sel [simp]:
  "bStart memory_backend = memory_Start" "bVote memory_backend = memory_Vote"
  "bStop memory_backend = memory_Stop" "bClear memory_backend = memory_Clear"
  "bClearAll memory_backend = memory_ClearAll" "bLiveVotes memory_backend = memory_LiveVotes"
  by (simp_all add: memory_backend_def)

interpretation mem: backend_contract memory_backend memory_inv memory_abs "\<lambda>_. True" memory_order
proof (unfold_locales, unfold memory_backend_sel, goal_cases)
  case 1 then show ?case by (elim memory_Start_law)
next
  case 2 then show ?case by (elim memory_Vote_law)
next
  case 3 then show ?case by (elim memory_Stop_unknown_law)
next
  case 4 then show ?case by (elim memory_Stop_law)
next
  case 5 then show ?case by (elim memory_Clear_law)
next
  case 6 then show ?case by (elim memory_ClearAll_law)
next
  case 7 then show ?case using memory_LiveVotes_law by blast
qed

text \<open>
  C15. Whatever calls a new memory backend has served, \<open>Stop\<close> fails with a does-not-exist error
  exactly when the poll was not started since it was last cleared; otherwise it returns every
  accepted vote object exactly once, in some order, and the sorted ids of the users whose vote was
  accepted, each of them once.
\<close>
theorem memory_stop_returns_accepted:
  assumes "backend_trace memory_backend (\<lambda>_. True) memory_order memory_New es b"
    and "memory_order c p b"
  shows "case fst (memory_Stop c p b) of
      Inl e \<Rightarrow> \<not> started p es \<and> err_as is_doesNotExistError e
    | Inr (objs, uids) \<Rightarrow> started p es \<and> distinct (map fst (accepted p es)) \<and>
        mset objs = mset (map snd (accepted p es)) \<and> uids = sort (map fst (accepted p es))"
  using mem.trace_stop [OF assms(1), where p = p and c = c] assms(2) by simp

text \<open>A concrete history: poll 1 is started and user 5 votes.\<close>

definition demo_memory :: memory where
  "demo_memory = \<lparr>votes = [1 \<mapsto> [5 \<mapsto> ''Y'']], state = [1 \<mapsto> 1]\<rparr>"

definition demo_events :: "event list" where
  "demo_events = [EvStart 1, EvVote 1 5 ''Y'' None]"

lemma demo_trace:
  "backend_trace memory_backend (\<lambda>_. True) memory_order memory_New demo_events demo_memory"
proof -
  let ?b = "\<lparr>votes = Map.empty, state = [1 \<mapsto> 1]\<rparr>"
  have "backend_trace memory_backend (\<lambda>_. True) memory_order memory_New ([] @ [EvStart 1]) ?b"
    by (rule backend_trace.start [OF backend_trace.init, where r = None])
      (simp_all add: memory_defs memory_New_def)
  then have "backend_trace memory_backend (\<lambda>_. True) memory_order memory_New
      (([] @ [EvStart 1]) @ [EvVote 1 5 ''Y'' None]) demo_memory"
    by (rule backend_trace.vote) (simp_all add: memory_defs demo_memory_def)
  then show ?thesis by (simp add: demo_events_def)
qed

lemma demo_order: "memory_order ([5], [5]) 1 demo_memory"
  by (simp add: memory_order_def demo_memory_def votes_at_def is_order_def)

theorem memory_stop_returns_accepted_witness:
  "fst (memory_Stop ([5], [5]) 1 demo_memory) = Inr ([''Y''], [5]) \<and>
   started 1 demo_events \<and> mset [''Y''] = mset (map snd (accepted 1 demo_events)) \<and>
   [5] = sort (map fst (accepted 1 demo_events))"
proof -
  have "fst (memory_Stop ([5], [5]) 1 demo_memory) = Inr ([''Y''], [5])"
    by (simp add: memory_defs demo_memory_def List.map_filter_simps)
  with memory_stop_returns_accepted [OF demo_trace demo_order] show ?thesis by simp
qed

text \<open>
  C16. Whatever calls a new memory backend has served, a further vote is decided by the history
  alone: refused as unknown before a start, refused as stopped after a stop, refused as a double
  vote for a user with an accepted vote, and accepted otherwise.
\<close>
theorem memory_vote_verdict:
  assumes "backend_trace memory_backend (\<lambda>_. True) memory_order memory_New es b"
    and "obj \<noteq> []"
  shows "verdict_of (fst (memory_Vote p u obj b)) = Some (history_verdict p u es)"
  using mem.trace_vote [OF assms(1), where p = p and u = u and obj = obj] assms(2) by simp

theorem memory_vote_verdict_witness:
  "verdict_of (fst (memory_Vote 1 5 ''N'' demo_memory)) = Some AlreadyVoted \<and>
   verdict_of (fst (memory_Vote 1 6 ''N'' demo_memory)) = Some Accepted"
  using memory_vote_verdict [OF demo_trace, of "''N''" 1 5] memory_vote_verdict [OF demo_trace, of "''N''" 1 6]
  by (simp add: demo_events_def history_verdict_def started_def closed_def accepted_def)

end
