(* ===== verification/User_ID_List.thy ===== *)
theory User_ID_List
  imports Go_Errors "HOL-Library.Word"
begin

unbundle bit_operations_syntax

text \<open>
  The type \<^verbatim>\<open>userIDList\<close> of \<^verbatim>\<open>backend/postgres/postgres.go\<close>: the sorted list of 32 bit user ids
  of a poll, stored as little-endian bytes in one column. \<^verbatim>\<open>sort.Search\<close> is Go's binary search;
  \<^verbatim>\<open>binary.Read\<close> and \<^verbatim>\<open>binary.Write\<close> are the fixed-width codecs of \<^verbatim>\<open>encoding/binary\<close>. The lemmas
  show that \<open>add\<close> is sorted insertion that refuses a present id, that \<open>contains\<close> decides
  membership, and that encoding and decoding are inverse.
\<close>

type_synonym int32 = "32 word"
type_synonym raw_bytes = "8 word list"
type_synonym userIDList = "int32 list"

text \<open>The loop of \<^verbatim>\<open>sort.Search\<close>: least index in \<open>[i, j)\<close> where \<open>f\<close> holds, else \<open>j\<close>.\<close>

function sort_Search_loop :: "(nat \<Rightarrow> bool) \<Rightarrow> nat \<Rightarrow> nat \<Rightarrow> nat" where
  "sort_Search_loop f i j =
     (if i < j then let h = (i + j) div 2 in
        if \<not> f h then sort_Search_loop f (h + 1) j else sort_Search_loop f i h
      else i)"
  by pat_completeness auto
termination
  by (relation "measure (\<lambda>(f, i, j). j - i)") auto

declare sort_Search_loop.simps [simp del]

definition sort_Search :: "nat \<Rightarrow> (nat \<Rightarrow> bool) \<Rightarrow> nat" where
  "sort_Search n f = sort_Search_loop f 0 n"

definition to_int32 :: "int \<Rightarrow> int32" where
  "to_int32 i = word_of_int i"

definition search_index :: "userIDList \<Rightarrow> int32 \<Rightarrow> nat" where
  "search_index ints userID = sort_Search (length ints) (\<lambda>i. sint (ints ! i) \<ge> sint userID)"

definition userIDList_add :: "userIDList \<Rightarrow> int32 \<Rightarrow> err + userIDList" where
  "userIDList_add ints userID =
     (let idx = search_index ints userID in
      if idx < length ints \<and> ints ! idx = userID
      then Inl (doubleVoteError ''User has already voted'')
      else Inr (take idx ints @ ([userID] @ drop idx ints)))"

definition userIDList_contains :: "userIDList \<Rightarrow> int32 \<Rightarrow> bool" where
  "userIDList_contains ints userID =
     (let idx = search_index ints userID in idx < length ints \<and> ints ! idx = userID)"

definition put_int32 :: "int32 \<Rightarrow> raw_bytes" where
  "put_int32 w = [ucast w, ucast (drop_bit 8 w), ucast (drop_bit 16 w), ucast (drop_bit 24 w)]"

definition get_int32 :: "8 word \<Rightarrow> 8 word \<Rightarrow> 8 word \<Rightarrow> 8 word \<Rightarrow> int32" where
  "get_int32 a b c d =
     ucast a OR push_bit 8 (ucast b) OR push_bit 16 (ucast c) OR push_bit 24 (ucast d)"

text \<open>Decoding \<open>n\<close> values: \<^verbatim>\<open>binary.Read\<close> fails when the reader holds fewer than \<open>4 * n\<close> bytes.\<close>

fun binary_Read :: "nat \<Rightarrow> raw_bytes \<Rightarrow> err + int32 list" where
  "binary_Read 0 raw = Inr []"
| "binary_Read (Suc n) (a # b # c # d # raw) =
     (case binary_Read n raw of Inl e \<Rightarrow> Inl e | Inr ws \<Rightarrow> Inr (get_int32 a b c d # ws))"
| "binary_Read (Suc n) raw = Inl (plainError ''unexpected EOF'')"

definition userIDListFromBytes :: "raw_bytes \<Rightarrow> err + userIDList" where
  "userIDListFromBytes raw =
     (case binary_Read (length raw div 4) raw of
        Inl e \<Rightarrow> Inl (Wrapped ''decoding user ids'' e)
      | Inr ints \<Rightarrow> Inr ints)"

definition userIDList_toBytes :: "userIDList \<Rightarrow> raw_bytes" where
  "userIDList_toBytes u = concat (map put_int32 u)"

text \<open>The invariant of the column: ids in strictly increasing (signed) order.\<close>

definition id_sorted :: "userIDList \<Rightarrow> bool" where
  "id_sorted ints \<longleftrightarrow> sorted (map sint ints) \<and> distinct ints"

subsection \<open>Binary search\<close>

definition cut_at :: "(nat \<Rightarrow> bool) \<Rightarrow> nat \<Rightarrow> nat \<Rightarrow> bool" where
  "cut_at f n k \<longleftrightarrow> k \<le> n \<and> (\<forall>h < k. \<not> f h) \<and> (\<forall>h. k \<le> h \<longrightarrow> h < n \<longrightarrow> f h)"

lemma sort_Search_loop_spec:
  assumes mono: "\<And>h k. h \<le> k \<Longrightarrow> k < n \<Longrightarrow> f h \<Longrightarrow> f k"
    and "i \<le> j" "j \<le> n" "\<forall>h < i. \<not> f h" "\<forall>h. j \<le> h \<longrightarrow> h < n \<longrightarrow> f h"
  shows "cut_at f n (sort_Search_loop f i j)"
  using assms(2-)
proof (induction "j - i" arbitrary: i j rule: less_induct)
  case less
  show ?case
  proof (cases "i < j")
    case False
    then have "sort_Search_loop f i j = i" by (simp add: sort_Search_loop.simps [of f i j])
    with False less.prems show ?thesis by (simp add: cut_at_def)
  next
    case True
    define h where "h = (i + j) div 2"
    with True have h: "i \<le> h" "h < j" by auto
    show ?thesis
    proof (cases "f h")
      case False
      have "\<not> f k" if "k < h + 1" for k
        using mono [of k h] that False h less.prems by auto
      with less h have "cut_at f n (sort_Search_loop f (h + 1) j)" by simp
      with False True show ?thesis
        by (simp add: sort_Search_loop.simps [of f i j] Let_def h_def [symmetric])
    next
      case fh: True
      with mono have "\<forall>k. h \<le> k \<longrightarrow> k < n \<longrightarrow> f k" by blast
      with less h have "cut_at f n (sort_Search_loop f i h)" by simp
      with fh True show ?thesis
        by (simp add: sort_Search_loop.simps [of f i j] Let_def h_def [symmetric])
    qed
  qed
qed

lemma sort_Search_spec:
  assumes "\<And>h k. h \<le> k \<Longrightarrow> k < n \<Longrightarrow> f h \<Longrightarrow> f k"
  shows "cut_at f n (sort_Search n f)"
  unfolding sort_Search_def by (rule sort_Search_loop_spec) (use assms in auto)

lemma search_index_cut:
  assumes "sorted (map sint xs)"
  shows "cut_at (\<lambda>i. sint u \<le> sint (xs ! i)) (length xs) (search_index xs u)"
  unfolding search_index_def
proof (rule sort_Search_spec)
  fix h k assume "h \<le> k" "k < length xs" "sint u \<le> sint (xs ! h)"
  with assms sorted_nth_mono [of "map sint xs" h k] show "sint u \<le> sint (xs ! k)" by simp
qed

text \<open>Both parts of the list around the insertion point.\<close>

lemma search_index_parts:
  assumes "sorted (map sint xs)"
  shows "\<forall>x \<in> set (take (search_index xs u) xs). sint x < sint u"
    and "\<forall>x \<in> set (drop (search_index xs u) xs). sint u \<le> sint x"
proof -
  note cut = search_index_cut [OF assms, of u, unfolded cut_at_def]
  show "\<forall>x \<in> set (take (search_index xs u) xs). sint x < sint u"
    using cut by (auto simp: in_set_conv_nth not_le)
  show "\<forall>x \<in> set (drop (search_index xs u) xs). sint u \<le> sint x"
    using cut by (auto simp: in_set_conv_nth)
qed

lemma search_index_hit:
  assumes "id_sorted xs"
  shows "(search_index xs u < length xs \<and> xs ! search_index xs u = u) \<longleftrightarrow> u \<in> set xs"
proof
  assume "u \<in> set xs"
  then obtain k where k: "k < length xs" "xs ! k = u" by (auto simp: in_set_conv_nth)
  from assms have cut: "cut_at (\<lambda>i. sint u \<le> sint (xs ! i)) (length xs) (search_index xs u)"
    by (simp add: id_sorted_def search_index_cut)
  with k have le: "search_index xs u \<le> k" unfolding cut_at_def by (metis linorder_not_le order_refl)
  with k cut have "sint u \<le> sint (xs ! search_index xs u)" by (auto simp: cut_at_def)
  moreover have "sint (xs ! search_index xs u) \<le> sint u"
    using assms k le sorted_nth_mono [of "map sint xs" "search_index xs u" k] by (simp add: id_sorted_def)
  ultimately have "xs ! search_index xs u = u" by (metis order_antisym signed_word_eqI)
  with k le show "search_index xs u < length xs \<and> xs ! search_index xs u = u" by simp
qed (metis nth_mem)

lemma contains_iff: "id_sorted xs \<Longrightarrow> userIDList_contains xs u \<longleftrightarrow> u \<in> set xs"
  by (simp add: userIDList_contains_def search_index_hit)

lemma add_present: "id_sorted xs \<Longrightarrow> u \<in> set xs \<Longrightarrow>
    userIDList_add xs u = Inl (doubleVoteError ''User has already voted'')"
  by (simp add: userIDList_add_def search_index_hit)

lemma add_absent:
  assumes "id_sorted xs" "u \<notin> set xs"
  shows "\<exists>ys. userIDList_add xs u = Inr ys \<and> id_sorted ys \<and> mset ys = add_mset u (mset xs)"
proof -
  define k where "k = search_index xs u"
  define ys where "ys = take k xs @ u # drop k xs"
  have "mset (take k xs) + mset (drop k xs) = mset xs" by (metis append_take_drop_id mset_append)
  then have ms: "mset ys = add_mset u (mset xs)" by (simp add: ys_def)
  have "map sint xs = map sint (take k xs) @ map sint (drop k xs)" by (metis append_take_drop_id map_append)
  with assms(1) have "sorted (map sint (take k xs))" "sorted (map sint (drop k xs))"
    by (auto simp: id_sorted_def sorted_append)
  moreover have parts: "\<forall>x \<in> set (take k xs). sint x < sint u" "\<forall>x \<in> set (drop k xs). sint u \<le> sint x"
    using search_index_parts [of xs u] assms(1) by (simp_all add: id_sorted_def k_def)
  ultimately have "sorted (map sint ys)" by (fastforce simp: ys_def sorted_append)
  moreover have "distinct ys"
    using assms ms by (metis distinct.simps(2) distinct_count_atmost_1 id_sorted_def mset.simps(2) set_mset_mset)
  moreover have "userIDList_add xs u = Inr ys"
    using assms search_index_hit [of xs u] by (auto simp: userIDList_add_def ys_def k_def Let_def)
  ultimately show ?thesis using ms by (auto simp: id_sorted_def)
qed

subsection \<open>Codec\<close>

lemma get_put_int32: "get_int32 (ucast w) (ucast (drop_bit 8 w)) (ucast (drop_bit 16 w)) (ucast (drop_bit 24 w)) = w"
proof (rule bit_word_eqI)
  fix n assume "n < LENGTH(32)"
  then consider "n < 8" | "8 \<le> n \<and> n < 16" | "16 \<le> n \<and> n < 24" | "24 \<le> n \<and> n < 32" by fastforce
  then show "bit (get_int32 (ucast w) (ucast (drop_bit 8 w)) (ucast (drop_bit 16 w)) (ucast (drop_bit 24 w))) n = bit w n"
    by cases (auto simp: get_int32_def bit_simps)
qed

lemma bit_byte [simp]: "8 \<le> n \<Longrightarrow> \<not> bit b n" for b :: "8 word"
  using bit_imp_le_length [of b n] by auto

lemma put_get_int32: "put_int32 (get_int32 a b c d) = [a, b, c, d]"
  unfolding get_int32_def put_int32_def by (auto intro!: bit_word_eqI simp: bit_simps)

lemma binary_Read_total: "4 * n \<le> length raw \<Longrightarrow> \<exists>ws. binary_Read n raw = Inr ws \<and> length ws = n"
proof (induction n raw rule: binary_Read.induct)
  case (2 n a b c d raw)
  then have "4 * n \<le> length raw" by simp
  from 2(1)[OF this] show ?case by auto
qed auto

lemma binary_Read_put: "binary_Read (length u) (concat (map put_int32 u)) = Inr u"
  by (induction u) (auto simp: put_int32_def get_put_int32)

lemma length_toBytes [simp]: "length (userIDList_toBytes u) = 4 * length u"
  by (induction u) (auto simp: userIDList_toBytes_def put_int32_def)

lemma fromBytes_toBytes: "userIDListFromBytes (userIDList_toBytes u) = Inr u"
proof -
  have "binary_Read (length u) (userIDList_toBytes u) = Inr u"
    by (simp add: userIDList_toBytes_def binary_Read_put)
  then show ?thesis by (simp add: userIDListFromBytes_def)
qed

lemma fromBytes_Nil [simp]: "userIDListFromBytes [] = Inr []"
  by (simp add: userIDListFromBytes_def)

lemma fromBytes_total: "\<exists>u. userIDListFromBytes raw = Inr u \<and> length u = length raw div 4"
  using binary_Read_total [of "length raw div 4" raw] by (auto simp: userIDListFromBytes_def)

lemma binary_Read_take: "binary_Read n raw = Inr ws \<Longrightarrow> concat (map put_int32 ws) = take (4 * n) raw"
proof (induction n raw arbitrary: ws rule: binary_Read.induct)
  case (2 n a b c d raw)
  then obtain ws' where "binary_Read n raw = Inr ws'" "ws = get_int32 a b c d # ws'"
    by (auto split: sum.splits)
  with 2(1) show ?case by (simp add: put_get_int32 numeral_eq_Suc)
qed auto

lemma toBytes_fromBytes: "userIDListFromBytes raw = Inr u \<Longrightarrow>
    userIDList_toBytes u = take (4 * (length raw div 4)) raw"
  by (auto simp: userIDListFromBytes_def userIDList_toBytes_def binary_Read_take split: sum.splits)

lemma sint_to_int32 [simp]: "in_int32 i \<Longrightarrow> sint (to_int32 i) = i"
  by (simp add: to_int32_def in_int32_def sint_sbintrunc' signed_take_bit_int_eq_self)

lemma to_int32_sint [simp]: "to_int32 (sint w) = w"
  by (simp add: to_int32_def)

lemma sint_in_int32: "in_int32 (sint w)" for w :: int32
  using sint_greater_eq [of w] sint_less [of w] by (simp add: in_int32_def)

lemma id_sorted_unique:
  assumes "id_sorted xs" "id_sorted ys" "set xs = set ys"
  shows "xs = ys"
proof -
  have inj: "inj_on sint A" for A :: "int32 set" by (metis inj_onI signed_word_eqI)
  have "map sint xs = map sint ys"
    using assms inj by (intro sorted_order_unique) (auto simp: id_sorted_def distinct_map)
  then show ?thesis using inj inj_on_map_eq_map by blast
qed

lemma id_sorted_insort: "id_sorted xs \<Longrightarrow> u \<notin> set xs \<Longrightarrow> id_sorted (insort_key sint u xs)"
  by (simp add: id_sorted_def sorted_insort_key distinct_insort)

lemma add_eq_insort: "id_sorted xs \<Longrightarrow> u \<notin> set xs \<Longrightarrow> userIDList_add xs u = Inr (insort_key sint u xs)"
proof -
  assume "id_sorted xs" "u \<notin> set xs"
  moreover from this obtain ys where ys: "userIDList_add xs u = Inr ys" "id_sorted ys" "mset ys = add_mset u (mset xs)"
    using add_absent by blast
  moreover from ys(3) have "set ys = insert u (set xs)" by (metis set_mset_add_mset_insert set_mset_mset)
  ultimately show ?thesis using id_sorted_unique id_sorted_insort by (metis set_insort_key)
qed

text \<open>
  C17. On an increasing list of ids, \<^verbatim>\<open>userIDList.add\<close> with its binary search is sorted insertion:
  a present id is refused with a double-vote error, an absent one is put at its place, and the
  list stays increasing.
\<close>
theorem userIDList_add_sorted_insert:
  assumes "id_sorted xs"
  shows "userIDList_add xs u =
      (if u \<in> set xs then Inl (doubleVoteError ''User has already voted'')
       else Inr (insort_key sint u xs)) \<and>
    (u \<notin> set xs \<longrightarrow> id_sorted (insort_key sint u xs)) \<and>
    userIDList_contains xs u = (u \<in> set xs)"
  using assms by (simp add: add_present add_eq_insort contains_iff id_sorted_insort)

theorem userIDList_add_sorted_insert_witness:
  "id_sorted [3, 7] \<and> userIDList_add [3, 7] 5 = Inr [3, 5, 7] \<and> \<not> userIDList_contains [3, 7] 5"
proof -
  have "id_sorted [3, 7]" by (simp add: id_sorted_def)
  with userIDList_add_sorted_insert [OF this, of 5] show ?thesis by simp
qed

text \<open>
  C18. The byte encoding of the user ids: decoding what was encoded gives the list back, decoding
  never fails, and encoding what was decoded gives the bytes back up to a rest of less than four
  bytes, which decoding ignores.
\<close>
theorem userIDList_codec_roundtrip:
  "userIDListFromBytes (userIDList_toBytes u) = Inr u \<and>
   (\<exists>v. userIDListFromBytes raw = Inr v \<and> userIDList_toBytes v = take (4 * (length raw div 4)) raw)"
  using fromBytes_toBytes fromBytes_total toBytes_fromBytes by blast

end
