(* ===== verification/Postgres_Backend.thy ===== *)
theory Postgres_Backend
  imports Backend_Spec User_ID_List
begin

text \<open>
  The Postgres backend, \<^verbatim>\<open>backend/postgres/postgres.go\<close> and \<^verbatim>\<open>schema.sql\<close>.

  The database server and its driver are not part of the repository: they are the parameter
  \<open>'d pgx\<close>, one function for each SQL text of the source and one for \<^verbatim>\<open>pgx.BeginTxFunc\<close>, over an
  unknown server state \<open>'d\<close>. The closure that the Go code hands to \<^verbatim>\<open>BeginTxFunc\<close> writes its
  results into captured variables; here they are the value it returns. What the code relies on
  is the locale \<open>pg_sql\<close>: each statement acts on the tables of \<open>schema.sql\<close> as SQL says (the
  functions \<open>sql_\<close>), and a transaction is all or nothing or fails to be serialized. The locale
  \<open>pg_server\<close> adds what is not promised by any server but has to hold during a call for it to be
  answered: the context of the call is not canceled, and serialization failures end.

  The retry loop \<^verbatim>\<open>continueOnTransactionError\<close> may not return; it is a
  \<^theory_text>\<open>partial_function (option)\<close>, and that it returns is proved.
\<close>

record 'd pgx =
  px_BeginTxFunc :: "('d \<Rightarrow> (err + bytes list \<times> int list) \<times> 'd) \<Rightarrow> 'd \<Rightarrow> (err + bytes list \<times> int list) \<times> 'd"
  px_schema :: "'d \<Rightarrow> err option \<times> 'd"
  px_dropSchema :: "'d \<Rightarrow> err option \<times> 'd"
  px_insertPoll :: "int \<Rightarrow> 'd \<Rightarrow> err option \<times> 'd"
  px_selectPoll :: "int \<Rightarrow> 'd \<Rightarrow> (err + bool \<times> raw_bytes option) \<times> 'd"
  px_updateUserIDs :: "raw_bytes \<Rightarrow> int \<Rightarrow> 'd \<Rightarrow> err option \<times> 'd"
  px_insertObject :: "int \<Rightarrow> bytes \<Rightarrow> 'd \<Rightarrow> err option \<times> 'd"
  px_existsPoll :: "int \<Rightarrow> 'd \<Rightarrow> (err + bool) \<times> 'd"
  px_setStopped :: "int \<Rightarrow> 'd \<Rightarrow> err option \<times> 'd"
  px_selectObjects :: "int \<Rightarrow> 'd \<Rightarrow> (err + (err + bytes option) list \<times> err option) \<times> 'd"
  px_selectUserIDs :: "int \<Rightarrow> 'd \<Rightarrow> (err + raw_bytes option) \<times> 'd"
  px_deletePoll :: "int \<Rightarrow> 'd \<Rightarrow> err option \<times> 'd"
  px_selectAll :: "'d \<Rightarrow> (err + (err + int \<times> raw_bytes option) list \<times> err option) \<times> 'd"

text \<open>
  The rows of a query are what \<^verbatim>\<open>rows.Scan\<close> gives for them, an error or the columns, together with the
  error of \<^verbatim>\<open>rows.Err\<close> at the end. A scanned \<^verbatim>\<open>[]byte\<close> is nil for a NULL column, which decodes as no
  bytes.
\<close>

definition raw_of :: "raw_bytes option \<Rightarrow> raw_bytes" where
  "raw_of r = (case r of None \<Rightarrow> [] | Some bs \<Rightarrow> bs)"

fun is_PgError :: "err \<Rightarrow> bool" where
  "is_PgError (PgError code msg) = True"
| "is_PgError e = False"

definition is_serialization_failure :: "err \<Rightarrow> bool" where
  "is_serialization_failure e =
     (case err_find is_PgError e of Some (PgError code msg) \<Rightarrow> code = ''40001'' | _ \<Rightarrow> False)"

partial_function (option) continueOnTransactionError ::
  "('d \<Rightarrow> bool) \<Rightarrow> ('d \<Rightarrow> (err + 'a) \<times> 'd) \<Rightarrow> err option \<Rightarrow> 'a \<Rightarrow> 'd \<Rightarrow> (err option \<times> 'a \<times> 'd) option" where
  "continueOnTransactionError ctx_done f e out d =
     (if ctx_done d then Some (e, out, d)
      else case f d of
        (Inr x, d') \<Rightarrow> Some (None, x, d')
      | (Inl e', d') \<Rightarrow>
          if is_serialization_failure e' then continueOnTransactionError ctx_done f (Some e') out d'
          else Some (Some e', out, d'))"

declare continueOnTransactionError.simps [code]

definition pg_Migrate :: "'d pgx \<Rightarrow> 'd \<Rightarrow> err option \<times> 'd" where
  "pg_Migrate X d =
     (case px_schema X d of (Some e, d') \<Rightarrow> (Some (Wrapped ''creating schema'' e), d')
      | (None, d') \<Rightarrow> (None, d'))"

definition pg_Start :: "'d pgx \<Rightarrow> int \<Rightarrow> 'd \<Rightarrow> err option \<times> 'd" where
  "pg_Start X pollID d =
     (case px_insertPoll X pollID d of (Some e, d') \<Rightarrow> (Some (Wrapped ''insert poll'' e), d')
      | (None, d') \<Rightarrow> (None, d'))"

definition vote_tx :: "'d pgx \<Rightarrow> int \<Rightarrow> int \<Rightarrow> bytes \<Rightarrow> 'd \<Rightarrow> (err + bytes list \<times> int list) \<times> 'd" where
  "vote_tx X pollID userID obj d =
     (case px_selectPoll X pollID d of
        (Inl e, d1) \<Rightarrow>
          if err_as (\<lambda>x. x = PgErrNoRows) e then (Inl (doesNotExistError ''unknown poll''), d1)
          else (Inl (Wrapped ''fetching poll data'' e), d1)
      | (Inr (stp, uIDsRaw), d1) \<Rightarrow>
          if stp then (Inl (stoppedError ''poll is stopped''), d1)
          else case userIDListFromBytes (raw_of uIDsRaw) of
            Inl e \<Rightarrow> (Inl (Wrapped ''parsing user ids'' e), d1)
          | Inr uIDs \<Rightarrow>
            (case userIDList_add uIDs (to_int32 userID) of
               Inl e \<Rightarrow> (Inl (Wrapped ''adding userID to voted users'' e), d1)
             | Inr uIDs' \<Rightarrow>
               (case px_updateUserIDs X (userIDList_toBytes uIDs') pollID d1 of
                  (Some e, d2) \<Rightarrow> (Inl (Wrapped ''writing user ids'' e), d2)
                | (None, d2) \<Rightarrow>
                  (case px_insertObject X pollID obj d2 of
                     (Some e, d3) \<Rightarrow> (Inl (Wrapped ''writing vote'' e), d3)
                   | (None, d3) \<Rightarrow> (Inr ([], []), d3)))))"

definition voteOnce :: "'d pgx \<Rightarrow> int \<Rightarrow> int \<Rightarrow> bytes \<Rightarrow> 'd \<Rightarrow> (err + bytes list \<times> int list) \<times> 'd" where
  "voteOnce X pollID userID obj d =
     (case px_BeginTxFunc X (vote_tx X pollID userID obj) d of
        (Inl e, d') \<Rightarrow> (Inl (Wrapped ''running transaction'' e), d')
      | (Inr x, d') \<Rightarrow> (Inr x, d'))"

definition pg_Vote :: "('d \<Rightarrow> bool) \<Rightarrow> 'd pgx \<Rightarrow> int \<Rightarrow> int \<Rightarrow> bytes \<Rightarrow> 'd \<Rightarrow> (err option \<times> 'd) option" where
  "pg_Vote ctx_done X pollID userID obj d =
     map_option (\<lambda>(e, out, d'). (e, d'))
       (continueOnTransactionError ctx_done (voteOnce X pollID userID obj) None ([], []) d)"

text \<open>
  The loop over the rows of the join: a row without an object is skipped, a row that cannot be
  scanned ends it.
\<close>

fun scan_objects :: "(err + bytes option) list \<Rightarrow> bytes list \<Rightarrow> err + bytes list" where
  "scan_objects [] objects = Inr objects"
| "scan_objects (Inl e # rows) objects = Inl (Wrapped ''parsind row'' e)"
| "scan_objects (Inr bs # rows) objects =
     (if bs = None \<or> bs = Some [] then scan_objects rows objects else scan_objects rows (objects @ [the bs]))"

definition stop_tx :: "'d pgx \<Rightarrow> int \<Rightarrow> 'd \<Rightarrow> (err + bytes list \<times> int list) \<times> 'd" where
  "stop_tx X pollID d =
     (case px_existsPoll X pollID d of
        (Inl e, d1) \<Rightarrow> (Inl (Wrapped ''fetching poll exists'' e), d1)
      | (Inr ex, d1) \<Rightarrow>
          if \<not> ex then (Inl (doesNotExistError ''Poll does not exist''), d1)
          else case px_setStopped X pollID d1 of
            (Some e, d2) \<Rightarrow> (Inl (Wrapped (''setting poll '' @ Itoa pollID @ '' to stopped'') e), d2)
          | (None, d2) \<Rightarrow>
            (case px_selectObjects X pollID d2 of
               (Inl e, d3) \<Rightarrow> (Inl (Wrapped ''fetching vote objects'' e), d3)
             | (Inr (rows, rowsErr), d3) \<Rightarrow>
               (case (scan_objects rows [], rowsErr) of
                  (Inl e, _) \<Rightarrow> (Inl e, d3)
                | (Inr objects, Some e) \<Rightarrow> (Inl (Wrapped ''parsing query rows'' e), d3)
                | (Inr objects, None) \<Rightarrow>
                  (case px_selectUserIDs X pollID d3 of
                     (Inl e, d4) \<Rightarrow> (Inl (Wrapped ''fetching poll data'' e), d4)
                   | (Inr rawUserIDs, d4) \<Rightarrow>
                     (case userIDListFromBytes (raw_of rawUserIDs) of
                        Inl e \<Rightarrow> (Inl (Wrapped ''parsing user ids'' e), d4)
                      | Inr uIDs \<Rightarrow> (Inr (objects, map sint uIDs), d4))))))"

definition stopOnce :: "'d pgx \<Rightarrow> int \<Rightarrow> 'd \<Rightarrow> (err + bytes list \<times> int list) \<times> 'd" where
  "stopOnce X pollID d =
     (case px_BeginTxFunc X (stop_tx X pollID) d of
        (Inl e, d') \<Rightarrow> (Inl (Wrapped ''running transaction'' e), d')
      | (Inr x, d') \<Rightarrow> (Inr x, d'))"

text \<open>\<^verbatim>\<open>Stop\<close> returns the objects, the user ids and the error; the first two are nil on an error.\<close>

definition pg_Stop :: "('d \<Rightarrow> bool) \<Rightarrow> 'd pgx \<Rightarrow> int \<Rightarrow> 'd \<Rightarrow> ((err + bytes list \<times> int list) \<times> 'd) option" where
  "pg_Stop ctx_done X pollID d =
     map_option (\<lambda>(e, out, d'). ((case e of Some e' \<Rightarrow> Inl e' | None \<Rightarrow> Inr out), d'))
       (continueOnTransactionError ctx_done (stopOnce X pollID) None ([], []) d)"

definition pg_Clear :: "'d pgx \<Rightarrow> int \<Rightarrow> 'd \<Rightarrow> err option \<times> 'd" where
  "pg_Clear X pollID d =
     (case px_deletePoll X pollID d of
        (Some e, d') \<Rightarrow> (Some (Wrapped (''deleting data of poll '' @ Itoa pollID) e), d')
      | (None, d') \<Rightarrow> (None, d'))"

definition pg_ClearAll :: "'d pgx \<Rightarrow> 'd \<Rightarrow> err option \<times> 'd" where
  "pg_ClearAll X d =
     (case px_dropSchema X d of
        (Some e, d') \<Rightarrow> (Some (Wrapped ''deleting vote schema'' e), d')
      | (None, d') \<Rightarrow>
        (case pg_Migrate X d' of
           (Some e, d'') \<Rightarrow> (Some (Wrapped ''recreate schema'' e), d'')
         | (None, d'') \<Rightarrow> (None, d'')))"

fun live_rows :: "(err + int \<times> raw_bytes option) list \<Rightarrow> live_votes \<Rightarrow> err + live_votes" where
  "live_rows [] out = Inr out"
| "live_rows (Inl e # rows) out = Inl (Wrapped ''parsing row'' e)"
| "live_rows (Inr (pid, raw) # rows) out =
     (case userIDListFromBytes (raw_of raw) of
        Inl e \<Rightarrow> Inl (Wrapped ''parsing user ids'' e)
      | Inr uIDs \<Rightarrow> live_rows rows (out(pid \<mapsto> Some (map_of (map (\<lambda>u. (sint u, None)) uIDs)))))"

text \<open>The error that ends the iteration over the rows early (\<^verbatim>\<open>rows.Err()\<close>) is not read.\<close>

definition pg_LiveVotes :: "'d pgx \<Rightarrow> 'd \<Rightarrow> (err + live_votes) \<times> 'd" where
  "pg_LiveVotes X d =
     (case px_selectAll X d of
        (Inl e, d') \<Rightarrow> (Inl (Wrapped ''fetching user_ids from all poll objects'' e), d')
      | (Inr (rows, rowsErr), d') \<Rightarrow> (live_rows rows Map.empty, d'))"

text \<open>
  The method table. A call that does not return is mapped to an error value here; \<open>pg_Vote\<close> and
  \<open>pg_Stop\<close> are shown to return under the assumptions on the server.
\<close>

definition pg_backend :: "('d \<Rightarrow> bool) \<Rightarrow> 'd pgx \<Rightarrow> ('d, unit) Backend" where
  "pg_backend ctx_done X = \<lparr>bStart = pg_Start X,
     bVote = (\<lambda>p u obj d. case pg_Vote ctx_done X p u obj d of Some r \<Rightarrow> r | None \<Rightarrow> (Some (plainError ''no return''), d)),
     bStop = (\<lambda>_ p d. case pg_Stop ctx_done X p d of Some r \<Rightarrow> r | None \<Rightarrow> (Inl (plainError ''no return''), d)),
     bClear = pg_Clear X, bClearAll = pg_ClearAll X, bLiveVotes = pg_LiveVotes X\<rparr>"

lemma pg_backend_sel:
  "bStart (pg_backend c X) = pg_Start X"
  "bVote (pg_backend c X) = (\<lambda>p u obj d. case pg_Vote c X p u obj d of Some r \<Rightarrow> r | None \<Rightarrow> (Some (plainError ''no return''), d))"
  "bStop (pg_backend c X) = (\<lambda>_ p d. case pg_Stop c X p d of Some r \<Rightarrow> r | None \<Rightarrow> (Inl (plainError ''no return''), d))"
  "bClear (pg_backend c X) = pg_Clear X" "bClearAll (pg_backend c X) = pg_ClearAll X"
  "bLiveVotes (pg_backend c X) = pg_LiveVotes X"
  by (simp_all add: pg_backend_def)

subsection \<open>The tables and the SQL statements\<close>

record pg_tables =
  poll_tab :: "int \<rightharpoonup> bool \<times> raw_bytes option"
  objects_tab :: "(int \<times> bytes option) list"

definition sql_schema :: "pg_tables option \<Rightarrow> pg_tables" where
  "sql_schema t = (case t of None \<Rightarrow> \<lparr>poll_tab = Map.empty, objects_tab = []\<rparr> | Some t \<Rightarrow> t)"

definition sql_insertPoll :: "int \<Rightarrow> pg_tables \<Rightarrow> pg_tables" where
  "sql_insertPoll p t = (if poll_tab t p = None then t\<lparr>poll_tab := (poll_tab t)(p \<mapsto> (False, None))\<rparr> else t)"

definition sql_updateUserIDs :: "raw_bytes \<Rightarrow> int \<Rightarrow> pg_tables \<Rightarrow> pg_tables" where
  "sql_updateUserIDs raw p t = t\<lparr>poll_tab := (poll_tab t)(p := map_option (\<lambda>(stp, _). (stp, Some raw)) (poll_tab t p))\<rparr>"

definition sql_insertObject :: "int \<Rightarrow> bytes \<Rightarrow> pg_tables \<Rightarrow> pg_tables" where
  "sql_insertObject p obj t = t\<lparr>objects_tab := objects_tab t @ [(p, Some obj)]\<rparr>"

definition sql_setStopped :: "int \<Rightarrow> pg_tables \<Rightarrow> pg_tables" where
  "sql_setStopped p t = t\<lparr>poll_tab := (poll_tab t)(p := map_option (\<lambda>(_, raw). (True, raw)) (poll_tab t p))\<rparr>"

definition sql_objects :: "int \<Rightarrow> pg_tables \<Rightarrow> bytes option list" where
  "sql_objects p t = map snd (filter (\<lambda>(q, _). q = p) (objects_tab t))"

text \<open>Deleting a poll deletes its objects (\<^verbatim>\<open>ON DELETE CASCADE\<close>).\<close>

definition sql_deletePoll :: "int \<Rightarrow> pg_tables \<Rightarrow> pg_tables" where
  "sql_deletePoll p t = t\<lparr>poll_tab := (poll_tab t)(p := None), objects_tab := filter (\<lambda>(q, _). q \<noteq> p) (objects_tab t)\<rparr>"

subsection \<open>What the tables mean\<close>

definition pg_ids :: "raw_bytes option \<Rightarrow> userIDList" where
  "pg_ids raw = (case userIDListFromBytes (raw_of raw) of Inl _ \<Rightarrow> [] | Inr ids \<Rightarrow> ids)"

text \<open>The objects that the loop over the rows collects when every row can be scanned.\<close>

definition present_objects :: "bytes option list \<Rightarrow> bytes list" where
  "present_objects rows = List.map_filter (\<lambda>bs. if bs = None \<or> bs = Some [] then None else bs) rows"

lemma scan_objects_eq: "scan_objects (map Inr rows) objects = Inr (objects @ present_objects rows)"
proof (induction rows arbitrary: objects)
  case (Cons bs rows)
  then show ?case by (cases bs) (auto simp: present_objects_def List.map_filter_def)
qed (simp add: present_objects_def List.map_filter_def)

definition tab_abs :: "pg_tables \<Rightarrow> store" where
  "tab_abs t p = map_option (\<lambda>(stp, raw). \<lparr>stopped = stp, voters = sint ` set (pg_ids raw),
     ballots = mset (present_objects (sql_objects p t))\<rparr>) (poll_tab t p)"

definition tab_inv :: "pg_tables \<Rightarrow> bool" where
  "tab_inv t \<longleftrightarrow> (\<forall>p stp raw. poll_tab t p = Some (stp, raw) \<longrightarrow> id_sorted (pg_ids raw)) \<and>
     (\<forall>p. poll_tab t p = None \<longrightarrow> sql_objects p t = [])"

lemma fromBytes_pg_ids [simp]: "userIDListFromBytes (raw_of raw) = Inr (pg_ids raw)"
  using fromBytes_total [of "raw_of raw"] by (auto simp: pg_ids_def)

lemma pg_ids_simps [simp]: "pg_ids None = []" "pg_ids (Some (userIDList_toBytes u)) = u"
  by (simp_all add: pg_ids_def raw_of_def fromBytes_toBytes)

lemma id_sorted_Nil [simp]: "id_sorted []"
  by (simp add: id_sorted_def)

lemma present_objects_simps [simp]:
  "present_objects [] = []" "present_objects (None # rows) = present_objects rows"
  "obj \<noteq> [] \<Longrightarrow> present_objects (rows @ [Some obj]) = present_objects rows @ [obj]"
  by (simp_all add: present_objects_def List.map_filter_def)

lemma present_objects_mset: "mset rows = mset rows' \<Longrightarrow> mset (present_objects rows) = mset (present_objects rows')"
  unfolding present_objects_def List.map_filter_def by (simp add: mset_filter)

lemma sql_objects_simps [simp]:
  "sql_objects p (t\<lparr>poll_tab := f\<rparr>) = sql_objects p t"
  "sql_objects p (sql_insertPoll q t) = sql_objects p t"
  "sql_objects p (sql_updateUserIDs raw q t) = sql_objects p t"
  "sql_objects p (sql_setStopped q t) = sql_objects p t"
  "sql_objects p (sql_insertObject q obj t) = sql_objects p t @ (if q = p then [Some obj] else [])"
  "sql_objects p (sql_deletePoll q t) = (if q = p then [] else sql_objects p t)"
  by (auto simp: sql_objects_def sql_insertPoll_def sql_updateUserIDs_def sql_setStopped_def
      sql_insertObject_def sql_deletePoll_def filter_empty_conv intro!: arg_cong [where f = "map snd"]
      filter_cong)

lemma tab_insertPoll:
  assumes "tab_inv t"
  shows "tab_inv (sql_insertPoll p t) \<and> tab_abs (sql_insertPoll p t) = spec_start p (tab_abs t)"
proof
  show "tab_inv (sql_insertPoll p t)"
    using assms by (auto simp: tab_inv_def) (auto simp: sql_insertPoll_def split: if_splits)
  have "tab_abs (sql_insertPoll p t) q = spec_start p (tab_abs t) q" for q
    using assms by (auto simp: tab_abs_def spec_start_def fresh_poll_def tab_inv_def)
      (auto simp: sql_insertPoll_def)
  then show "tab_abs (sql_insertPoll p t) = spec_start p (tab_abs t)" by auto
qed

lemma tab_setStopped:
  assumes "tab_inv t"
  shows "tab_inv (sql_setStopped p t) \<and> tab_abs (sql_setStopped p t) = spec_stop p (tab_abs t)"
proof
  show "tab_inv (sql_setStopped p t)"
    using assms by (auto simp: tab_inv_def) (auto simp: sql_setStopped_def split: if_splits)
  have "tab_abs (sql_setStopped p t) q = spec_stop p (tab_abs t) q" for q
    by (cases "poll_tab t p") (auto simp: tab_abs_def spec_stop_def, auto simp: sql_setStopped_def)
  then show "tab_abs (sql_setStopped p t) = spec_stop p (tab_abs t)" by auto
qed

lemma tab_deletePoll:
  assumes "tab_inv t"
  shows "tab_inv (sql_deletePoll p t) \<and> tab_abs (sql_deletePoll p t) = spec_clear p (tab_abs t)"
proof
  show "tab_inv (sql_deletePoll p t)"
    using assms by (auto simp: tab_inv_def) (auto simp: sql_deletePoll_def split: if_splits)
  have "tab_abs (sql_deletePoll p t) q = spec_clear p (tab_abs t) q" for q
    by (auto simp: tab_abs_def spec_clear_def) (auto simp: sql_deletePoll_def)
  then show "tab_abs (sql_deletePoll p t) = spec_clear p (tab_abs t)" by auto
qed

lemma tab_vote:
  assumes inv: "tab_inv t" and row: "poll_tab t p = Some (False, raw)" and u: "in_int32 u"
    and new: "to_int32 u \<notin> set (pg_ids raw)" and "obj \<noteq> []"
  defines "t' \<equiv> sql_insertObject p obj
    (sql_updateUserIDs (userIDList_toBytes (insort_key sint (to_int32 u) (pg_ids raw))) p t)"
  shows "spec_verdict p u (tab_abs t) = Accepted" and "tab_inv t'"
    and "tab_abs t' = spec_vote p u obj (tab_abs t)"
proof -
  have row': "poll_tab t' q = (if q = p then Some (False, Some (userIDList_toBytes (insort_key sint (to_int32 u) (pg_ids raw))))
      else poll_tab t q)" for q
    using row by (simp add: t'_def sql_insertObject_def sql_updateUserIDs_def)
  have obj': "sql_objects q t' = sql_objects q t @ (if p = q then [Some obj] else [])" for q
    by (simp add: t'_def)
  show acc: "spec_verdict p u (tab_abs t) = Accepted"
    using row new u by (auto simp: spec_verdict_def tab_abs_def)
  show "tab_inv t'"
    using inv row new by (auto simp: tab_inv_def row' obj' intro: id_sorted_insort split: if_splits)
  have "tab_abs t' q = spec_vote p u obj (tab_abs t) q" for q
    using acc row \<open>obj \<noteq> []\<close> u by (auto simp: tab_abs_def row' obj' spec_vote_def add_ballot_def set_insort_key)
  then show "tab_abs t' = spec_vote p u obj (tab_abs t)" by auto
qed

text \<open>The same on a server state whose tables \<open>tables\<close> reads; without the schema there is no poll.\<close>

definition pg_inv :: "('d \<Rightarrow> pg_tables option) \<Rightarrow> 'd \<Rightarrow> bool" where
  "pg_inv tables d \<longleftrightarrow> (\<exists>t. tables d = Some t \<and> tab_inv t)"

definition pg_abs :: "('d \<Rightarrow> pg_tables option) \<Rightarrow> 'd \<Rightarrow> store" where
  "pg_abs tables d = (case tables d of None \<Rightarrow> Map.empty | Some t \<Rightarrow> tab_abs t)"

lemma pg_invE:
  assumes "pg_inv tables d"
  obtains t where "tables d = Some t" "tab_inv t" "pg_abs tables d = tab_abs t"
  using assms by (auto simp: pg_inv_def pg_abs_def)

lemma pg_invI: "tables d = Some t \<Longrightarrow> tab_inv t \<Longrightarrow> pg_inv tables d \<and> pg_abs tables d = tab_abs t"
  by (simp add: pg_inv_def pg_abs_def)

lemma sint_image_iff: "in_int32 u \<Longrightarrow> u \<in> sint ` A \<longleftrightarrow> to_int32 u \<in> A" for A :: "int32 set"
  by (force simp: image_iff)

subsection \<open>The retry loop\<close>

lemma retry_done: "ctx_done d \<Longrightarrow> continueOnTransactionError ctx_done f e out d = Some (e, out, d)"
  by (simp add: continueOnTransactionError.simps)

text \<open>
  The loop returns when every failed attempt that is retried decreases a measure, and then its
  result is that of an attempt that is not retried.
\<close>

lemma retry_returns:
  fixes Q :: "'d \<Rightarrow> bool" and m :: "'d \<Rightarrow> nat" and post :: "err + 'a \<Rightarrow> 'd \<Rightarrow> bool"
  assumes ctx: "\<And>d. \<not> ctx_done d"
    and attempt: "\<And>d y d'. Q d \<Longrightarrow> f d = (y, d') \<Longrightarrow>
      (\<exists>e. y = Inl e \<and> is_serialization_failure e \<and> Q d' \<and> m d' < m d) \<or>
      (post y d' \<and> (\<forall>e. y = Inl e \<longrightarrow> \<not> is_serialization_failure e))"
    and "Q d"
  shows "\<exists>e' out' d'. continueOnTransactionError ctx_done f e out d = Some (e', out', d') \<and>
    post (case e' of None \<Rightarrow> Inr out' | Some x \<Rightarrow> Inl x) d'"
  using \<open>Q d\<close>
proof (induction "m d" arbitrary: d e rule: less_induct)
  case less
  obtain y d' where fd: "f d = (y, d')" by fastforce
  note step = continueOnTransactionError.simps [of ctx_done f e out d]
  from attempt [OF less.prems fd] show ?case
  proof (elim disjE exE conjE)
    fix x assume "y = Inl x" "is_serialization_failure x" "Q d'" "m d' < m d"
    with less.hyps [of d' "Some x"] show ?thesis by (simp add: step ctx fd)
  next
    assume "post y d'" "\<forall>e. y = Inl e \<longrightarrow> \<not> is_serialization_failure e"
    then show ?thesis by (cases y) (simp_all add: step ctx fd)
  qed
qed

lemma serialization_failure_simps [simp]:
  "is_serialization_failure (Wrapped msg e) = is_serialization_failure e"
  "is_serialization_failure (PgError code msg) = (code = ''40001'')"
  "\<not> is_serialization_failure (doesNotExistError msg)"
  "\<not> is_serialization_failure (doubleVoteError msg)"
  "\<not> is_serialization_failure (stoppedError msg)"
  by (simp_all add: is_serialization_failure_def err_find_def)

subsection \<open>Live votes\<close>

definition nil_votes :: "raw_bytes option \<Rightarrow> (int \<rightharpoonup> bytes option)" where
  "nil_votes raw = map_of (map (\<lambda>u. (sint u, None)) (pg_ids raw))"

lemma dom_nil_votes [simp]: "dom (nil_votes raw) = sint ` set (pg_ids raw)"
  by (simp add: nil_votes_def dom_map_of_conv_image_fst image_image)

lemma nil_votes_nil: "nil_votes raw u \<noteq> Some (Some obj)"
  by (auto simp: nil_votes_def dest: map_of_SomeD)

lemma live_rows_eq: "distinct (map fst rows) \<Longrightarrow>
    live_rows (map Inr rows) out = Inr (out ++ (\<lambda>p. map_option (\<lambda>raw. Some (nil_votes raw)) (map_of rows p)))"
proof (induction rows arbitrary: out)
  case (Cons x rows)
  obtain pid raw where x: "x = (pid, raw)" by (cases x)
  with Cons.prems have "map_of rows pid = None" by (simp add: map_of_eq_None_iff)
  with Cons x show ?case
    by (auto simp: nil_votes_def [symmetric] map_add_def split: option.splits intro!: ext)
qed (simp add: map_add_def)

subsection \<open>The assumptions on the server and the contract\<close>

text \<open>An attempt of a transaction that was carried out: all of it on success, nothing on an error.\<close>

definition carried_out :: "('d \<Rightarrow> pg_tables option) \<Rightarrow> ('d \<Rightarrow> (err + 'a) \<times> 'd) \<Rightarrow> 'd \<Rightarrow> err + 'a \<Rightarrow> 'd \<Rightarrow> bool" where
  "carried_out tables f d y d' \<longleftrightarrow> (\<exists>d0 d1. tables d0 = tables d \<and> f d0 = (y, d1) \<and>
     tables d' = (case y of Inl e \<Rightarrow> tables d | Inr x \<Rightarrow> tables d1))"

text \<open>The documented behaviour of the server.\<close>

locale pg_sql =
  fixes X :: "'d pgx"
    and tables :: "'d \<Rightarrow> pg_tables option"
  assumes tx: "px_BeginTxFunc X f d = (y, d') \<Longrightarrow>
      (\<exists>msg. y = Inl (PgError ''40001'' msg) \<and> tables d' = tables d) \<or> carried_out tables f d y d'"
    and schema: "px_schema X d = (r, d') \<Longrightarrow> r = None \<and> tables d' = Some (sql_schema (tables d))"
    and dropSchema: "px_dropSchema X d = (r, d') \<Longrightarrow> r = None \<and> tables d' = None"
    and insertPoll: "tables d = Some t \<Longrightarrow> in_int32 p \<Longrightarrow> px_insertPoll X p d = (r, d') \<Longrightarrow>
      r = None \<and> tables d' = Some (sql_insertPoll p t)"
    and selectPoll: "tables d = Some t \<Longrightarrow> in_int32 p \<Longrightarrow> px_selectPoll X p d = (row, d') \<Longrightarrow>
      row = (case poll_tab t p of None \<Rightarrow> Inl PgErrNoRows | Some x \<Rightarrow> Inr x) \<and> tables d' = Some t"
    and updateUserIDs: "tables d = Some t \<Longrightarrow> in_int32 p \<Longrightarrow> px_updateUserIDs X raw p d = (r, d') \<Longrightarrow>
      r = None \<and> tables d' = Some (sql_updateUserIDs raw p t)"
    and insertObject: "tables d = Some t \<Longrightarrow> in_int32 p \<Longrightarrow> poll_tab t p \<noteq> None \<Longrightarrow>
      px_insertObject X p obj d = (r, d') \<Longrightarrow> r = None \<and> tables d' = Some (sql_insertObject p obj t)"
    and existsPoll: "tables d = Some t \<Longrightarrow> in_int32 p \<Longrightarrow> px_existsPoll X p d = (ex, d') \<Longrightarrow>
      ex = Inr (poll_tab t p \<noteq> None) \<and> tables d' = Some t"
    and setStopped: "tables d = Some t \<Longrightarrow> in_int32 p \<Longrightarrow> px_setStopped X p d = (r, d') \<Longrightarrow>
      r = None \<and> tables d' = Some (sql_setStopped p t)"
    and selectObjects: "tables d = Some t \<Longrightarrow> in_int32 p \<Longrightarrow> poll_tab t p \<noteq> None \<Longrightarrow>
      px_selectObjects X p d = (objs, d') \<Longrightarrow>
      (\<exists>rows. objs = Inr (map Inr rows, None) \<and>
        mset rows = mset (if sql_objects p t = [] then [None] else sql_objects p t)) \<and> tables d' = Some t"
    and selectUserIDs: "tables d = Some t \<Longrightarrow> in_int32 p \<Longrightarrow> poll_tab t p = Some (stp, raw0) \<Longrightarrow>
      px_selectUserIDs X p d = (ids, d') \<Longrightarrow> ids = Inr raw0 \<and> tables d' = Some t"
    and deletePoll: "tables d = Some t \<Longrightarrow> in_int32 p \<Longrightarrow> px_deletePoll X p d = (r, d') \<Longrightarrow>
      r = None \<and> tables d' = Some (sql_deletePoll p t)"
    and selectAll: "tables d = Some t \<Longrightarrow> px_selectAll X d = (alls, d') \<Longrightarrow>
      (\<exists>rows. alls = Inr (map Inr rows, None) \<and> distinct (map fst rows) \<and>
        (\<forall>p. map_of rows p = map_option snd (poll_tab t p))) \<and> tables d' = Some t"

text \<open>
  What has to hold during the calls, which no server promises: their context is not canceled
  (\<open>pg_canceled_context_reports_success\<close> says what happens otherwise), and only finitely many attempts fail to be
  serialized, so that the retry loop ends.
\<close>

locale pg_server = pg_sql X tables
  for X :: "'d pgx" and tables :: "'d \<Rightarrow> pg_tables option" +
  fixes conflicts :: "'d \<Rightarrow> nat"
    and ctx_done :: "'d \<Rightarrow> bool"
  assumes ctx: "\<not> ctx_done d"
    and finite_conflicts: "px_BeginTxFunc X f d = (y, d') \<Longrightarrow> conflicts d' < conflicts d \<or> carried_out tables f d y d'"
begin

lemma vote_tx_law:
  assumes d: "tables d = Some t" "tab_inv t" and ok: "in_int32 p" "in_int32 u" "obj \<noteq> []"
    and v: "vote_tx X p u obj d = (y, d')"
  shows "(case y of Inl e \<Rightarrow> verdict_of (Some e) = Some (spec_verdict p u (tab_abs t)) \<and>
        spec_verdict p u (tab_abs t) \<noteq> Accepted \<and> \<not> is_serialization_failure e
      | Inr x \<Rightarrow> spec_verdict p u (tab_abs t) = Accepted \<and>
        (\<exists>t'. tables d' = Some t' \<and> tab_inv t' \<and> tab_abs t' = spec_vote p u obj (tab_abs t)))"
proof -
  obtain row d1 where sel: "px_selectPoll X p d = (row, d1)" by fastforce
  note row = selectPoll [OF d(1) ok(1) sel]
  show ?thesis
  proof (cases "poll_tab t p")
    case None
    with v sel row show ?thesis
      by (auto simp: vote_tx_def verdict_of_def spec_verdict_def tab_abs_def)
  next
    case (Some x)
    then obtain stp raw where x: "poll_tab t p = Some (stp, raw)" by (cases x) auto
    have srt: "id_sorted (pg_ids raw)" using d(2) x by (auto simp: tab_inv_def)
    show ?thesis
    proof (cases "stp \<or> to_int32 u \<in> set (pg_ids raw)")
      case True
      with v sel row x srt ok(2) show ?thesis
        by (cases stp) (auto simp: vote_tx_def verdict_of_def spec_verdict_def tab_abs_def add_present
            sint_image_iff)
    next
      case False
      define raw' where "raw' = userIDList_toBytes (insort_key sint (to_int32 u) (pg_ids raw))"
      obtain r d2 where up: "px_updateUserIDs X raw' p d1 = (r, d2)" by fastforce
      note up' = updateUserIDs [OF conjunct2 [OF row] ok(1) up]
      have "poll_tab (sql_updateUserIDs raw' p t) p \<noteq> None" by (simp add: sql_updateUserIDs_def x)
      moreover obtain r2 d3 where ins: "px_insertObject X p obj d2 = (r2, d3)" by fastforce
      ultimately have ins': "r2 = None" "tables d3 = Some (sql_insertObject p obj (sql_updateUserIDs raw' p t))"
        using insertObject [OF conjunct2 [OF up'] ok(1) _ ins] by auto
      have "y = Inr ([], []) \<and> d' = d3"
        using v sel row x False srt up up' ins ins'(1)
        by (simp add: vote_tx_def add_eq_insort raw'_def)
      with tab_vote [OF d(2), of p raw u obj] x False ok ins'(2) show ?thesis by (simp add: raw'_def)
    qed
  qed
qed

lemma tx_cases:
  assumes "px_BeginTxFunc X f d = (y, d')" "tables d = Some t"
  obtains msg where "y = Inl (PgError ''40001'' msg)" "tables d' = Some t" "conflicts d' < conflicts d"
  | d0 d1 where "tables d0 = Some t" "f d0 = (y, d1)"
      "tables d' = (case y of Inl e \<Rightarrow> Some t | Inr x \<Rightarrow> tables d1)"
  using tx [OF assms(1)] finite_conflicts [OF assms(1)] assms(2) by (auto simp: carried_out_def cong: sum.case_cong)

lemma Vote_law:
  assumes inv: "pg_inv tables d" and ok: "in_int32 p" "in_int32 u" "obj \<noteq> []"
  shows "\<exists>r d'. pg_Vote ctx_done X p u obj d = Some (r, d') \<and>
    verdict_of r = Some (spec_verdict p u (pg_abs tables d)) \<and> pg_inv tables d' \<and>
    pg_abs tables d' = spec_vote p u obj (pg_abs tables d)"
proof -
  from inv obtain t where t: "tables d = Some t" "tab_inv t" "pg_abs tables d = tab_abs t" by (rule pg_invE)
  define post where "post = (\<lambda>(y :: err + bytes list \<times> int list) d'.
    verdict_of (case y of Inl e \<Rightarrow> Some e | Inr _ \<Rightarrow> None) = Some (spec_verdict p u (tab_abs t)) \<and>
    (\<exists>t'. tables d' = Some t' \<and> tab_inv t' \<and> tab_abs t' = spec_vote p u obj (tab_abs t)))"
  have attempt: "(\<exists>e. y = Inl e \<and> is_serialization_failure e \<and> tables d' = Some t \<and> conflicts d' < conflicts d) \<or>
      (post y d' \<and> (\<forall>e. y = Inl e \<longrightarrow> \<not> is_serialization_failure e))"
    if dt: "tables d = Some t" and once: "voteOnce X p u obj d = (y, d')" for d y d'
  proof -
    obtain y0 where tx0: "px_BeginTxFunc X (vote_tx X p u obj) d = (y0, d')"
      and y: "y = (case y0 of Inl e \<Rightarrow> Inl (Wrapped ''running transaction'' e) | Inr x \<Rightarrow> Inr x)"
      using once by (auto simp: voteOnce_def split: prod.splits sum.splits)
    from tx0 dt show ?thesis
    proof (cases rule: tx_cases)
      case 1
      with y show ?thesis by simp
    next
      case (2 d0 d1)
      from vote_tx_law [OF 2(1) t(2) ok 2(2)] 2(3) t(2) y show ?thesis
        by (cases y0) (auto simp: post_def verdict_of_def spec_vote_def split: if_splits)
    qed
  qed
  from retry_returns [of ctx_done "\<lambda>d. tables d = Some t" "voteOnce X p u obj" conflicts post d None "([], [])",
      OF ctx attempt t(1)]
  obtain e out d' where "continueOnTransactionError ctx_done (voteOnce X p u obj) None ([], []) d = Some (e, out, d')"
    "post (case e of None \<Rightarrow> Inr out | Some x \<Rightarrow> Inl x) d'" by blast
  then show ?thesis using t(3)
    by (cases e) (auto simp: pg_Vote_def post_def pg_inv_def pg_abs_def)
qed

lemma stop_tx_law:
  assumes d: "tables d = Some t" "tab_inv t" and ok: "in_int32 p" and v: "stop_tx X p d = (y, d')"
  shows "(case tab_abs t p of
      None \<Rightarrow> \<exists>msg. y = Inl (doesNotExistError msg)
    | Some a \<Rightarrow> (\<exists>res. y = Inr res \<and> stop_result a res) \<and> tables d' = Some (sql_setStopped p t))"
proof -
  obtain ex d1 where ex: "px_existsPoll X p d = (ex, d1)" by fastforce
  note ex' = existsPoll [OF d(1) ok ex]
  show ?thesis
  proof (cases "poll_tab t p")
    case None
    with v ex ex' show ?thesis by (auto simp: stop_tx_def tab_abs_def)
  next
    case (Some x)
    then obtain stp raw where x: "poll_tab t p = Some (stp, raw)" by (cases x) auto
    let ?t = "sql_setStopped p t"
    have x': "poll_tab ?t p = Some (True, raw)" by (simp add: sql_setStopped_def x)
    obtain r d2 where st: "px_setStopped X p d1 = (r, d2)" by fastforce
    note st' = setStopped [OF conjunct2 [OF ex'] ok st]
    obtain objs d3 where so: "px_selectObjects X p d2 = (objs, d3)" by fastforce
    with selectObjects [OF conjunct2 [OF st'] ok _ so] x' obtain rows where
      rows: "objs = Inr (map Inr rows, None)" "mset rows = mset (if sql_objects p t = [] then [None] else sql_objects p t)"
      and d3: "tables d3 = Some ?t" by auto
    obtain ids d4 where su: "px_selectUserIDs X p d3 = (ids, d4)" by fastforce
    note su' = selectUserIDs [OF d3 ok x' su]
    have "y = Inr (present_objects rows, map sint (pg_ids raw)) \<and> d' = d4"
      using v ex ex' st st' so rows(1) su su' x by (simp add: stop_tx_def scan_objects_eq)
    moreover have "mset (present_objects rows) = mset (present_objects (sql_objects p t))"
      using present_objects_mset [OF rows(2)] by (simp split: if_splits)
    moreover have "id_sorted (pg_ids raw)" using d(2) x by (auto simp: tab_inv_def)
    ultimately show ?thesis using x su'
      by (auto simp: tab_abs_def stop_result_def id_sorted_def distinct_map intro: inj_onI signed_word_eqI)
  qed
qed

lemma Stop_law:
  assumes inv: "pg_inv tables d" and ok: "in_int32 p"
  shows "\<exists>r d'. pg_Stop ctx_done X p d = Some (r, d') \<and> pg_inv tables d' \<and>
    (case pg_abs tables d p of
       None \<Rightarrow> (\<exists>e. r = Inl e \<and> err_as is_doesNotExistError e) \<and> pg_abs tables d' = pg_abs tables d
     | Some a \<Rightarrow> (\<exists>res. r = Inr res \<and> stop_result a res) \<and>
         pg_abs tables d' = spec_stop p (pg_abs tables d))"
proof -
  from inv obtain t where t: "tables d = Some t" "tab_inv t" "pg_abs tables d = tab_abs t" by (rule pg_invE)
  define post where "post = (\<lambda>y d'. case tab_abs t p of
       None \<Rightarrow> (\<exists>e. y = Inl e \<and> err_as is_doesNotExistError e) \<and> tables d' = Some t
     | Some a \<Rightarrow> (\<exists>res. y = Inr res \<and> stop_result a res) \<and> tables d' = Some (sql_setStopped p t))"
  have attempt: "(\<exists>e. y = Inl e \<and> is_serialization_failure e \<and> tables d' = Some t \<and> conflicts d' < conflicts d) \<or>
      (post y d' \<and> (\<forall>e. y = Inl e \<longrightarrow> \<not> is_serialization_failure e))"
    if dt: "tables d = Some t" and once: "stopOnce X p d = (y, d')" for d y d'
  proof -
    obtain y0 where tx0: "px_BeginTxFunc X (stop_tx X p) d = (y0, d')"
      and y: "y = (case y0 of Inl e \<Rightarrow> Inl (Wrapped ''running transaction'' e) | Inr x \<Rightarrow> Inr x)"
      using once by (auto simp: stopOnce_def split: prod.splits sum.splits)
    from tx0 dt show ?thesis
    proof (cases rule: tx_cases)
      case 1
      with y show ?thesis by simp
    next
      case (2 d0 d1)
      from stop_tx_law [OF 2(1) t(2) ok 2(2)] 2(3) y show ?thesis
        by (auto simp: post_def split: option.splits)
    qed
  qed
  from retry_returns [of ctx_done "\<lambda>d. tables d = Some t" "stopOnce X p" conflicts post d None "([], [])",
      OF ctx attempt t(1)]
  obtain e out d' where run: "continueOnTransactionError ctx_done (stopOnce X p) None ([], []) d = Some (e, out, d')"
    and post: "post (case e of None \<Rightarrow> Inr out | Some x \<Rightarrow> Inl x) d'" by blast
  from run have "pg_Stop ctx_done X p d = Some ((case e of None \<Rightarrow> Inr out | Some x \<Rightarrow> Inl x), d')"
    by (simp add: pg_Stop_def split: option.split)
  moreover have "pg_inv tables d' \<and> (case tab_abs t p of None \<Rightarrow> pg_abs tables d' = tab_abs t
      | Some a \<Rightarrow> pg_abs tables d' = spec_stop p (tab_abs t))"
    using post t tab_setStopped [OF t(2), of p] pg_invI [of tables d'] by (auto simp: post_def split: option.splits)
  ultimately show ?thesis using post t(3) by (cases out) (auto simp: post_def split: option.splits)
qed

lemma LiveVotes_rows:
  assumes inv: "pg_inv tables d" and "pg_LiveVotes X d = (r, d')"
  obtains t where "tables d = Some t" "tab_inv t" "tables d' = Some t"
    "r = Inr (\<lambda>p. map_option (\<lambda>x. Some (nil_votes (snd x))) (poll_tab t p))"
proof -
  from inv obtain t where t: "tables d = Some t" "tab_inv t" "pg_abs tables d = tab_abs t" by (rule pg_invE)
  obtain alls d1 where sel: "px_selectAll X d = (alls, d1)" by fastforce
  from selectAll [OF t(1) sel] obtain rows where rows: "alls = Inr (map Inr rows, None)" "distinct (map fst rows)"
    "\<And>p. map_of rows p = map_option snd (poll_tab t p)" "tables d1 = Some t" by auto
  have "r = Inr (\<lambda>p. map_option (\<lambda>x. Some (nil_votes (snd x))) (poll_tab t p)) \<and> d' = d1"
    using assms(2) sel rows live_rows_eq [OF rows(2), of Map.empty]
    by (auto simp: pg_LiveVotes_def option.map_comp comp_def)
  with that [of t] t(1,2) rows(4) show thesis by simp
qed

text \<open>The backend does not know who cast which vote: every vote is reported as nil.\<close>

lemma LiveVotes_nil:
  assumes "pg_inv tables d" "pg_LiveVotes X d = (Inr lv, d')" "sub_map lv p u = Some x"
  shows "x = None"
  using assms(1,2)
proof (rule LiveVotes_rows)
  fix t assume "Inr lv = (Inr (\<lambda>p. map_option (\<lambda>x. Some (nil_votes (snd x))) (poll_tab t p)) :: err + live_votes)"
  with assms(3) show ?thesis using nil_votes_nil by (cases x) (auto simp: sub_map_def split: option.splits)
qed

lemma LiveVotes_law:
  assumes inv: "pg_inv tables d" and "pg_LiveVotes X d = (r, d')"
  shows "(\<exists>lv. r = Inr lv \<and> live_result (pg_abs tables d) lv) \<and> pg_inv tables d' \<and> pg_abs tables d' = pg_abs tables d"
  using assms
proof (rule LiveVotes_rows)
  fix t assume t: "tables d = Some t" "tab_inv t" "tables d' = Some t"
    "r = Inr (\<lambda>p. map_option (\<lambda>x. Some (nil_votes (snd x))) (poll_tab t p))"
  have "live_result (tab_abs t) (\<lambda>p. map_option (\<lambda>x. Some (nil_votes (snd x))) (poll_tab t p))"
    unfolding live_result_def
    by (auto simp: sub_map_def voters_of_def tab_abs_def ran_def nil_votes_nil split: option.splits)
  then show ?thesis using t pg_invI [of tables d t] pg_invI [of tables d' t] by simp
qed

end

sublocale pg_server \<subseteq> pgb: backend_contract "pg_backend ctx_done X" "pg_inv tables" "pg_abs tables" in_int32 "\<lambda>_ _ _. True"
proof (unfold_locales, unfold pg_backend_sel, goal_cases)
  case (1 d p r d')
  from 1(1) show ?case
  proof (rule pg_invE)
    fix t assume t: "tables d = Some t" "tab_inv t" "pg_abs tables d = tab_abs t"
    with 1 insertPoll [OF t(1) 1(2)] tab_insertPoll [OF t(2), of p] show ?thesis
      by (auto simp: pg_Start_def pg_inv_def pg_abs_def split: prod.splits option.splits)
  qed
next
  case (2 d p u obj r d')
  with Vote_law [OF 2(1-4)] show ?case by auto
next
  case (3 d p c x d')
  with Stop_law [OF 3(1,2)] show ?case by auto
next
  case (4 d p c a x d')
  with Stop_law [OF 4(1,2)] show ?case by auto
next
  case (5 d p r d')
  from 5(1) show ?case
  proof (rule pg_invE)
    fix t assume t: "tables d = Some t" "tab_inv t" "pg_abs tables d = tab_abs t"
    with 5 deletePoll [OF t(1) 5(2)] tab_deletePoll [OF t(2), of p] show ?thesis
      by (auto simp: pg_Clear_def pg_inv_def pg_abs_def split: prod.splits option.splits)
  qed
next
  case (6 d r d')
  obtain r1 d1 where 1: "px_dropSchema X d = (r1, d1)" by fastforce
  obtain r2 d2 where 2: "px_schema X d1 = (r2, d2)" by fastforce
  from dropSchema [OF 1] schema [OF 2] 6(2) 1 2 show ?case
    by (auto simp: pg_ClearAll_def pg_Migrate_def pg_inv_def pg_abs_def sql_schema_def tab_inv_def
        tab_abs_def sql_objects_def)
next
  case (7 d y d')
  then show ?case by (rule LiveVotes_law)
qed

context pg_server
begin

lemma pg_contract: "backend_contract (pg_backend ctx_done X) (pg_inv tables) (pg_abs tables) in_int32 (\<lambda>_ _ _. True)"
  by (rule pgb.backend_contract_axioms)

text \<open>Histories of a Postgres backend with a server as assumed.\<close>

lemma trace_Vote:
  assumes tr: "backend_trace (pg_backend ctx_done X) in_int32 (\<lambda>_ _ _. True) d0 es d"
    and ini: "pg_inv tables d0" "pg_abs tables d0 = Map.empty" and ok: "in_int32 p" "in_int32 u" "obj \<noteq> []"
  shows "\<exists>r d'. pg_Vote ctx_done X p u obj d = Some (r, d') \<and> verdict_of r = Some (history_verdict p u es)"
proof -
  have "pg_inv tables d" using pgb.trace_matches [OF tr ini] by simp
  from Vote_law [OF this ok] obtain r d' where r: "pg_Vote ctx_done X p u obj d = Some (r, d')" by auto
  with pgb.trace_vote [OF tr ini ok] show ?thesis by (simp add: pg_backend_sel)
qed

lemma trace_Stop:
  assumes tr: "backend_trace (pg_backend ctx_done X) in_int32 (\<lambda>_ _ _. True) d0 es d"
    and ini: "pg_inv tables d0" "pg_abs tables d0 = Map.empty" and ok: "in_int32 p"
  shows "\<exists>r d'. pg_Stop ctx_done X p d = Some (r, d') \<and>
    (case r of
      Inl e \<Rightarrow> \<not> started p es \<and> err_as is_doesNotExistError e
    | Inr (objs, uids) \<Rightarrow> started p es \<and> distinct (map fst (accepted p es)) \<and>
        mset objs = mset (map snd (accepted p es)) \<and> uids = sort (map fst (accepted p es)))"
proof -
  have "pg_inv tables d" using pgb.trace_matches [OF tr ini] by simp
  from Stop_law [OF this ok] obtain r d' where r: "pg_Stop ctx_done X p d = Some (r, d')" by auto
  with pgb.trace_stop [OF tr ini ok, where c = "()"] show ?thesis by (auto simp: pg_backend_sel)
qed

end

end
