(* ===== verification/Postgres_Reference.thy ===== *)
theory Postgres_Reference
  imports Postgres_Backend "HOL-Library.AList"
begin

text \<open>
  A server that satisfies the assumptions of \<open>pg_server\<close>: tables as association lists, and a
  number of serialization failures it still reports before transactions go through. It shows
  that the assumptions can hold, and the properties of the Postgres backend are applied to it.
  Then the properties of the backend, for every server that satisfies the assumptions.
\<close>

record ref_db =
  ref_polls :: "(int \<times> (bool \<times> raw_bytes option)) list option"
  ref_objects :: "(int \<times> bytes option) list"
  ref_conflicts :: nat

definition ref_tables :: "ref_db \<Rightarrow> pg_tables option" where
  "ref_tables d = map_option (\<lambda>ps. \<lparr>poll_tab = map_of ps, objects_tab = ref_objects d\<rparr>) (ref_polls d)"

definition no_schema :: err where
  "no_schema = PgError ''42P01'' ''relation does not exist''"

definition on_polls :: "((int \<times> (bool \<times> raw_bytes option)) list \<Rightarrow> (int \<times> (bool \<times> raw_bytes option)) list)
    \<Rightarrow> ref_db \<Rightarrow> err option \<times> ref_db" where
  "on_polls g d = (case ref_polls d of None \<Rightarrow> (Some no_schema, d)
     | Some ps \<Rightarrow> (None, d\<lparr>ref_polls := Some (g ps)\<rparr>))"

definition read_polls :: "((int \<times> (bool \<times> raw_bytes option)) list \<Rightarrow> ref_db \<Rightarrow> err + 'a) \<Rightarrow> ref_db \<Rightarrow> (err + 'a) \<times> ref_db" where
  "read_polls g d = (case ref_polls d of None \<Rightarrow> (Inl no_schema, d) | Some ps \<Rightarrow> (g ps d, d))"

definition ref_begin ::
  "(ref_db \<Rightarrow> (err + bytes list \<times> int list) \<times> ref_db) \<Rightarrow> ref_db \<Rightarrow> (err + bytes list \<times> int list) \<times> ref_db" where
  "ref_begin f d =
     (if ref_conflicts d = 0
      then (case f d of (Inl e, d') \<Rightarrow> (Inl e, d) | (Inr x, d') \<Rightarrow> (Inr x, d'))
      else (Inl (PgError ''40001'' ''could not serialize access''), d\<lparr>ref_conflicts := ref_conflicts d - 1\<rparr>))"

definition ref_pgx :: "ref_db pgx" where
  "ref_pgx = \<lparr>px_BeginTxFunc = ref_begin,
     px_schema = (\<lambda>d. (None, case ref_polls d of None \<Rightarrow> d\<lparr>ref_polls := Some [], ref_objects := []\<rparr> | Some _ \<Rightarrow> d)),
     px_dropSchema = (\<lambda>d. (None, d\<lparr>ref_polls := None, ref_objects := []\<rparr>)),
     px_insertPoll = (\<lambda>p. on_polls (\<lambda>ps. if map_of ps p = None then (p, (False, None)) # ps else ps)),
     px_selectPoll = (\<lambda>p. read_polls (\<lambda>ps d. case map_of ps p of None \<Rightarrow> Inl PgErrNoRows | Some x \<Rightarrow> Inr x)),
     px_updateUserIDs = (\<lambda>raw p. on_polls (AList.map_entry p (\<lambda>(stp, _). (stp, Some raw)))),
     px_insertObject = (\<lambda>p obj d. (None, d\<lparr>ref_objects := ref_objects d @ [(p, Some obj)]\<rparr>)),
     px_existsPoll = (\<lambda>p. read_polls (\<lambda>ps d. Inr (map_of ps p \<noteq> None))),
     px_setStopped = (\<lambda>p. on_polls (AList.map_entry p (\<lambda>(_, raw). (True, raw)))),
     px_selectObjects = (\<lambda>p. read_polls (\<lambda>ps d. let objs = map snd (filter (\<lambda>(q, _). q = p) (ref_objects d))
        in Inr (map Inr (if objs = [] then [None] else objs), None))),
     px_selectUserIDs = (\<lambda>p. read_polls (\<lambda>ps d. case map_of ps p of None \<Rightarrow> Inl PgErrNoRows | Some (_, raw) \<Rightarrow> Inr raw)),
     px_deletePoll = (\<lambda>p d. (None, d\<lparr>ref_polls := map_option (AList.delete p) (ref_polls d),
        ref_objects := filter (\<lambda>(q, _). q \<noteq> p) (ref_objects d)\<rparr>)),
     px_selectAll = read_polls (\<lambda>ps d. Inr (map Inr (map (\<lambda>(p, x). (p, snd x)) (AList.clearjunk ps)), None))\<rparr>"

lemma ref_tables_Some: "ref_tables d = Some t \<longleftrightarrow>
    (\<exists>ps. ref_polls d = Some ps \<and> t = \<lparr>poll_tab = map_of ps, objects_tab = ref_objects d\<rparr>)"
  by (auto simp: ref_tables_def)

lemma ref_tables_None: "ref_tables d = None \<longleftrightarrow> ref_polls d = None"
  by (auto simp: ref_tables_def)

lemma map_fst_snd: "map (fst \<circ> (\<lambda>(p, x). (p, snd x))) ps = map fst ps"
  by (induction ps) auto

lemma map_of_snd: "map_of (map (\<lambda>(p, x). (p, snd x)) ps) q = map_option snd (map_of ps q)"
  by (induction ps) auto

lemma map_of_map_entry: "map_of (AList.map_entry k f ps) = (map_of ps)(k := map_option f (map_of ps k))"
  by (induction ps) (auto simp: fun_eq_iff)

lemma ref_begin_carried_out:
  assumes "px_BeginTxFunc ref_pgx f d = (y, d')"
  shows "(\<exists>msg. y = Inl (PgError ''40001'' msg)) \<and> ref_tables d' = ref_tables d \<and> ref_conflicts d' < ref_conflicts d \<or>
    carried_out ref_tables f d y d'"
  using assms
  by (auto simp: ref_pgx_def ref_begin_def ref_tables_def carried_out_def split: if_splits prod.splits sum.splits)

interpretation refsql: pg_sql ref_pgx ref_tables
proof (unfold_locales, goal_cases)
  case (1 f d y d')
  then show ?case using ref_begin_carried_out by blast
next
  case (10 d t p objs d')
  then show ?case
    by (auto simp: ref_pgx_def ref_tables_Some read_polls_def sql_objects_def Let_def inj_map_eq_map [OF inj_Inr]
        simp del: map_map split: if_splits)
next
  case (13 d t alls d')
  then show ?case
    by (auto simp: ref_pgx_def ref_tables_Some read_polls_def map_of_snd map_of_clearjunk distinct_clearjunk
        inj_map_eq_map [OF inj_Inr] simp del: map_map)
      (simp add: map_fst_snd distinct_clearjunk)
qed (auto simp: ref_pgx_def ref_tables_Some ref_tables_None map_fst_snd on_polls_def read_polls_def map_of_map_entry
    sql_schema_def sql_insertPoll_def sql_updateUserIDs_def sql_insertObject_def sql_setStopped_def
    sql_objects_def sql_deletePoll_def map_of_snd map_of_clearjunk distinct_clearjunk delete_conv' Let_def
    split: option.splits if_splits)

interpretation refpg: pg_server ref_pgx ref_tables ref_conflicts "\<lambda>_. False"
  by unfold_locales (use ref_begin_carried_out in blast)+

definition empty_tables :: pg_tables where
  "empty_tables = \<lparr>poll_tab = Map.empty, objects_tab = []\<rparr>"

lemma empty_tables_inv: "tables d = Some empty_tables \<Longrightarrow> pg_inv tables d \<and> pg_abs tables d = Map.empty"
  by (auto simp: pg_inv_def pg_abs_def empty_tables_def tab_inv_def tab_abs_def sql_objects_def)

text \<open>
  C13. For every server that satisfies \<open>pg_server\<close> and every history of calls from freshly created
  tables, \<open>Stop\<close> of the Postgres backend returns, in spite of serialization failures; it fails with
  a does-not-exist error exactly when the poll is unknown, and otherwise gives every accepted vote
  object once, in some order, and the sorted ids of their users.
\<close>
theorem pg_stop_returns_accepted:
  assumes server: "pg_server X tables conflicts ctx_done" and "tables d0 = Some empty_tables"
    and "backend_trace (pg_backend ctx_done X) in_int32 (\<lambda>_ _ _. True) d0 es d" and "in_int32 p"
  shows "\<exists>r d'. pg_Stop ctx_done X p d = Some (r, d') \<and>
    (case r of
      Inl e \<Rightarrow> \<not> started p es \<and> err_as is_doesNotExistError e
    | Inr (objs, uids) \<Rightarrow> started p es \<and> distinct (map fst (accepted p es)) \<and>
        mset objs = mset (map snd (accepted p es)) \<and> uids = sort (map fst (accepted p es)))"
  using pg_server.trace_Stop [OF server assms(3) _ _ assms(4)] empty_tables_inv [of tables, OF assms(2)] by blast

text \<open>A concrete history on the reference server, with two serialization failures on the way.\<close>

definition demo_db0 :: ref_db where
  "demo_db0 = \<lparr>ref_polls = Some [], ref_objects = [], ref_conflicts = 2\<rparr>"

definition demo_db :: ref_db where
  "demo_db = \<lparr>ref_polls = Some [(1, (False, Some [5, 0, 0, 0]))], ref_objects = [(1, Some ''Y'')], ref_conflicts = 0\<rparr>"

definition demo_pg_events :: "event list" where
  "demo_pg_events = [EvStart 1, EvVote 1 5 ''Y'' None]"

lemma demo_pg_Vote:
  "pg_Vote (\<lambda>_. False) ref_pgx 1 5 ''Y'' \<lparr>ref_polls = Some [(1, (False, None))], ref_objects = [], ref_conflicts = 2\<rparr>
   = Some (None, demo_db)"
  by code_simp

lemma demo_pg_trace:
  "backend_trace (pg_backend (\<lambda>_. False) ref_pgx) in_int32 (\<lambda>_ _ _. True) demo_db0 demo_pg_events demo_db"
proof -
  let ?d = "\<lparr>ref_polls = Some [(1, (False, None))], ref_objects = [], ref_conflicts = 2\<rparr>"
  have "backend_trace (pg_backend (\<lambda>_. False) ref_pgx) in_int32 (\<lambda>_ _ _. True) demo_db0 ([] @ [EvStart 1]) ?d"
    by (rule backend_trace.start [OF backend_trace.init, where r = None])
      (simp_all add: in_int32_def pg_backend_sel pg_Start_def ref_pgx_def on_polls_def demo_db0_def)
  then have "backend_trace (pg_backend (\<lambda>_. False) ref_pgx) in_int32 (\<lambda>_ _ _. True) demo_db0
      (([] @ [EvStart 1]) @ [EvVote 1 5 ''Y'' None]) demo_db"
    by (rule backend_trace.vote) (simp_all add: in_int32_def pg_backend_sel demo_pg_Vote)
  then show ?thesis by (simp add: demo_pg_events_def)
qed

lemma demo_db0_tables: "ref_tables demo_db0 = Some empty_tables"
  by (simp add: demo_db0_def ref_tables_def empty_tables_def)

theorem pg_stop_returns_accepted_witness:
  "\<exists>objs d'. pg_Stop (\<lambda>_. False) ref_pgx 1 demo_db = Some (Inr (objs, [5]), d') \<and> mset objs = {#''Y''#}"
proof -
  have "in_int32 1" by (simp add: in_int32_def)
  from pg_stop_returns_accepted [OF refpg.pg_server_axioms demo_db0_tables demo_pg_trace this]
  obtain r d' where "pg_Stop (\<lambda>_. False) ref_pgx 1 demo_db = Some (r, d')"
    and "case r of Inl e \<Rightarrow> \<not> started 1 demo_pg_events \<and> err_as is_doesNotExistError e
      | Inr (objs, uids) \<Rightarrow> started 1 demo_pg_events \<and> distinct (map fst (accepted 1 demo_pg_events)) \<and>
        mset objs = mset (map snd (accepted 1 demo_pg_events)) \<and> uids = sort (map fst (accepted 1 demo_pg_events))"
    by blast
  then show ?thesis by (cases r) (auto simp: demo_pg_events_def started_def accepted_def)
qed

text \<open>
  C14. For every server that satisfies \<open>pg_server\<close> and every history of calls from freshly created
  tables, \<open>Vote\<close> of the Postgres backend returns, and the vote is decided by the history: unknown,
  stopped, double vote or accepted.
\<close>
theorem pg_vote_verdict:
  assumes server: "pg_server X tables conflicts ctx_done" and "tables d0 = Some empty_tables"
    and "backend_trace (pg_backend ctx_done X) in_int32 (\<lambda>_ _ _. True) d0 es d"
    and "in_int32 p" "in_int32 u" "obj \<noteq> []"
  shows "\<exists>r d'. pg_Vote ctx_done X p u obj d = Some (r, d') \<and> verdict_of r = Some (history_verdict p u es)"
  using pg_server.trace_Vote [OF server assms(3) _ _ assms(4-6)] empty_tables_inv [of tables, OF assms(2)] by blast

theorem pg_vote_verdict_witness:
  "\<exists>r d'. pg_Vote (\<lambda>_. False) ref_pgx 1 5 ''N'' demo_db = Some (r, d') \<and> verdict_of r = Some AlreadyVoted"
proof -
  have "in_int32 1" "in_int32 5" "''N'' \<noteq> []" by (simp_all add: in_int32_def)
  from pg_vote_verdict [OF refpg.pg_server_axioms demo_db0_tables demo_pg_trace this]
  show ?thesis by (simp add: demo_pg_events_def history_verdict_def started_def closed_def accepted_def)
qed

text \<open>
  C36. When the context of the call is already canceled, the retry loop makes no attempt and
  returns no error: \<open>Vote\<close> reports success for a vote that was not saved, and \<open>Stop\<close> reports success
  with an empty result, whatever the server holds.
\<close>
theorem pg_canceled_context_reports_success:
  assumes "ctx_done d"
  shows "pg_Vote ctx_done X p u obj d = Some (None, d) \<and> pg_Stop ctx_done X p d = Some (Inr ([], []), d)"
  using assms by (simp add: pg_Vote_def pg_Stop_def retry_done)

theorem pg_canceled_context_reports_success_witness:
  "pg_Vote (\<lambda>_. True) ref_pgx 1 6 ''N'' demo_db = Some (None, demo_db) \<and>
   pg_Stop (\<lambda>_. True) ref_pgx 1 demo_db = Some (Inr ([], []), demo_db)"
  by (rule pg_canceled_context_reports_success) simp

text \<open>
  C37. The backend keeps 32 bits of a user id: two ids that agree modulo \<open>2 ^ 32\<close> are the same voter,
  so that after a vote of the one a vote of the other is treated exactly as a second vote of the
  first.
\<close>
theorem pg_vote_user_id_mod_32:
  assumes "u mod 2 ^ 32 = v mod 2 ^ 32"
  shows "pg_Vote ctx_done X p u obj d = pg_Vote ctx_done X p v obj d"
proof -
  have "to_int32 u = to_int32 v"
    unfolding to_int32_def by (rule word_of_int_eq_iff [THEN iffD2]) (use assms in \<open>simp add: take_bit_eq_mod\<close>)
  then have "vote_tx X p u obj d = vote_tx X p v obj d" for d unfolding vote_tx_def by (simp only: \<open>to_int32 u = to_int32 v\<close>)
  then have "vote_tx X p u obj = vote_tx X p v obj" by (rule ext)
  then have "voteOnce X p u obj = voteOnce X p v obj" by (intro ext) (simp add: voteOnce_def)
  then show ?thesis by (simp add: pg_Vote_def)
qed

theorem pg_vote_user_id_mod_32_witness:
  "pg_Vote (\<lambda>_. False) ref_pgx 1 4294967301 ''N'' demo_db = pg_Vote (\<lambda>_. False) ref_pgx 1 5 ''N'' demo_db \<and>
   map_option (verdict_of \<circ> fst) (pg_Vote (\<lambda>_. False) ref_pgx 1 5 ''N'' demo_db) = Some (Some AlreadyVoted)"
proof
  show "pg_Vote (\<lambda>_. False) ref_pgx 1 4294967301 ''N'' demo_db = pg_Vote (\<lambda>_. False) ref_pgx 1 5 ''N'' demo_db"
    by (rule pg_vote_user_id_mod_32) simp
  show "map_option (verdict_of \<circ> fst) (pg_Vote (\<lambda>_. False) ref_pgx 1 5 ''N'' demo_db) = Some (Some AlreadyVoted)"
    by code_simp
qed

end
