(* ===== verification/Redis_Backend.thy ===== *)
theory Redis_Backend
  imports Backend_Spec
begin

text \<open>
  The Redis backend, \<^verbatim>\<open>backend/redis/redis.go\<close>, with its two Lua scripts.

  The Redis server and the client library are not part of the repository: they are the parameter
  \<open>'r redis\<close>, one function for each command the source sends, over an unknown server state \<open>'r\<close>,
  and \<open>rd_script\<close>, which runs a Lua script. The Lua scripts are source code and are translated.
  What the code relies on is the locale \<open>redis_server\<close>: each command acts on the key space as
  the Redis documentation says, and a script runs as one atomic step.
\<close>

record 'r redis =
  rd_SETNX :: "string \<Rightarrow> string \<Rightarrow> 'r \<Rightarrow> (err + int) \<times> 'r"
  rd_SET_XX :: "string \<Rightarrow> string \<Rightarrow> 'r \<Rightarrow> (err + string option) \<times> 'r"
  rd_GET :: "string \<Rightarrow> 'r \<Rightarrow> (err + string option) \<times> 'r"
  rd_DEL :: "string list \<Rightarrow> 'r \<Rightarrow> (err + int) \<times> 'r"
  rd_SADD :: "string \<Rightarrow> string \<Rightarrow> 'r \<Rightarrow> (err + int) \<times> 'r"
  rd_SREM :: "string \<Rightarrow> string \<Rightarrow> 'r \<Rightarrow> (err + int) \<times> 'r"
  rd_SMEMBERS :: "string \<Rightarrow> 'r \<Rightarrow> (err + string list) \<times> 'r"
  rd_HSETNX :: "string \<Rightarrow> string \<Rightarrow> string \<Rightarrow> 'r \<Rightarrow> (err + int) \<times> 'r"
  rd_HGETALL :: "string \<Rightarrow> 'r \<Rightarrow> (err + (string \<times> string) list) \<times> 'r"
  rd_script :: "('r \<Rightarrow> (err + int) \<times> 'r) \<Rightarrow> 'r \<Rightarrow> (err + int) \<times> 'r"

definition keyState :: "int \<Rightarrow> string" where
  "keyState pollID = ''vote_state_'' @ Itoa pollID"

definition keyVote :: "int \<Rightarrow> string" where
  "keyVote pollID = ''vote_data_'' @ Itoa pollID"

definition keyPolls :: string where
  "keyPolls = ''vote_polls''"

definition redis_Start :: "'r redis \<Rightarrow> int \<Rightarrow> 'r \<Rightarrow> err option \<times> 'r" where
  "redis_Start R pollID r =
     (case rd_SETNX R (keyState pollID) ''1'' r of
        (Inl e, r1) \<Rightarrow> (Some (Wrapped ''set state key to 1'' e), r1)
      | (Inr _, r1) \<Rightarrow>
        (case rd_SADD R keyPolls (Itoa pollID) r1 of
           (Inl e, r2) \<Rightarrow> (Some (Wrapped (''add poll ID to '' @ keyPolls) e), r2)
         | (Inr _, r2) \<Rightarrow> (None, r2)))"

text \<open>The Lua script of \<^verbatim>\<open>Vote\<close>: an error of a \<^verbatim>\<open>redis.call\<close> ends the script with that error.\<close>

definition luaVoteScript :: "'r redis \<Rightarrow> string \<Rightarrow> string \<Rightarrow> string \<Rightarrow> string \<Rightarrow> 'r \<Rightarrow> (err + int) \<times> 'r" where
  "luaVoteScript R key1 key2 arg1 arg2 r =
     (case rd_GET R key1 r of
        (Inl e, r1) \<Rightarrow> (Inl e, r1)
      | (Inr None, r1) \<Rightarrow> (Inr 1, r1)
      | (Inr (Some st), r1) \<Rightarrow>
          if st = ''2'' then (Inr 2, r1)
          else case rd_HSETNX R key2 arg1 arg2 r1 of
            (Inl e, r2) \<Rightarrow> (Inl e, r2)
          | (Inr saved, r2) \<Rightarrow> if saved = 0 then (Inr 3, r2) else (Inr 0, r2))"

definition redis_Vote :: "'r redis \<Rightarrow> int \<Rightarrow> int \<Rightarrow> bytes \<Rightarrow> 'r \<Rightarrow> err option \<times> 'r" where
  "redis_Vote R pollID userID obj r =
     (case rd_script R (luaVoteScript R (keyState pollID) (keyVote pollID) (Itoa userID) obj) r of
        (Inl e, r') \<Rightarrow> (Some (Wrapped ''executing luaVoteScript'' e), r')
      | (Inr result, r') \<Rightarrow>
          if result = 1 then (Some (doesNotExistError ''poll is not started''), r')
          else if result = 2 then (Some (stoppedError ''poll is stopped''), r')
          else if result = 3 then (Some (doubleVoteError ''user has voted''), r')
          else (None, r'))"

text \<open>The loop of \<^verbatim>\<open>Stop\<close> over the hash, in the order \<open>ks\<close> in which the map is visited.\<close>

fun stop_loop :: "(string \<rightharpoonup> string) \<Rightarrow> string list \<Rightarrow> bytes list \<Rightarrow> int list \<Rightarrow> err + bytes list \<times> int list" where
  "stop_loop data [] voteObjects userIDs = Inr (voteObjects, userIDs)"
| "stop_loop data (uid # ks) voteObjects userIDs =
     (case data uid of
        None \<Rightarrow> stop_loop data ks voteObjects userIDs
      | Some vote \<Rightarrow>
        (case Atoi uid of
           None \<Rightarrow> Inl (Wrapped (''invalid userID '' @ uid) (plainError ''strconv.Atoi''))
         | Some i \<Rightarrow> stop_loop data ks (voteObjects @ [vote]) (userIDs @ [i])))"

definition redis_Stop :: "'r redis \<Rightarrow> string list \<Rightarrow> int \<Rightarrow> 'r \<Rightarrow> (err + bytes list \<times> int list) \<times> 'r" where
  "redis_Stop R ks pollID r =
     (case rd_SET_XX R (keyState pollID) ''2'' r of
        (Inl e, r1) \<Rightarrow> (Inl (Wrapped (''set key '' @ keyState pollID @ '' to 2'') e), r1)
      | (Inr None, r1) \<Rightarrow> (Inl (doesNotExistError ''poll does not exist''), r1)
      | (Inr (Some _), r1) \<Rightarrow>
        (case rd_HGETALL R (keyVote pollID) r1 of
           (Inl e, r2) \<Rightarrow> (Inl (Wrapped (''getting vote objects from '' @ keyVote pollID) e), r2)
         | (Inr data, r2) \<Rightarrow>
           (case stop_loop (map_of data) ks [] [] of
              Inl e \<Rightarrow> (Inl e, r2)
            | Inr (voteObjects, userIDs) \<Rightarrow> (Inr (voteObjects, sort userIDs), r2))))"

definition redis_Clear :: "'r redis \<Rightarrow> int \<Rightarrow> 'r \<Rightarrow> err option \<times> 'r" where
  "redis_Clear R pollID r =
     (case rd_DEL R [keyVote pollID, keyState pollID] r of
        (Inl e, r1) \<Rightarrow> (Some (Wrapped ''removing keys'' e), r1)
      | (Inr _, r1) \<Rightarrow>
        (case rd_SREM R keyPolls (Itoa pollID) r1 of
           (Inl e, r2) \<Rightarrow> (Some (Wrapped (''remove pollID from '' @ keyPolls) e), r2)
         | (Inr _, r2) \<Rightarrow> (None, r2)))"

fun luaClearAll_loop :: "'r redis \<Rightarrow> string \<Rightarrow> string \<Rightarrow> string list \<Rightarrow> 'r \<Rightarrow> err option \<times> 'r" where
  "luaClearAll_loop R arg1 arg2 [] r = (None, r)"
| "luaClearAll_loop R arg1 arg2 (pollID # ids) r =
     (case rd_DEL R [arg1 @ pollID] r of
        (Inl e, r1) \<Rightarrow> (Some e, r1)
      | (Inr _, r1) \<Rightarrow>
        (case rd_DEL R [arg2 @ pollID] r1 of
           (Inl e, r2) \<Rightarrow> (Some e, r2)
         | (Inr _, r2) \<Rightarrow> luaClearAll_loop R arg1 arg2 ids r2))"

definition luaClearAll :: "'r redis \<Rightarrow> string \<Rightarrow> string \<Rightarrow> string \<Rightarrow> 'r \<Rightarrow> (err + int) \<times> 'r" where
  "luaClearAll R key1 arg1 arg2 r =
     (case rd_SMEMBERS R key1 r of
        (Inl e, r1) \<Rightarrow> (Inl e, r1)
      | (Inr ids, r1) \<Rightarrow>
        (case luaClearAll_loop R arg1 arg2 ids r1 of
           (Some e, r2) \<Rightarrow> (Inl e, r2)
         | (None, r2) \<Rightarrow>
           (case rd_DEL R [key1] r2 of (Inl e, r3) \<Rightarrow> (Inl e, r3) | (Inr _, r3) \<Rightarrow> (Inr 0, r3))))"

text \<open>
  The script's comment names \<^verbatim>\<open>ARGV[1]\<close> the state key pattern; the call passes the pattern of the
  vote data first.
\<close>

definition redis_ClearAll :: "'r redis \<Rightarrow> 'r \<Rightarrow> err option \<times> 'r" where
  "redis_ClearAll R r =
     (case rd_script R (luaClearAll R keyPolls ''vote_data_'' ''vote_state_'') r of
        (Inl e, r') \<Rightarrow> (Some (Wrapped ''removing keys'' e), r')
      | (Inr _, r') \<Rightarrow> (None, r'))"

text \<open>Parsing the user ids of a hash; the order of the visit only decides which bad id is reported.\<close>

fun live_users :: "(string \<times> string) list \<Rightarrow> (int \<rightharpoonup> bytes option) \<Rightarrow> err + (int \<rightharpoonup> bytes option)" where
  "live_users [] m = Inr m"
| "live_users ((uidString, vote) # data) m =
     (case Atoi uidString of
        None \<Rightarrow> Inl (Wrapped (''invalid userID '' @ uidString) (plainError ''strconv.Atoi''))
      | Some userID \<Rightarrow> live_users data (m(userID \<mapsto> Some vote)))"

fun live_polls :: "'r redis \<Rightarrow> int list \<Rightarrow> live_votes \<Rightarrow> 'r \<Rightarrow> (err + live_votes) \<times> 'r" where
  "live_polls R [] out r = (Inr out, r)"
| "live_polls R (pollID # ids) out r =
     (case rd_HGETALL R (keyVote pollID) r of
        (Inl e, r1) \<Rightarrow> (Inl (Wrapped (''getting vote objects from '' @ keyVote pollID) e), r1)
      | (Inr data, r1) \<Rightarrow>
        (case live_users data Map.empty of
           Inl e \<Rightarrow> (Inl e, r1)
         | Inr m \<Rightarrow> live_polls R ids (out(pollID \<mapsto> Some m)) r1))"

text \<open>\<^verbatim>\<open>redis.Ints\<close>: every element has to be a number.\<close>

definition redis_Ints :: "string list \<Rightarrow> int list option" where
  "redis_Ints xs = (if list_all (\<lambda>x. Atoi x \<noteq> None) xs then Some (List.map_filter Atoi xs) else None)"

definition redis_LiveVotes :: "'r redis \<Rightarrow> 'r \<Rightarrow> (err + live_votes) \<times> 'r" where
  "redis_LiveVotes R r =
     (case rd_SMEMBERS R keyPolls r of
        (Inl e, r1) \<Rightarrow> (Inl (Wrapped ''getting all known pollIDs'' e), r1)
      | (Inr members, r1) \<Rightarrow>
        (case redis_Ints members of
           None \<Rightarrow> (Inl (Wrapped ''getting all known pollIDs'' (plainError ''strconv.ParseInt'')), r1)
         | Some pollIDs \<Rightarrow> live_polls R pollIDs Map.empty r1))"

definition redis_backend :: "'r redis \<Rightarrow> ('r, string list) Backend" where
  "redis_backend R = \<lparr>bStart = redis_Start R, bVote = redis_Vote R, bStop = redis_Stop R,
     bClear = redis_Clear R, bClearAll = redis_ClearAll R, bLiveVotes = redis_LiveVotes R\<rparr>"

lemma redis_backend_sel:
  "bStart (redis_backend R) = redis_Start R" "bVote (redis_backend R) = redis_Vote R"
  "bStop (redis_backend R) = redis_Stop R" "bClear (redis_backend R) = redis_Clear R"
  "bClearAll (redis_backend R) = redis_ClearAll R" "bLiveVotes (redis_backend R) = redis_LiveVotes R"
  by (simp_all add: redis_backend_def)

subsection \<open>The key space and its meaning\<close>

datatype rval = RStr string | RHash "string \<rightharpoonup> string" | RSet "string set"

type_synonym keyspace = "string \<rightharpoonup> rval"

definition hash_at :: "keyspace \<Rightarrow> int \<Rightarrow> (string \<rightharpoonup> string)" where
  "hash_at m p = (case m (keyVote p) of Some (RHash H) \<Rightarrow> H | _ \<Rightarrow> Map.empty)"

definition set_at :: "keyspace \<Rightarrow> string set" where
  "set_at m = (case m keyPolls of Some (RSet S) \<Rightarrow> S | _ \<Rightarrow> {})"

definition known :: "keyspace \<Rightarrow> int set" where
  "known m = {p. m (keyState p) \<noteq> None}"

definition poll_ok :: "keyspace \<Rightarrow> int \<Rightarrow> bool" where
  "poll_ok m p \<longleftrightarrow>
     (case m (keyState p) of None \<Rightarrow> m (keyVote p) = None
      | Some v \<Rightarrow> (v = RStr ''1'' \<or> v = RStr ''2'') \<and> in_int64 p \<and>
          (m (keyVote p) = None \<or> m (keyVote p) = Some (RHash (hash_at m p)))) \<and>
     finite (dom (hash_at m p)) \<and> dom (hash_at m p) \<subseteq> Itoa ` Collect in_int64"

definition ks_inv :: "keyspace \<Rightarrow> bool" where
  "ks_inv m \<longleftrightarrow> (\<forall>p. poll_ok m p) \<and> (m keyPolls = None \<or> m keyPolls = Some (RSet (set_at m))) \<and>
     set_at m = Itoa ` known m"

definition ks_abs :: "keyspace \<Rightarrow> store" where
  "ks_abs m p = (case m (keyState p) of None \<Rightarrow> None
     | Some v \<Rightarrow> Some \<lparr>stopped = (v = RStr ''2''), voters = {u. Itoa u \<in> dom (hash_at m p)},
         ballots = vals (hash_at m p)\<rparr>)"

definition ks_order :: "string list \<Rightarrow> int \<Rightarrow> keyspace \<Rightarrow> bool" where
  "ks_order ks p m \<longleftrightarrow> is_order ks (hash_at m p)"

lemma key_simps [simp]:
  "keyState p = keyState q \<longleftrightarrow> p = q" "keyVote p = keyVote q \<longleftrightarrow> p = q"
  "keyState p \<noteq> keyVote q" "keyVote p \<noteq> keyState q"
  "keyState p \<noteq> keyPolls" "keyPolls \<noteq> keyState p" "keyVote p \<noteq> keyPolls" "keyPolls \<noteq> keyVote p"
  by (auto simp: keyState_def keyVote_def keyPolls_def)

lemma hash_at_upd [simp]:
  "hash_at (m(keyState q := x)) p = hash_at m p"
  "hash_at (m(keyPolls := x)) p = hash_at m p"
  "hash_at (m(keyVote q \<mapsto> RHash H)) p = (if p = q then H else hash_at m p)"
  "hash_at (m(keyVote q := None)) p = (if p = q then Map.empty else hash_at m p)"
  by (auto simp: hash_at_def)

lemma set_at_upd [simp]:
  "set_at (m(keyState q := x)) = set_at m" "set_at (m(keyVote q := x)) = set_at m"
  "set_at (m(keyPolls \<mapsto> RSet S)) = S" "set_at (m(keyPolls := None)) = {}"
  by (auto simp: set_at_def)

lemma set_at_if [simp]: "set_at (m(keyPolls := (if A = {} then None else Some (RSet A)))) = A"
  by (simp add: set_at_def)

lemma set_at_None: "m keyPolls = None \<Longrightarrow> set_at m = {}"
  by (simp add: set_at_def)

lemma known_upd [simp]:
  "known (m(keyState q \<mapsto> x)) = insert q (known m)" "known (m(keyState q := None)) = known m - {q}"
  "known (m(keyVote q := y)) = known m" "known (m(keyPolls := y)) = known m"
  by (auto simp: known_def)

lemma ks_inv_poll: "ks_inv m \<Longrightarrow> poll_ok m p"
  by (simp add: ks_inv_def)

lemma ks_unknown: "ks_inv m \<Longrightarrow> m (keyState p) = None \<Longrightarrow> hash_at m p = Map.empty"
  using ks_inv_poll [of m p] by (simp add: poll_ok_def hash_at_def)

lemma ks_start:
  assumes inv: "ks_inv m" and p: "in_int64 p"
  defines "m1 \<equiv> (if m (keyState p) = None then m(keyState p \<mapsto> RStr ''1'') else m)"
  defines "m2 \<equiv> m1(keyPolls \<mapsto> RSet (insert (Itoa p) (set_at m)))"
  shows "ks_inv m2 \<and> ks_abs m2 = spec_start p (ks_abs m)"
proof
  have "poll_ok m2 q" for q
    using ks_inv_poll [OF inv, of q] p by (auto simp: poll_ok_def m2_def m1_def split: option.splits)
  moreover have "known m2 = insert p (known m)" by (auto simp: m2_def m1_def) (auto simp: known_def)
  ultimately show "ks_inv m2" using inv by (simp add: ks_inv_def m2_def)
  have "ks_abs m2 q = spec_start p (ks_abs m) q" for q
    using ks_unknown [OF inv, of p]
    by (cases "q = p") (auto simp: ks_abs_def m2_def m1_def spec_start_def fresh_poll_def split: option.splits)
  then show "ks_abs m2 = spec_start p (ks_abs m)" by auto
qed

lemma ks_vote:
  fixes m :: keyspace and p u :: int and obj :: bytes
  assumes inv: "ks_inv m" and st: "m (keyState p) = Some (RStr st)" "st \<noteq> ''2''"
    and u: "in_int64 u" "Itoa u \<notin> dom (hash_at m p)"
  defines "m' \<equiv> m(keyVote p \<mapsto> RHash ((hash_at m p)(Itoa u \<mapsto> obj)))"
  shows "spec_verdict p u (ks_abs m) = Accepted" and "ks_inv m'" and "ks_abs m' = spec_vote p u obj (ks_abs m)"
proof -
  show acc: "spec_verdict p u (ks_abs m) = Accepted"
    using st u by (simp add: spec_verdict_def ks_abs_def)
  have "poll_ok m' q" for q
    using ks_inv_poll [OF inv, of q] st u by (auto simp: poll_ok_def m'_def split: option.splits)
  then show "ks_inv m'" using inv by (auto simp: ks_inv_def m'_def)
  have "finite (dom (hash_at m p))" using ks_inv_poll [OF inv, of p] by (simp add: poll_ok_def)
  then have "ks_abs m' q = spec_vote p u obj (ks_abs m) q" for q
    using acc st u by (auto simp: ks_abs_def m'_def spec_vote_def add_ballot_def vals_upd cong: option.case_cong)
  then show "ks_abs m' = spec_vote p u obj (ks_abs m)" by auto
qed

lemma ks_stop:
  assumes inv: "ks_inv m" and st: "m (keyState p) = Some v"
  shows "ks_inv (m(keyState p \<mapsto> RStr ''2''))" and "ks_abs (m(keyState p \<mapsto> RStr ''2'')) = spec_stop p (ks_abs m)"
proof -
  have "poll_ok (m(keyState p \<mapsto> RStr ''2'')) q" for q
    using ks_inv_poll [OF inv, of q] st by (auto simp: poll_ok_def split: option.splits)
  moreover have "insert p (known m) = known m" using st by (auto simp: known_def)
  ultimately show "ks_inv (m(keyState p \<mapsto> RStr ''2''))" using inv by (auto simp: ks_inv_def)
  have "ks_abs (m(keyState p \<mapsto> RStr ''2'')) q = spec_stop p (ks_abs m) q" for q
    using st by (auto simp: ks_abs_def spec_stop_def cong: option.case_cong)
  then show "ks_abs (m(keyState p \<mapsto> RStr ''2'')) = spec_stop p (ks_abs m)" by auto
qed

lemma ks_clear:
  assumes inv: "ks_inv m" and m': "m' = (m(keyVote p := None))(keyState p := None)"
    and m'': "(m keyPolls = None \<and> m'' = m') \<or>
      (m'' = m'(keyPolls := (if set_at m - {Itoa p} = {} then None else Some (RSet (set_at m - {Itoa p})))))"
  shows "ks_inv m'' \<and> ks_abs m'' = spec_clear p (ks_abs m)"
proof
  have at: "m'' (keyState q) = (if q = p then None else m (keyState q))"
    "m'' (keyVote q) = (if q = p then None else m (keyVote q))"
    "hash_at m'' q = (if q = p then Map.empty else hash_at m q)" for q
    using m'' by (elim disjE conjE; simp add: m')+
  have kn: "known m'' = known m - {p}" using m'' by (auto simp: m')
  have sm: "set_at m'' = set_at m - {Itoa p}" using m''
    by (elim disjE conjE) (simp_all add: m' set_at_None del: Diff_eq_empty_iff)
  have "Itoa ` (known m - {p}) = Itoa ` known m - {Itoa p}" by auto
  moreover have "poll_ok m'' q" for q
    using ks_inv_poll [OF inv, of q] by (cases "q = p") (simp_all add: poll_ok_def at cong: option.case_cong)
  moreover have "m'' keyPolls = None \<or> m'' keyPolls = Some (RSet (set_at m - {Itoa p}))"
    using m'' by (elim disjE conjE) (simp_all add: m')
  moreover have "set_at m = Itoa ` known m" using inv by (simp add: ks_inv_def)
  ultimately show "ks_inv m''" by (simp add: ks_inv_def kn sm)
  have "ks_abs m'' q = spec_clear p (ks_abs m) q" for q
    by (simp add: ks_abs_def spec_clear_def at cong: option.case_cong)
  then show "ks_abs m'' = spec_clear p (ks_abs m)" by auto
qed

lemma stop_loop_eq:
  assumes "set ks \<subseteq> dom data" "set ks \<subseteq> Itoa ` Collect in_int64"
  shows "stop_loop data ks objs uids =
    Inr (objs @ List.map_filter data ks, uids @ List.map_filter Atoi ks)"
  using assms by (induction ks arbitrary: objs uids) (auto simp: List.map_filter_simps)

lemma map_filter_Atoi:
  assumes "is_order ks data" "dom data \<subseteq> Itoa ` Collect in_int64"
  shows "set (List.map_filter Atoi ks) = {u. Itoa u \<in> dom data}" and "distinct (List.map_filter Atoi ks)"
proof -
  from assms have sub: "set ks \<subseteq> Itoa ` Collect in_int64" "distinct ks" "set ks = dom data"
    by (simp_all add: is_order_def)
  have 1: "set ks = Itoa ` set (List.map_filter Atoi ks)" "distinct ks \<longrightarrow> distinct (List.map_filter Atoi ks)"
    using sub(1) by (induction ks) (auto simp: List.map_filter_simps inj_image_mem_iff [OF injI])
  have "Itoa u \<in> Itoa ` A \<longleftrightarrow> u \<in> A" for u A by auto
  with 1 sub show "set (List.map_filter Atoi ks) = {u. Itoa u \<in> dom data}" "distinct (List.map_filter Atoi ks)"
    by blast+
qed

lemma live_users_eq:
  assumes "distinct (map fst data)" "fst ` set data \<subseteq> Itoa ` Collect in_int64"
  shows "live_users data m = Inr (\<lambda>u. case map_of data (Itoa u) of None \<Rightarrow> m u | Some v \<Rightarrow> Some (Some v))"
  using assms
proof (induction data arbitrary: m)
  case (Cons x data)
  then obtain u v where x: "x = (Itoa u, v)" "in_int64 u" by (cases x) auto
  with Cons.prems have "map_of data (Itoa u) = None" by (simp add: map_of_eq_None_iff)
  with Cons x show ?case by (auto split: option.splits)
qed simp

lemma redis_Ints_eq:
  assumes "set xs \<subseteq> Itoa ` Collect in_int64"
  shows "redis_Ints xs = Some (List.map_filter Atoi xs)" and "Itoa ` set (List.map_filter Atoi xs) = set xs"
proof -
  have "list_all (\<lambda>x. Atoi x \<noteq> None) xs" using assms by (auto simp: list_all_iff)
  then show "redis_Ints xs = Some (List.map_filter Atoi xs)" by (simp add: redis_Ints_def)
  show "Itoa ` set (List.map_filter Atoi xs) = set xs"
    using assms
  proof (induction xs)
    case (Cons x xs)
    then obtain i where "x = Itoa i" "in_int64 i" by auto
    with Cons show ?case by (simp add: List.map_filter_simps)
  qed (simp add: List.map_filter_simps)
qed

lemma ks_empty:
  assumes "\<And>p. m (keyState p) = None" "\<And>p. m (keyVote p) = None" "m keyPolls = None"
  shows "ks_inv m \<and> ks_abs m = Map.empty"
  using assms by (auto simp: ks_inv_def poll_ok_def hash_at_def set_at_def known_def ks_abs_def)

text \<open>The live votes of a key space.\<close>

definition ks_live :: "keyspace \<Rightarrow> int \<Rightarrow> (int \<rightharpoonup> bytes option)" where
  "ks_live m p = (\<lambda>u. map_option Some (hash_at m p (Itoa u)))"

lemma ks_live_result:
  assumes inv: "ks_inv m"
  shows "live_result (ks_abs m) (\<lambda>p. if p \<in> known m then Some (Some (ks_live m p)) else None)"
proof -
  have "obj \<in># vals (hash_at m p)" if "ks_live m p u = Some (Some obj)" for p u obj
    using that ks_inv_poll [OF inv, of p] by (auto simp: ks_live_def poll_ok_def intro: in_vals)
  then show ?thesis
    by (auto simp: live_result_def sub_map_def voters_of_def ballots_of_def ks_abs_def known_def ran_def
        split: option.splits if_splits) (auto simp: ks_live_def)
qed

subsection \<open>The assumptions on the server and the contract\<close>

locale redis_server =
  fixes R :: "'r redis"
    and kv :: "'r \<Rightarrow> keyspace"
  assumes setnx: "rd_SETNX R k v r = (y, r') \<Longrightarrow>
      (\<exists>n. y = Inr n) \<and> kv r' = (if kv r k = None then (kv r)(k \<mapsto> RStr v) else kv r)"
    and set_xx: "rd_SET_XX R k v r = (ys, r') \<Longrightarrow>
      ys = Inr (if kv r k = None then None else Some ''OK'') \<and>
      kv r' = (if kv r k = None then kv r else (kv r)(k \<mapsto> RStr v))"
    and get: "kv r k = None \<or> kv r k = Some (RStr v) \<Longrightarrow> rd_GET R k r = (ys, r') \<Longrightarrow>
      ys = Inr (if kv r k = None then None else Some v) \<and> kv r' = kv r"
    and del: "rd_DEL R ks r = (y, r') \<Longrightarrow> (\<exists>n. y = Inr n) \<and> kv r' = (kv r) |` (- set ks)"
    and sadd: "kv r k = None \<and> S = {} \<or> kv r k = Some (RSet S) \<Longrightarrow> rd_SADD R k x r = (y, r') \<Longrightarrow>
      (\<exists>n. y = Inr n) \<and> kv r' = (kv r)(k \<mapsto> RSet (insert x S))"
    and srem: "kv r k = None \<and> S = {} \<or> kv r k = Some (RSet S) \<Longrightarrow> rd_SREM R k x r = (y, r') \<Longrightarrow>
      (\<exists>n. y = Inr n) \<and> kv r' = (kv r)(k := (if S - {x} = {} then None else Some (RSet (S - {x}))))"
    and smembers: "kv r k = None \<and> S = {} \<or> kv r k = Some (RSet S) \<Longrightarrow> rd_SMEMBERS R k r = (yl, r') \<Longrightarrow>
      (\<exists>xs. yl = Inr xs \<and> distinct xs \<and> set xs = S) \<and> kv r' = kv r"
    and hsetnx: "kv r k = None \<and> H = Map.empty \<or> kv r k = Some (RHash H) \<Longrightarrow> rd_HSETNX R k f v r = (y, r') \<Longrightarrow>
      y = Inr (if f \<in> dom H then 0 else 1) \<and>
      kv r' = (if f \<in> dom H then kv r else (kv r)(k \<mapsto> RHash (H(f \<mapsto> v))))"
    and hgetall: "kv r k = None \<and> H = Map.empty \<or> kv r k = Some (RHash H) \<Longrightarrow> rd_HGETALL R k r = (yh, r') \<Longrightarrow>
      (\<exists>data. yh = Inr data \<and> distinct (map fst data) \<and> map_of data = H) \<and> kv r' = kv r"
    and script: "rd_script R s r = (y, r') \<Longrightarrow>
      (\<exists>r0 r1. kv r0 = kv r \<and> s r0 = (y, r1) \<and> kv r' = kv r1)"
begin

lemma hash_cases:
  assumes "ks_inv (kv r)"
  shows "kv r (keyVote p) = None \<and> hash_at (kv r) p = Map.empty \<or> kv r (keyVote p) = Some (RHash (hash_at (kv r) p))"
  using ks_inv_poll [OF assms, of p] by (auto simp: poll_ok_def hash_at_def split: option.splits)

lemma polls_cases:
  assumes "ks_inv (kv r)"
  shows "kv r keyPolls = None \<and> set_at (kv r) = {} \<or> kv r keyPolls = Some (RSet (set_at (kv r)))"
  using assms by (auto simp: ks_inv_def set_at_def)

lemma Start_law:
  assumes inv: "ks_inv (kv r)" and p: "in_int64 p" and st: "redis_Start R p r = (x, r')"
  shows "x = None \<and> ks_inv (kv r') \<and> ks_abs (kv r') = spec_start p (ks_abs (kv r))"
proof -
  obtain y r1 where 1: "rd_SETNX R (keyState p) ''1'' r = (y, r1)" by fastforce
  note s1 = setnx [OF 1]
  have "kv r1 keyPolls = kv r keyPolls" using s1 by simp
  then have polls: "kv r1 keyPolls = None \<and> set_at (kv r) = {} \<or> kv r1 keyPolls = Some (RSet (set_at (kv r)))"
    using polls_cases [OF inv] by simp
  obtain y2 r2 where 2: "rd_SADD R keyPolls (Itoa p) r1 = (y2, r2)" by fastforce
  note s2 = conjunct1 [OF sadd [OF polls 2]] conjunct2 [OF sadd [OF polls 2]]
  obtain n1 n2 where "y = Inr n1" "y2 = Inr n2" using s1 s2(1) by blast
  with st 1 2 have "x = None" "r' = r2" by (simp_all add: redis_Start_def)
  with ks_start [OF inv p] s1 s2(2) show ?thesis by simp
qed

lemma Vote_effect:
  assumes st: "kv r (keyState p) = None \<or> kv r (keyState p) = Some (RStr st)"
    and H: "kv r (keyVote p) = None \<and> H = Map.empty \<or> kv r (keyVote p) = Some (RHash H)"
    and v: "redis_Vote R p u obj r = (x, r')"
  shows "if kv r (keyState p) = None then x = Some (doesNotExistError ''poll is not started'') \<and> kv r' = kv r
    else if st = ''2'' then x = Some (stoppedError ''poll is stopped'') \<and> kv r' = kv r
    else if Itoa u \<in> dom H then x = Some (doubleVoteError ''user has voted'') \<and> kv r' = kv r
    else x = None \<and> kv r' = (kv r)(keyVote p \<mapsto> RHash (H(Itoa u \<mapsto> obj)))"
proof -
  obtain y r2 where sc: "rd_script R (luaVoteScript R (keyState p) (keyVote p) (Itoa u) obj) r = (y, r2)" by fastforce
  from script [OF sc] obtain r0 r1 where r0: "kv r0 = kv r"
    and lua: "luaVoteScript R (keyState p) (keyVote p) (Itoa u) obj r0 = (y, r1)" and r2: "kv r2 = kv r1" by blast
  have r': "r' = r2" using v sc by (auto simp: redis_Vote_def split: sum.splits if_splits)
  obtain g rg where g: "rd_GET R (keyState p) r0 = (g, rg)" by fastforce
  have gs: "g = Inr (if kv r (keyState p) = None then None else Some st)" "kv rg = kv r"
    using get [of r0 "keyState p" st g rg] g st r0 by simp_all
  obtain h rh where h: "rd_HSETNX R (keyVote p) (Itoa u) obj rg = (h, rh)" by fastforce
  have hs: "h = Inr (if Itoa u \<in> dom H then 0 else 1)"
    "kv rh = (if Itoa u \<in> dom H then kv r else (kv r)(keyVote p \<mapsto> RHash (H(Itoa u \<mapsto> obj))))"
    using hsetnx [of rg "keyVote p" H, OF _ h] H gs(2) by simp_all
  show ?thesis
  proof (cases "kv r (keyState p) = None \<or> st = ''2'' \<or> Itoa u \<in> dom H")
    case True
    then have "y = Inr (if kv r (keyState p) = None then 1 else if st = ''2'' then 2 else 3)" "kv r1 = kv r"
      using lua g gs h hs by (auto simp: luaVoteScript_def split: if_splits)
    with True v sc r2 r' show ?thesis by (auto simp: redis_Vote_def split: if_splits)
  next
    case False
    then have "y = Inr 0" "kv r1 = (kv r)(keyVote p \<mapsto> RHash (H(Itoa u \<mapsto> obj)))"
      using lua g gs h hs by (auto simp: luaVoteScript_def split: if_splits)
    with False v sc r2 r' show ?thesis by (simp add: redis_Vote_def)
  qed
qed

lemma Vote_law:
  assumes inv: "ks_inv (kv r)" and ok: "in_int64 p" "in_int64 u" and v: "redis_Vote R p u obj r = (x, r')"
  shows "verdict_of x = Some (spec_verdict p u (ks_abs (kv r))) \<and> ks_inv (kv r') \<and>
    ks_abs (kv r') = spec_vote p u obj (ks_abs (kv r))"
proof (cases "kv r (keyState p)")
  case None
  with Vote_effect [OF _ hash_cases [OF inv] v] inv show ?thesis
    by (simp add: verdict_of_def spec_verdict_def spec_vote_def ks_abs_def)
next
  case (Some s)
  with ks_inv_poll [OF inv, of p] obtain st where st: "kv r (keyState p) = Some (RStr st)" by (auto simp: poll_ok_def)
  note eff = Vote_effect [OF disjI2 [OF st] hash_cases [OF inv] v]
  show ?thesis
  proof (cases "st = ''2'' \<or> Itoa u \<in> dom (hash_at (kv r) p)")
    case True
    with eff st inv show ?thesis
      by (auto simp: verdict_of_def spec_verdict_def spec_vote_def ks_abs_def split: if_splits)
  next
    case False
    with eff st ks_vote(1) [OF inv st, of u] ks_vote(2,3) [OF inv st, where u = u and obj = obj] ok show ?thesis
      by (simp add: verdict_of_def)
  qed
qed

lemma Stop_law:
  assumes inv: "ks_inv (kv r)" and ord: "ks_order ks p (kv r)" and st: "redis_Stop R ks p r = (x, r')"
  shows "case ks_abs (kv r) p of
      None \<Rightarrow> (\<exists>e. x = Inl e \<and> err_as is_doesNotExistError e) \<and> kv r' = kv r
    | Some a \<Rightarrow> (\<exists>res. x = Inr res \<and> stop_result a res) \<and> ks_inv (kv r') \<and>
        ks_abs (kv r') = spec_stop p (ks_abs (kv r))"
proof -
  obtain y r1 where 1: "rd_SET_XX R (keyState p) ''2'' r = (y, r1)" by fastforce
  note s1 = set_xx [OF 1]
  show ?thesis
  proof (cases "kv r (keyState p)")
    case None
    with st 1 s1 show ?thesis by (auto simp: redis_Stop_def ks_abs_def)
  next
    case (Some v)
    let ?m = "(kv r)(keyState p \<mapsto> RStr ''2'')"
    from s1 Some have kv1: "kv r1 = ?m" by simp
    obtain h r2 where h: "rd_HGETALL R (keyVote p) r1 = (h, r2)" by fastforce
    have "kv r1 (keyVote p) = None \<and> hash_at (kv r) p = Map.empty \<or> kv r1 (keyVote p) = Some (RHash (hash_at (kv r) p))"
      using hash_cases [OF inv, of p] kv1 by auto
    from hgetall [OF this h] obtain data where data: "h = Inr data" "map_of data = hash_at (kv r) p"
      and kv2: "kv r2 = ?m" using kv1 by auto
    have dom: "dom (hash_at (kv r) p) \<subseteq> Itoa ` Collect in_int64"
      using ks_inv_poll [OF inv, of p] by (simp add: poll_ok_def)
    have ks: "is_order ks (hash_at (kv r) p)" using ord by (simp add: ks_order_def)
    have "stop_loop (map_of data) ks [] [] = Inr (List.map_filter (hash_at (kv r) p) ks, List.map_filter Atoi ks)"
      using stop_loop_eq [of ks "hash_at (kv r) p" "[]" "[]"] data ks dom by (simp add: is_order_def)
    then have x: "x = Inr (List.map_filter (hash_at (kv r) p) ks, sort (List.map_filter Atoi ks))" "r' = r2"
      using st 1 s1 Some h data by (auto simp: redis_Stop_def)
    have "stop_result \<lparr>stopped = (v = RStr ''2''), voters = {u. Itoa u \<in> dom (hash_at (kv r) p)},
        ballots = vals (hash_at (kv r) p)\<rparr> (List.map_filter (hash_at (kv r) p) ks, sort (List.map_filter Atoi ks))"
      using map_filter_Atoi [OF ks dom] values_mset [OF ks] by (simp add: stop_result_def)
    with x Some kv2 ks_stop [OF inv Some] show ?thesis by (auto simp: ks_abs_def)
  qed
qed

lemma Clear_law:
  assumes inv: "ks_inv (kv r)" and c: "redis_Clear R p r = (x, r')"
  shows "x = None \<and> ks_inv (kv r') \<and> ks_abs (kv r') = spec_clear p (ks_abs (kv r))"
proof -
  obtain y r1 where 1: "rd_DEL R [keyVote p, keyState p] r = (y, r1)" by fastforce
  from del [OF 1] have kv1: "kv r1 = ((kv r)(keyVote p := None))(keyState p := None)"
    by (auto simp: restrict_map_def fun_eq_iff)
  then have "kv r1 keyPolls = kv r keyPolls" by simp
  then have polls: "kv r1 keyPolls = None \<and> set_at (kv r) = {} \<or> kv r1 keyPolls = Some (RSet (set_at (kv r)))"
    using polls_cases [OF inv] by simp
  obtain y2 r2 where 2: "rd_SREM R keyPolls (Itoa p) r1 = (y2, r2)" by fastforce
  note s2 = srem [OF polls 2]
  obtain n1 n2 where "y = Inr n1" "y2 = Inr n2" using del [OF 1] s2 by blast
  with c 1 2 have "x = None" "r' = r2" by (simp_all add: redis_Clear_def)
  with ks_clear [OF inv kv1 disjI2 [OF conjunct2 [OF s2]]] show ?thesis by simp
qed

lemma clear_loop:
  "luaClearAll_loop R a b ids r = (x, r') \<Longrightarrow>
   x = None \<and> kv r' = kv r |` (- ((@) a ` set ids \<union> (@) b ` set ids))"
proof (induction ids arbitrary: r)
  case Nil
  then show ?case by simp
next
  case (Cons i ids)
  obtain y r1 where 1: "rd_DEL R [a @ i] r = (y, r1)" by fastforce
  obtain z r2 where 2: "rd_DEL R [b @ i] r1 = (z, r2)" by fastforce
  obtain n1 n2 where "y = Inr n1" "z = Inr n2" using del [OF 1] del [OF 2] by blast
  with Cons.prems 1 2 have "luaClearAll_loop R a b ids r2 = (x, r')" by simp
  from Cons.IH [OF this] del [OF 1] del [OF 2] show ?case
    by (auto simp: restrict_map_def fun_eq_iff)
qed

lemma ClearAll_effect:
  assumes S: "kv r keyPolls = None \<and> S = {} \<or> kv r keyPolls = Some (RSet S)" and P: "S = Itoa ` P"
    and c: "redis_ClearAll R r = (x, r')"
  shows "x = None \<and> kv r' = kv r |` (- (keyVote ` P \<union> keyState ` P)) |` (- {keyPolls})"
proof -
  obtain y r5 where sc: "rd_script R (luaClearAll R keyPolls ''vote_data_'' ''vote_state_'') r = (y, r5)" by fastforce
  from script [OF sc] obtain r0 r4 where r0: "kv r0 = kv r"
    and lua: "luaClearAll R keyPolls ''vote_data_'' ''vote_state_'' r0 = (y, r4)" and r5: "kv r5 = kv r4" by blast
  obtain yl r1 where 1: "rd_SMEMBERS R keyPolls r0 = (yl, r1)" by fastforce
  from smembers [OF S [folded r0] 1] obtain ids where ids: "yl = Inr ids" "set ids = Itoa ` P"
    and kv1: "kv r1 = kv r" using P r0 by auto
  obtain z r2 where 2: "luaClearAll_loop R ''vote_data_'' ''vote_state_'' ids r1 = (z, r2)" by fastforce
  note s2 = clear_loop [OF 2]
  obtain w r3 where 3: "rd_DEL R [keyPolls] r2 = (w, r3)" by fastforce
  from del [OF 3] obtain n where w: "w = Inr n" and kv3: "kv r3 = kv r2 |` (- {keyPolls})" by auto
  have "y = Inr 0" "r4 = r3" using lua 1 ids(1) 2 s2 3 w by (auto simp: luaClearAll_def)
  with c sc have x: "x = None" "r' = r5" by (simp_all add: redis_ClearAll_def)
  have keys: "(@) ''vote_data_'' ` Itoa ` A = keyVote ` A" "(@) ''vote_state_'' ` Itoa ` A = keyState ` A" for A
    by (auto simp: keyVote_def keyState_def image_image)
  show ?thesis using x conjunct2 [OF s2] r5 \<open>r4 = r3\<close> kv3 kv1 unfolding ids(2) keys by simp
qed

lemma ClearAll_law:
  assumes inv: "ks_inv (kv r)" and c: "redis_ClearAll R r = (x, r')"
  shows "x = None \<and> ks_inv (kv r') \<and> ks_abs (kv r') = Map.empty"
proof -
  have "set_at (kv r) = Itoa ` known (kv r)" using inv by (simp add: ks_inv_def)
  note eff = ClearAll_effect [OF polls_cases [OF inv] this c]
  have "kv r' (keyState p) = None \<and> kv r' (keyVote p) = None" for p
    using ks_inv_poll [OF inv, of p] eff by (auto simp: restrict_map_def known_def poll_ok_def split: option.splits)
  with ks_empty [of "kv r'"] eff show ?thesis by (simp add: restrict_map_def)
qed

lemma live_polls_eq:
  assumes "ks_inv (kv r)"
  shows "\<exists>r'. live_polls R ids out r =
    (Inr (\<lambda>p. if p \<in> set ids then Some (Some (ks_live (kv r) p)) else out p), r') \<and> kv r' = kv r"
  using assms
proof (induction ids arbitrary: out r)
  case Nil
  then show ?case by simp
next
  case (Cons p ids)
  obtain h r1 where h: "rd_HGETALL R (keyVote p) r = (h, r1)" by fastforce
  from hgetall [OF hash_cases [OF Cons.prems, of p] h] obtain data where data: "h = Inr data"
    "distinct (map fst data)" "map_of data = hash_at (kv r) p" and kv1: "kv r1 = kv r" by auto
  have "fst ` set data \<subseteq> Itoa ` Collect in_int64"
    using ks_inv_poll [OF Cons.prems, of p] data by (simp add: poll_ok_def dom_map_of_conv_image_fst [symmetric])
  from live_users_eq [OF data(2) this, of Map.empty] data(3)
  have "live_users data Map.empty = Inr (ks_live (kv r) p)"
    by (auto simp: ks_live_def fun_eq_iff split: option.splits)
  moreover obtain r' where "live_polls R ids (out(p \<mapsto> Some (ks_live (kv r) p))) r1 =
    (Inr (\<lambda>q. if q \<in> set ids then Some (Some (ks_live (kv r) q)) else (out(p \<mapsto> Some (ks_live (kv r) p))) q), r')"
    "kv r' = kv r" using Cons.IH [of r1 "out(p \<mapsto> Some (ks_live (kv r) p))"] Cons.prems unfolding kv1 by blast
  ultimately show ?case using h data(1) by (auto simp: fun_eq_iff)
qed

lemma LiveVotes_law:
  assumes inv: "ks_inv (kv r)" and l: "redis_LiveVotes R r = (y, r')"
  shows "(\<exists>lv. y = Inr lv \<and> live_result (ks_abs (kv r)) lv) \<and> kv r' = kv r"
proof -
  obtain yl r1 where 1: "rd_SMEMBERS R keyPolls r = (yl, r1)" by fastforce
  from smembers [OF polls_cases [OF inv] 1] obtain ids where ids: "yl = Inr ids" "set ids = Itoa ` known (kv r)"
    and kv1: "kv r1 = kv r" using inv by (auto simp: ks_inv_def)
  have "known (kv r) \<subseteq> Collect in_int64"
  proof
    fix p assume "p \<in> known (kv r)"
    with ks_inv_poll [OF inv, of p] show "p \<in> Collect in_int64" by (auto simp: known_def poll_ok_def)
  qed
  then have "set ids \<subseteq> Itoa ` Collect in_int64" using ids(2) by auto
  note ints = redis_Ints_eq [OF this]
  have "Itoa ` set (List.map_filter Atoi ids) = Itoa ` known (kv r)" using ints(2) ids(2) by simp
  then have "set (List.map_filter Atoi ids) = known (kv r)" by (subst (asm) inj_image_eq_iff) (auto intro: injI)
  with live_polls_eq [of r1 "List.map_filter Atoi ids" Map.empty, unfolded kv1, OF inv]
  obtain r2 where "live_polls R (List.map_filter Atoi ids) Map.empty r1 =
    (Inr (\<lambda>p. if p \<in> known (kv r) then Some (Some (ks_live (kv r) p)) else None), r2)" "kv r2 = kv r" by auto
  with l 1 ids(1) ints(1) ks_live_result [OF inv] show ?thesis by (auto simp: redis_LiveVotes_def)
qed

end

sublocale redis_server \<subseteq> rdb: backend_contract "redis_backend R" "\<lambda>r. ks_inv (kv r)" "\<lambda>r. ks_abs (kv r)" in_int64
  "\<lambda>ks p r. ks_order ks p (kv r)"
proof (unfold_locales, unfold redis_backend_sel, goal_cases)
  case 1 then show ?case by (elim Start_law)
next
  case 2 then show ?case by (elim Vote_law)
next
  case 3 from Stop_law [OF 3(1,3,5)] 3 show ?case by simp
next
  case 4 from Stop_law [OF 4(1,3,5)] 4 show ?case by simp
next
  case 5 then show ?case by (elim Clear_law)
next
  case 6 then show ?case by (elim ClearAll_law)
next
  case 7 from LiveVotes_law [OF 7] 7(1) show ?case by simp
qed

context redis_server
begin

lemma redis_contract: "backend_contract (redis_backend R) (\<lambda>r. ks_inv (kv r)) (\<lambda>r. ks_abs (kv r)) in_int64
    (\<lambda>ks p r. ks_order ks p (kv r))"
  by (rule rdb.backend_contract_axioms)

end

end
