(* ===== verification/Redis_Reference.thy ===== *)
theory Redis_Reference
  imports Redis_Backend
begin

text \<open>
  A server that satisfies the assumptions of \<open>redis_server\<close>: a list of keys with their values,
  hashes and sets as lists. It shows that the assumptions can hold. Then the properties of the
  Redis backend, for every server that satisfies the assumptions.
\<close>

datatype ref_val = FStr string | FHash "(string \<times> string) list" | FSet "string list"

type_synonym ref_redis = "(string \<times> ref_val) list"

primrec ref_rval :: "ref_val \<Rightarrow> rval" where
  "ref_rval (FStr v) = RStr v"
| "ref_rval (FHash h) = RHash (map_of h)"
| "ref_rval (FSet xs) = RSet (set xs)"

definition ref_kv :: "ref_redis \<Rightarrow> keyspace" where
  "ref_kv r k = map_option ref_rval (map_of r k)"

definition wrong_type :: err where
  "wrong_type = plainError ''WRONGTYPE''"

definition ref_del :: "string list \<Rightarrow> ref_redis \<Rightarrow> ref_redis" where
  "ref_del ks r = filter (\<lambda>(k, _). k \<notin> set ks) r"

fun dedup_fst :: "(string \<times> 'b) list \<Rightarrow> (string \<times> 'b) list" where
  "dedup_fst [] = []"
| "dedup_fst (x # xs) = x # filter (\<lambda>y. fst y \<noteq> fst x) (dedup_fst xs)"

definition ref_redis :: "ref_redis redis" where
  "ref_redis = \<lparr>
     rd_SETNX = (\<lambda>k v r. if map_of r k = None then (Inr 1, (k, FStr v) # r) else (Inr 0, r)),
     rd_SET_XX = (\<lambda>k v r. if map_of r k = None then (Inr None, r) else (Inr (Some ''OK''), (k, FStr v) # r)),
     rd_GET = (\<lambda>k r. case map_of r k of None \<Rightarrow> (Inr None, r) | Some (FStr v) \<Rightarrow> (Inr (Some v), r)
                | _ \<Rightarrow> (Inl wrong_type, r)),
     rd_DEL = (\<lambda>ks r. (Inr 0, ref_del ks r)),
     rd_SADD = (\<lambda>k x r. case map_of r k of None \<Rightarrow> (Inr 1, (k, FSet [x]) # r)
                | Some (FSet xs) \<Rightarrow> (Inr 1, (k, FSet (x # xs)) # r) | _ \<Rightarrow> (Inl wrong_type, r)),
     rd_SREM = (\<lambda>k x r. case map_of r k of None \<Rightarrow> (Inr 0, r)
                | Some (FSet xs) \<Rightarrow> let ys = removeAll x xs in
                    (Inr 1, if ys = [] then ref_del [k] r else (k, FSet ys) # r)
                | _ \<Rightarrow> (Inl wrong_type, r)),
     rd_SMEMBERS = (\<lambda>k r. case map_of r k of None \<Rightarrow> (Inr [], r) | Some (FSet xs) \<Rightarrow> (Inr (remdups xs), r)
                | _ \<Rightarrow> (Inl wrong_type, r)),
     rd_HSETNX = (\<lambda>k f v r. case map_of r k of None \<Rightarrow> (Inr 1, (k, FHash [(f, v)]) # r)
                | Some (FHash h) \<Rightarrow> if map_of h f = None then (Inr 1, (k, FHash ((f, v) # h)) # r) else (Inr 0, r)
                | _ \<Rightarrow> (Inl wrong_type, r)),
     rd_HGETALL = (\<lambda>k r. case map_of r k of None \<Rightarrow> (Inr [], r) | Some (FHash h) \<Rightarrow> (Inr (dedup_fst h), r)
                | _ \<Rightarrow> (Inl wrong_type, r)),
     rd_script = (\<lambda>s r. s r)\<rparr>"

lemma dedup_fst_distinct [simp]: "distinct (map fst (dedup_fst xs))"
  by (induction xs) (auto simp: distinct_map inj_on_def)

lemma map_of_filter_neq: "map_of (filter (\<lambda>y. fst y \<noteq> k) xs) q = (if q = k then None else map_of xs q)"
  by (induction xs) auto

lemma dedup_fst_map_of [simp]: "map_of (dedup_fst xs) = map_of xs"
  by (induction xs) (auto simp: fun_eq_iff map_of_filter_neq)

lemma ref_kv_Cons [simp]: "ref_kv ((k, v) # r) = (ref_kv r)(k \<mapsto> ref_rval v)"
  by (auto simp: ref_kv_def)

lemma ref_kv_del [simp]: "ref_kv (ref_del ks r) = ref_kv r |` (- set ks)"
proof
  fix k
  have "map_of (filter (\<lambda>(k, _). k \<notin> set ks) r) k = (if k \<in> set ks then None else map_of r k)"
    by (induction r) auto
  then show "ref_kv (ref_del ks r) k = (ref_kv r |` (- set ks)) k"
    by (simp add: ref_kv_def ref_del_def restrict_map_def)
qed

lemma ref_kv_None [simp]: "ref_kv r k = None \<longleftrightarrow> map_of r k = None"
  by (simp add: ref_kv_def)

lemma ref_kv_Some:
  "ref_kv r k = Some (RStr v) \<longleftrightarrow> map_of r k = Some (FStr v)"
  "ref_kv r k = Some (RHash H) \<longleftrightarrow> (\<exists>h. map_of r k = Some (FHash h) \<and> H = map_of h)"
  "ref_kv r k = Some (RSet S) \<longleftrightarrow> (\<exists>xs. map_of r k = Some (FSet xs) \<and> S = set xs)"
proof -
  have "ref_rval x = RStr v \<longleftrightarrow> x = FStr v" "ref_rval x = RHash H \<longleftrightarrow> (\<exists>h. x = FHash h \<and> H = map_of h)"
    "ref_rval x = RSet S \<longleftrightarrow> (\<exists>xs. x = FSet xs \<and> S = set xs)" for x by (cases x; auto)+
  then show "ref_kv r k = Some (RStr v) \<longleftrightarrow> map_of r k = Some (FStr v)"
    "ref_kv r k = Some (RHash H) \<longleftrightarrow> (\<exists>h. map_of r k = Some (FHash h) \<and> H = map_of h)"
    "ref_kv r k = Some (RSet S) \<longleftrightarrow> (\<exists>xs. map_of r k = Some (FSet xs) \<and> S = set xs)"
    by (auto simp: ref_kv_def)
qed

interpretation refrd: redis_server ref_redis ref_kv
proof (unfold_locales, goal_cases)
  case (6 r k S x y r')
  have empty: "removeAll x xs = [] \<longleftrightarrow> set xs - {x} = {}" for xs :: "string list"
    by (metis set_empty set_removeAll)
  from 6 show ?case
    by (elim disjE conjE) (auto simp: ref_redis_def ref_kv_Some Let_def empty restrict_complement_singleton_eq
        simp del: Diff_eq_empty_iff split: if_splits)
next
  case (8 r k H f v y r')
  then show ?case by (elim disjE conjE) (auto simp: ref_redis_def ref_kv_Some split: if_splits)
qed (auto simp: ref_redis_def ref_kv_Some split: if_splits option.splits)

text \<open>A key space without keys of the vote service; it may hold keys of others.\<close>

definition ks_fresh :: "keyspace \<Rightarrow> bool" where
  "ks_fresh m \<longleftrightarrow> (\<forall>p. m (keyState p) = None \<and> m (keyVote p) = None) \<and> m keyPolls = None"

lemma ks_fresh_inv: "ks_fresh m \<Longrightarrow> ks_inv m \<and> ks_abs m = Map.empty"
  by (rule ks_empty) (simp_all add: ks_fresh_def)

text \<open>
  For every server that satisfies \<open>redis_server\<close> and every history of calls from a key space
  without vote keys, \<open>Stop\<close> of the Redis backend fails with a does-not-exist error exactly when the
  poll is unknown, and otherwise gives every accepted vote object once, in some order, and the
  sorted ids of their users. The order in which the Go map of votes is visited does not matter.
\<close>
theorem redis_stop_returns_accepted:
  assumes server: "redis_server R kv" and "ks_fresh (kv r0)"
    and "backend_trace (redis_backend R) in_int64 (\<lambda>ks p r. ks_order ks p (kv r)) r0 es r"
    and "in_int64 p" "ks_order ks p (kv r)"
  shows "case fst (redis_Stop R ks p r) of
      Inl e \<Rightarrow> \<not> started p es \<and> err_as is_doesNotExistError e
    | Inr (objs, uids) \<Rightarrow> started p es \<and> distinct (map fst (accepted p es)) \<and>
        mset objs = mset (map snd (accepted p es)) \<and> uids = sort (map fst (accepted p es))"
  using backend_contract.trace_stop [OF redis_server.redis_contract [OF server] assms(3) _ _ assms(4,5)]
    ks_fresh_inv [OF assms(2)] by (simp add: redis_backend_sel)

definition demo_redis :: ref_redis where
  "demo_redis = [(''vote_data_1'', FHash [(''5'', ''Y'')]), (''vote_polls'', FSet [''1'']), (''vote_state_1'', FStr ''1'')]"

definition demo_redis_events :: "event list" where
  "demo_redis_events = [EvStart 1, EvVote 1 5 ''Y'' None]"

lemma demo_redis_ops:
  "redis_Start ref_redis 1 [] = (None, [(''vote_polls'', FSet [''1'']), (''vote_state_1'', FStr ''1'')])"
  "redis_Vote ref_redis 1 5 ''Y'' [(''vote_polls'', FSet [''1'']), (''vote_state_1'', FStr ''1'')] = (None, demo_redis)"
  by code_simp+

lemma demo_redis_trace:
  "backend_trace (redis_backend ref_redis) in_int64 (\<lambda>ks p r. ks_order ks p (ref_kv r)) [] demo_redis_events demo_redis"
proof -
  let ?r = "[(''vote_polls'', FSet [''1'']), (''vote_state_1'', FStr ''1'')]"
  have "backend_trace (redis_backend ref_redis) in_int64 (\<lambda>ks p r. ks_order ks p (ref_kv r)) [] ([] @ [EvStart 1]) ?r"
    by (rule backend_trace.start [OF backend_trace.init])
      (simp_all add: in_int64_def redis_backend_sel demo_redis_ops)
  then have "backend_trace (redis_backend ref_redis) in_int64 (\<lambda>ks p r. ks_order ks p (ref_kv r)) []
      (([] @ [EvStart 1]) @ [EvVote 1 5 ''Y'' None]) demo_redis"
    by (rule backend_trace.vote) (simp_all add: in_int64_def redis_backend_sel demo_redis_ops)
  then show ?thesis by (simp add: demo_redis_events_def)
qed

lemma demo_redis_fresh: "ks_fresh (ref_kv [])"
  by (simp add: ks_fresh_def)

lemma demo_redis_order: "ks_order [''5''] 1 (ref_kv demo_redis)"
proof -
  have "keyVote 1 = ''vote_data_1''" by code_simp
  then show ?thesis by (simp add: ks_order_def hash_at_def demo_redis_def is_order_def)
qed

theorem redis_stop_returns_accepted_witness:
  "\<exists>r'. redis_Stop ref_redis [''5''] 1 demo_redis = (Inr ([''Y''], [5]), r') \<and>
   started 1 demo_redis_events \<and> mset [''Y''] = mset (map snd (accepted 1 demo_redis_events))"
proof -
  have 1: "in_int64 1" by (simp add: in_int64_def)
  have "fst (redis_Stop ref_redis [''5''] 1 demo_redis) = Inr ([''Y''], [5])" by code_simp
  with redis_stop_returns_accepted [OF refrd.redis_server_axioms demo_redis_fresh demo_redis_trace 1 demo_redis_order]
  show ?thesis by (cases "redis_Stop ref_redis [''5''] 1 demo_redis") simp
qed

text \<open>
  For every server that satisfies \<open>redis_server\<close> and every history of calls from a key space
  without vote keys, a vote to the Redis backend, decided by the Lua script, is refused or accepted
  as the history says: unknown, stopped, double vote or accepted.
\<close>
theorem redis_vote_verdict:
  assumes server: "redis_server R kv" and "ks_fresh (kv r0)"
    and "backend_trace (redis_backend R) in_int64 (\<lambda>ks p r. ks_order ks p (kv r)) r0 es r"
    and "in_int64 p" "in_int64 u" "obj \<noteq> []"
  shows "verdict_of (fst (redis_Vote R p u obj r)) = Some (history_verdict p u es)"
  using backend_contract.trace_vote [OF redis_server.redis_contract [OF server] assms(3) _ _ assms(4-6)]
    ks_fresh_inv [OF assms(2)] by (simp add: redis_backend_sel)

theorem redis_vote_verdict_witness:
  "verdict_of (fst (redis_Vote ref_redis 1 5 ''N'' demo_redis)) = Some AlreadyVoted"
proof -
  have "in_int64 1" "in_int64 5" "''N'' \<noteq> []" by (simp_all add: in_int64_def)
  from redis_vote_verdict [OF refrd.redis_server_axioms demo_redis_fresh demo_redis_trace this]
  show ?thesis by (simp add: demo_redis_events_def history_verdict_def started_def closed_def accepted_def)
qed

end
