(* ===== verification/Deployment.thy ===== *)
theory Deployment
  imports Service_Contract Memory_Backend Postgres_Reference Redis_Reference
begin

text \<open>
  The service as it is deployed: Redis as the fast and Postgres as the long backend. The locale
  \<open>production\<close> puts the assumptions on the two servers together; the service contract follows, and it
  is interpreted on the reference servers. The locale \<open>single_instance\<close> does the same for the other
  configuration of \<^verbatim>\<open>backend.Build\<close>, in which the memory backend takes the place of Redis.
\<close>

text \<open>The configuration of a poll may change, but it stays on its backend.\<close>

definition stable_backend :: "('w \<Rightarrow> 'd fetch) \<Rightarrow> (int \<Rightarrow> bool) \<Rightarrow> bool" where
  "stable_backend dsq on_fast \<longleftrightarrow>
     (\<forall>w p. ds_poll_err (dsq w) p = None \<longrightarrow> (poll_Backend (ds_poll (dsq w) p) = ''fast'') = on_fast p)"

locale production = redis_server R kv + pg_server X tables conflicts ctx_done
  for R :: "'r redis" and kv :: "'r \<Rightarrow> keyspace"
    and X :: "'p pgx" and tables :: "'p \<Rightarrow> pg_tables option" and conflicts :: "'p \<Rightarrow> nat" and ctx_done :: "'p \<Rightarrow> bool" +
  fixes D :: "('r, string list, 'p, unit, 'w, 'd) deps" and on_fast :: "int \<Rightarrow> bool"
  assumes fast_redis: "fast D = redis_backend R"
    and long_postgres: "long D = pg_backend ctx_done X"
    and stable: "stable_backend (ds D) on_fast"

sublocale production \<subseteq> svc: vote_service D "\<lambda>r. ks_inv (kv r)" "\<lambda>r. ks_abs (kv r)" in_int64
  "\<lambda>ks p r. ks_order ks p (kv r)" "pg_inv tables" "pg_abs tables" in_int32 "\<lambda>_ _ _. True" on_fast
  using redis_contract pg_contract stable
  by (simp add: vote_service_def vote_service_axioms_def fast_redis long_postgres stable_backend_def)

context production
begin

lemma service: "vote_service D (\<lambda>r. ks_inv (kv r)) (\<lambda>r. ks_abs (kv r)) in_int64 (\<lambda>ks p r. ks_order ks p (kv r))
    (pg_inv tables) (pg_abs tables) in_int32 (\<lambda>_ _ _. True) on_fast"
  by (rule svc.vote_service_axioms)

lemma fresh_start:
  assumes "ks_fresh (kv r0)" "tables d0 = Some empty_tables" "vote_New D r0 d0 w0 = Inr v0"
  shows "svc.sinv v0" and "svc.cstate v0 = Map.empty" and "live_ok (svc.cstate v0) (liveVotes v0)"
proof -
  from ks_fresh_inv [OF assms(1)] empty_tables_inv [of tables, OF assms(2)]
  obtain v where "vote_New D r0 d0 w0 = Inr v" "svc.sinv v" "live_ok (svc.cstate v) (liveVotes v)"
    "\<And>p. svc.cstate v p = None" by (auto intro: svc.New_ok [of r0 d0 w0])
  then show "svc.sinv v0" and "svc.cstate v0 = Map.empty" and "live_ok (svc.cstate v0) (liveVotes v0)"
    using assms(3) by (auto simp: fun_eq_iff)
qed

end

text \<open>With \<^verbatim>\<open>VOTE_SINGLE_INSTANCE\<close> the fast backend is in memory; the long one is still Postgres.\<close>

locale single_instance = pg_server X tables conflicts ctx_done
  for X :: "'p pgx" and tables :: "'p \<Rightarrow> pg_tables option" and conflicts :: "'p \<Rightarrow> nat" and ctx_done :: "'p \<Rightarrow> bool" +
  fixes D :: "(memory, int list \<times> int list, 'p, unit, 'w, 'd) deps" and on_fast :: "int \<Rightarrow> bool"
  assumes fast_memory: "fast D = memory_backend"
    and long_postgres: "long D = pg_backend ctx_done X"
    and stable: "stable_backend (ds D) on_fast"

sublocale single_instance \<subseteq> svc: vote_service D memory_inv memory_abs "\<lambda>_. True" memory_order
  "pg_inv tables" "pg_abs tables" in_int32 "\<lambda>_ _ _. True" on_fast
  using mem.backend_contract_axioms pg_contract stable
  by (simp add: vote_service_def vote_service_axioms_def fast_memory long_postgres stable_backend_def)

context single_instance
begin

lemma fresh_start:
  assumes "tables d0 = Some empty_tables" "vote_New D memory_New d0 w0 = Inr v0"
  shows "svc.sinv v0" and "svc.cstate v0 = Map.empty" and "live_ok (svc.cstate v0) (liveVotes v0)"
proof -
  from empty_tables_inv [of tables, OF assms(1)]
  obtain v where "vote_New D memory_New d0 w0 = Inr v" "svc.sinv v" "live_ok (svc.cstate v) (liveVotes v)"
    "\<And>p. svc.cstate v p = None" by (auto intro: svc.New_ok [of memory_New d0 w0])
  then show "svc.sinv v0" and "svc.cstate v0 = Map.empty" and "live_ok (svc.cstate v0) (liveVotes v0)"
    using assms(2) by (auto simp: fun_eq_iff)
qed

end

text \<open>The answer to an authorized vote, as the history says.\<close>

definition authorized_vote :: "('f, 'fo, 'l, 'lo, 'w, 'd) deps \<Rightarrow> int list \<Rightarrow> int \<Rightarrow> int \<Rightarrow> string \<Rightarrow> ballot \<Rightarrow> ('f, 'l, 'w) Vote \<Rightarrow> bool" where
  "authorized_vote D ks p ru body b v \<longleftrightarrow>
     (let f = ds D (flow v); poll = ds_poll f p in
      readable f \<and> ds_poll_err f p = None \<and> decode_ballot body = Inr b \<and> value_order (BallotValue b) ks \<and>
      int (card (set (poll_OptionIDs poll))) * max_per_option poll < 2 ^ 63 \<and>
      may_cast f poll (vote_user b ru) ru \<and> ballot_fits poll (BallotValue b))"

lemma authorized_prepare:
  assumes "authorized_vote D ks p ru body b v"
  shows "vote_prepare (decimal D) (ds D (flow v)) ks p ru body = Inr (ds_poll (ds D (flow v)) p, vote_user b ru,
    stored_object (decimal D) (ds D (flow v)) (ds_poll (ds D (flow v)) p) ru b)"
proof -
  from assms have a: "readable (ds D (flow v))" "ds_poll_err (ds D (flow v)) p = None" "decode_ballot body = Inr b"
      "may_cast (ds D (flow v)) (ds_poll (ds D (flow v)) p) (vote_user b ru) ru"
    and "validate (ds_poll (ds D (flow v)) p) (BallotValue b) ks = []"
    using validate_iff_fits by (auto simp: authorized_vote_def Let_def)
  then show ?thesis by (rule vote_prepare_readable)
qed

context production
begin

lemma authorized_answer:
  assumes "ks_fresh (kv r0)" "tables d0 = Some empty_tables" "vote_New D r0 d0 w0 = Inr v0"
    and tr: "service_trace D (\<lambda>p. in_int64 p \<and> in_int32 p) (\<lambda>ks p r. ks_order ks p (kv r)) (\<lambda>_ _ _. True) v0 es v"
    and "in_int32 p" "in_int32 (vote_user b ru)" and auth: "authorized_vote D ks p ru body b v"
  shows "fst (vote_Vote D ks p ru body v) = vote_answer (history_verdict p (vote_user b ru) es)"
  by (rule svc.trace_Vote [OF tr fresh_start [OF assms(1-3)] _ _ _ _ authorized_prepare [OF auth]])
    (use assms in_int32_in_int64 in auto)

end

subsection \<open>Reference data\<close>

definition demo_decimal :: "int decimal" where
  "demo_decimal = \<lparr>dec_zero = 0, dec_IsZero = (\<lambda>w. w = 0), dec_NewFromInt = (\<lambda>i. i),
     dec_StringFixed = (\<lambda>w n. Itoa w @ ''.'' @ replicate (nat n) CHR ''0'')\<rparr>"

text \<open>
  Meeting 7 with the users 1 and 2 (meeting users 11 and 12) in the group 5; user 1 is present, user 2
  has delegated his vote to user 1. Poll 1 is on the fast, every other on the long backend.
\<close>

fun demo_ints :: "ds_key \<Rightarrow> int list" where
  "demo_ints (User_MeetingUserIDs u) = (if u = 1 \<or> u = 2 then [u + 10] else [])"
| "demo_ints (User_IsPresentInMeetingIDs u) = (if u = 1 then [7] else [])"
| "demo_ints (MeetingUser_GroupIDs mu) = [5]"
| "demo_ints (Group_MeetingUserIDs g) = [11, 12]"
| "demo_ints (MeetingUser_VoteDelegationsFromIDs mu) = (if mu = 11 then [12] else [])"
| "demo_ints k = []"

fun demo_int :: "ds_key \<Rightarrow> int" where
  "demo_int (MeetingUser_MeetingID mu) = 7"
| "demo_int (MeetingUser_UserID mu) = mu - 10"
| "demo_int k = 0"

definition demo_fetch :: "string \<Rightarrow> int fetch" where
  "demo_fetch typ = \<lparr>ds_bool = (\<lambda>k. k = Meeting_UsersEnableVoteDelegations 7), ds_int = demo_int, ds_ints = demo_ints,
     ds_maybe = (\<lambda>k. if k = MeetingUser_VoteDelegatedToID 12 then Some 11 else None), ds_decimal = (\<lambda>_. 0),
     ds_poll = (\<lambda>p. demo_poll\<lparr>poll_Type := typ, poll_Backend := if p = 1 then ''fast'' else ''long''\<rparr>),
     ds_err = (\<lambda>_. None), ds_poll_err = (\<lambda>_. None), ds_Execute = (\<lambda>_. None)\<rparr>"

definition demo_deps :: "(ref_redis, string list, ref_db, unit, string, int) deps" where
  "demo_deps = \<lparr>fast = redis_backend ref_redis, long = pg_backend (\<lambda>_. False) ref_pgx, ds = demo_fetch,
     Reset = None, decimal = demo_decimal\<rparr>"

definition demo_memory_deps :: "(memory, int list \<times> int list, memory, int list \<times> int list, string, int) deps" where
  "demo_memory_deps = \<lparr>fast = memory_backend, long = memory_backend, ds = demo_fetch,
     Reset = None, decimal = demo_decimal\<rparr>"

definition demo_single_deps :: "(memory, int list \<times> int list, ref_db, unit, string, int) deps" where
  "demo_single_deps = \<lparr>fast = memory_backend, long = pg_backend (\<lambda>_. False) ref_pgx, ds = demo_fetch,
     Reset = None, decimal = demo_decimal\<rparr>"

lemma demo_stable: "stable_backend demo_fetch (\<lambda>p. p = 1)"
  by (simp add: stable_backend_def demo_fetch_def)

interpretation refprod: production ref_redis ref_kv ref_pgx ref_tables ref_conflicts "\<lambda>_. False" demo_deps "\<lambda>p. p = 1"
  by unfold_locales (simp_all add: demo_deps_def demo_stable)

interpretation refsingle: single_instance ref_pgx ref_tables ref_conflicts "\<lambda>_. False" demo_single_deps "\<lambda>p. p = 1"
  by unfold_locales (simp_all add: demo_single_deps_def demo_stable)

interpretation memsvc: vote_service demo_memory_deps memory_inv memory_abs "\<lambda>_. True" memory_order
  memory_inv memory_abs "\<lambda>_. True" memory_order "\<lambda>p. p = 1"
  using mem.backend_contract_axioms demo_stable
  by (simp add: vote_service_def vote_service_axioms_def demo_memory_deps_def stable_backend_def)

end
