(* ===== verification/Vote_Properties.thy ===== *)
theory Vote_Properties
  imports Deployment
begin

text \<open>
  The properties of the service: who can cast a vote and what is stored, the answers after any
  history of requests that one instance serves one after the other on the production backends, and
  what the live votes show.
\<close>

text \<open>
  C3. No vote without authorization, for any backends: when a vote request succeeds or changes
  anything, the request user is present in the poll's meeting, the ballot is for a user with a
  meeting user in an entitled group, he votes for himself (unless he has delegated his vote and the
  meeting forbids it) or for somebody who delegated the vote to him, and the ballot fits the poll.
\<close>
theorem vote_requires_authorization:
  assumes vote: "vote_Vote D ks p ru body v = (r, v')" "r = None \<or> v' \<noteq> v"
    and ord: "\<And>b. decode_ballot body = Inr b \<Longrightarrow> value_order (BallotValue b) ks"
    and small: "int (card (set (poll_OptionIDs (ds_poll (ds D (flow v)) p)))) * max_per_option (ds_poll (ds D (flow v)) p) < 2 ^ 63"
  shows "\<exists>b. decode_ballot body = Inr b \<and>
    may_cast (ds D (flow v)) (ds_poll (ds D (flow v)) p) (vote_user b ru) ru \<and>
    ballot_fits (ds_poll (ds D (flow v)) p) (BallotValue b)"
proof (cases "vote_prepare (decimal D) (ds D (flow v)) ks p ru body")
  case (Inl e)
  with vote show ?thesis by (simp add: vote_Vote_rejected)
next
  case (Inr x)
  then obtain poll u bs where "vote_prepare (decimal D) (ds D (flow v)) ks p ru body = Inr (poll, u, bs)"
    by (cases x) auto
  then show ?thesis
  proof (rule vote_prepare_Inr)
    fix b assume b: "poll = ds_poll (ds D (flow v)) p" "decode_ballot body = Inr b" "u = vote_user b ru"
      "may_cast (ds D (flow v)) poll u ru" "validate poll (BallotValue b) ks = []"
    with validate_iff_fits [OF ord [OF b(2)] small] show ?thesis by auto
  qed
qed

definition demo_ballot :: string where
  "demo_ballot = ''{\"user_id\": 2, \"value\": {\"1\": 1}}''"

definition demo_ballot_value :: ballot where
  "demo_ballot_value = \<lparr>UserID = \<lparr>unmarshalled = True, mi_value = 2\<rparr>,
     BallotValue = \<lparr>str = [], optionAmount = Some [1 \<mapsto> 1], optionYNA = None,
       original = Some (JObject [(''1'', JNumber ''1'')])\<rparr>\<rparr>"

lemma demo_decode: "decode_ballot demo_ballot = Inr demo_ballot_value"
proof -
  have 1: "Decoder_Decode demo_ballot =
      Some (JObject [(''user_id'', JNumber ''2''), (''value'', JObject [(''1'', JNumber ''1'')])])" by code_simp
  have "Atoi ''1'' = Some 1" "Atoi ''2'' = Some 2" by code_simp+
  then show ?thesis
    by (simp add: decode_ballot_def 1 field_matches_def to_upper_def Let_def maybeInt_UnmarshalJSON_def
          ballotValue_UnmarshalJSON_def demo_ballot_value_def zero_ballot_def)
qed

lemma demo_order_ballot: "decode_ballot demo_ballot = Inr b \<Longrightarrow> value_order (BallotValue b) [1]"
  by (auto simp: demo_decode demo_ballot_value_def value_order_def is_order_def split: if_splits)

lemma demo_fetch_sel [simp]:
  "ds_poll (demo_fetch t) p = demo_poll\<lparr>poll_Type := t, poll_Backend := if p = 1 then ''fast'' else ''long''\<rparr>"
  "ds_poll_err (demo_fetch t) p = None" "ds_int (demo_fetch t) = demo_int" "ds_ints (demo_fetch t) = demo_ints"
  "ds_bool (demo_fetch t) k = (k = Meeting_UsersEnableVoteDelegations 7)"
  "ds_maybe (demo_fetch t) k = (if k = MeetingUser_VoteDelegatedToID 12 then Some 11 else None)"
  by (simp_all add: demo_fetch_def)

lemma demo_readable: "readable (demo_fetch t)"
  by (simp add: readable_def demo_fetch_def)

lemma demo_small: "int (card (set (poll_OptionIDs (ds_poll (demo_fetch t) p)))) * max_per_option (ds_poll (demo_fetch t) p) < 2 ^ 63"
  by (simp add: demo_poll_def max_per_option_def)

definition demo_start :: "(memory, memory, string) Vote" where
  "demo_start = \<lparr>fastBackend = demo_memory, longBackend = memory_New, flow = ''named'', liveVotes = [1 \<mapsto> Some [5 \<mapsto> None]]\<rparr>"

theorem vote_requires_authorization_witness:
  "fst (vote_Vote demo_memory_deps [1] 1 1 demo_ballot demo_start) = None \<and>
   (\<exists>b. decode_ballot demo_ballot = Inr b \<and>
     may_cast (demo_fetch ''named'') (ds_poll (demo_fetch ''named'') 1) (vote_user b 1) 1 \<and>
     ballot_fits (ds_poll (demo_fetch ''named'') 1) (BallotValue b))"
proof -
  have dep: "ds demo_memory_deps (flow demo_start) = demo_fetch ''named''"
    by (simp add: demo_memory_deps_def demo_start_def)
  have 1: "fst (vote_Vote demo_memory_deps [1] 1 1 demo_ballot demo_start) = None" by code_simp
  obtain r v' where v: "vote_Vote demo_memory_deps [1] 1 1 demo_ballot demo_start = (r, v')" by fastforce
  with 1 have r: "r = None \<or> v' \<noteq> demo_start" by simp
  from vote_requires_authorization [OF v r demo_order_ballot] demo_small [of "''named''" 1] 1 show ?thesis
    unfolding dep by blast
qed

subsection \<open>Histories with the production backends\<close>

text \<open>
  C4. Every authorized vote gets the right answer: after any history of requests that one instance has
  served one after the other on the production backends, when the reads succeed, the request user may cast the vote and the ballot fits, the
  answer is decided by the history: accepted, poll not started, poll stopped, or the user has voted
  before.
\<close>
theorem service_vote_answer:
  assumes prod: "production R kv X tables conflicts ctx_done D on_fast"
    and new: "ks_fresh (kv r0)" "tables d0 = Some empty_tables" "vote_New D r0 d0 w0 = Inr v0"
    and tr: "service_trace D (\<lambda>p. in_int64 p \<and> in_int32 p) (\<lambda>ks p r. ks_order ks p (kv r)) (\<lambda>_ _ _. True) v0 es v"
    and ids: "in_int32 p" "in_int32 (vote_user b ru)"
    and auth: "authorized_vote D ks p ru body b v"
  shows "fst (vote_Vote D ks p ru body v) = vote_answer (history_verdict p (vote_user b ru) es)"
  by (rule production.authorized_answer [OF prod new tr ids auth])

text \<open>
  C2. \<^verbatim>\<open>Stop\<close> of the service after any history of requests that one instance has served one after the
  other on the production backends: when the poll's configuration can be loaded, it fails with the type \<^verbatim>\<open>not-exist\<close> exactly when the poll has not been
  started, and otherwise returns the stored object of every accepted vote once, and the sorted ids
  of the users they were cast for, each once.
\<close>
theorem service_stop_returns_accepted:
  assumes prod: "production R kv X tables conflicts ctx_done D on_fast"
    and new: "ks_fresh (kv r0)" "tables d0 = Some empty_tables" "vote_New D r0 d0 w0 = Inr v0"
    and tr: "service_trace D (\<lambda>p. in_int64 p \<and> in_int32 p) (\<lambda>ks p r. ks_order ks p (kv r)) (\<lambda>_ _ _. True) v0 es v"
    and p: "in_int32 p" "ks_order fc p (kv (fastBackend v))" "ds_poll_err (ds D (flow v)) p = None"
  shows "case fst (vote_Stop D fc lc p v) of
      Inl e \<Rightarrow> \<not> started p es \<and> err_Type e = Some ''not-exist''
    | Inr (objs, uids) \<Rightarrow> started p es \<and> distinct (map fst (accepted p es)) \<and>
        mset objs = mset (map snd (accepted p es)) \<and> uids = sort (map fst (accepted p es))"
  using vote_service.trace_Stop [OF production.service [OF prod] tr production.fresh_start [OF prod new]
      in_int32_in_int64 [OF p(1)] p(1,2) _ p(3), of lc]
  by (simp cong: sum.case_cong)

text \<open>
  C11. \<^verbatim>\<open>Voted\<close> of a single instance, after any history of requests and reloads that it has carried out one
  after the other, lists for each requested poll exactly those users whose vote was accepted, among the
  request user and the users that have delegated their vote to him, each once. Requests that overlap and
  votes that other instances took since the last reload are not covered.
\<close>
theorem service_voted_reports_voters:
  assumes prod: "production R kv X tables conflicts ctx_done D on_fast"
    and new: "ks_fresh (kv r0)" "tables d0 = Some empty_tables" "vote_New D r0 d0 w0 = Inr v0"
    and tr: "service_trace D (\<lambda>p. in_int64 p \<and> in_int32 p) (\<lambda>ks p r. ks_order ks p (kv r)) (\<lambda>_ _ _. True) v0 es v"
    and ord: "\<And>p. is_order (ord p) (sub_map (liveVotes v) p)"
    and voted: "vote_Voted D ord pollIDs ru v = Inr out" "p \<in> set pollIDs"
  shows "\<exists>us. out p = Some us \<and> distinct (these_users us) \<and>
    set (these_users us) = set (map fst (accepted p es)) \<inter> insert ru (delegators (ds D (flow v)) ru)"
  by (rule vote_service.trace_Voted [OF production.service [OF prod] tr production.fresh_start [OF prod new] ord voted])

text \<open>
  A concrete history on the reference servers: the service starts, poll 1 (named, on the fast
  backend) is started, and user 1 casts the vote of user 2, who has delegated it to him.
\<close>

definition demo_v0 :: "(ref_redis, ref_db, string) Vote" where
  "demo_v0 = projr (vote_New demo_deps [] demo_db0 ''named'')"

definition demo_v1 :: "(ref_redis, ref_db, string) Vote" where
  "demo_v1 = snd (vote_Start demo_deps 1 demo_v0)"

definition demo_v2 :: "(ref_redis, ref_db, string) Vote" where
  "demo_v2 = snd (vote_Vote demo_deps [1] 1 1 demo_ballot demo_v1)"

definition demo_object :: bytes where
  "demo_object = ''{\"request_user_id\":1,\"vote_user_id\":2,\"value\":{\"1\":1},\"weight\":\"1.000000\"}''"

definition demo_history :: "event list" where
  "demo_history = [EvStart 1, EvVote 1 2 demo_object None]"

lemma demo_New: "vote_New demo_deps [] demo_db0 ''named'' = Inr demo_v0"
proof (rule refprod.svc.New_ok [of "[]" demo_db0 "''named''"])
  fix v assume "vote_New demo_deps [] demo_db0 ''named'' = Inr v"
  then show ?thesis by (simp add: demo_v0_def)
qed (simp_all add: ks_fresh_inv [OF demo_redis_fresh] empty_tables_inv [of ref_tables, OF demo_db0_tables])

lemma demo_Start: "vote_Start demo_deps 1 demo_v0 = (None, demo_v1)"
proof -
  have "fst (vote_Start demo_deps 1 demo_v0) = None" by code_simp
  then show ?thesis by (simp add: demo_v1_def prod_eq_iff)
qed

lemma demo_Vote: "vote_Vote demo_deps [1] 1 1 demo_ballot demo_v1 = (None, demo_v2)"
proof -
  have "fst (vote_Vote demo_deps [1] 1 1 demo_ballot demo_v1) = None" by code_simp
  then show ?thesis by (simp add: demo_v2_def prod_eq_iff)
qed

lemma demo_flow: "flow demo_v0 = ''named''" "flow demo_v1 = ''named''" "flow demo_v2 = ''named''"
  by code_simp+

lemma demo_deps_sel [simp]: "ds demo_deps = demo_fetch" "decimal demo_deps = demo_decimal"
  by (simp_all add: demo_deps_def)

lemma demo_prepare: "vote_prepare demo_decimal (demo_fetch ''named'') [1] 1 1 demo_ballot =
    Inr (ds_poll (demo_fetch ''named'') 1, 2, demo_object)"
proof -
  have "fst (snd (projr (vote_prepare demo_decimal (demo_fetch ''named'') [1] 1 1 demo_ballot))) = 2"
    "snd (snd (projr (vote_prepare demo_decimal (demo_fetch ''named'') [1] 1 1 demo_ballot))) = demo_object"
    "isl (vote_prepare demo_decimal (demo_fetch ''named'') [1] 1 1 demo_ballot) = False" by code_simp+
  then obtain poll where p: "vote_prepare demo_decimal (demo_fetch ''named'') [1] 1 1 demo_ballot = Inr (poll, 2, demo_object)"
    by (cases "vote_prepare demo_decimal (demo_fetch ''named'') [1] 1 1 demo_ballot") auto
  then have "poll = ds_poll (demo_fetch ''named'') 1" by (rule vote_prepare_Inr)
  with p show ?thesis by simp
qed

lemma demo_service_trace:
  "service_trace demo_deps (\<lambda>p. in_int64 p \<and> in_int32 p) (\<lambda>ks p r. ks_order ks p (ref_kv r)) (\<lambda>_ _ _. True)
     demo_v0 demo_history demo_v2"
proof -
  let ?tr = "service_trace demo_deps (\<lambda>p. in_int64 p \<and> in_int32 p) (\<lambda>ks p r. ks_order ks p (ref_kv r)) (\<lambda>_ _ _. True) demo_v0"
  have ok: "in_int64 1 \<and> in_int32 1" "in_int64 2 \<and> in_int32 2" by (simp_all add: in_int64_def in_int32_def)
  have "?tr (if None = (None :: err option) then [] @ [EvStart 1] else []) demo_v1"
    by (rule service_trace.start [where p = 1 and v = demo_v0])
      (use ok demo_Start in \<open>auto intro: service_trace.init\<close>)
  then have "?tr ([] @ [EvStart 1]) demo_v1" by simp
  then have "?tr (([] @ [EvStart 1]) @ [EvVote 1 2 demo_object None]) demo_v2"
    by (rule service_trace.vote [where ks = "[1]" and ru = 1 and body = demo_ballot])
      (use ok demo_prepare demo_Vote in \<open>auto simp: demo_flow\<close>)
  then show ?thesis by (simp add: demo_history_def)
qed

lemma demo_may_cast: "may_cast (demo_fetch t) (ds_poll (demo_fetch t) p) (vote_user demo_ballot_value 1) 1"
  by (auto simp: may_cast_def present_def meeting_user_def in_entitled_group_def may_vote_for_def demo_poll_def
      vote_user_def demo_ballot_value_def)

lemma demo_fits: "ballot_fits (ds_poll (demo_fetch t) p) (BallotValue demo_ballot_value)"
  by (simp add: ballot_fits_def amounts_fit_def demo_ballot_value_def demo_poll_def max_per_option_def
      min_votes_def max_votes_def)

theorem service_vote_answer_witness:
  "fst (vote_Vote demo_deps [1] 1 1 demo_ballot demo_v2) = Some (TypeErr ErrDoubleVote)"
proof -
  have ids: "in_int32 1" "in_int32 (vote_user demo_ballot_value 1)"
    by (simp_all add: in_int32_def vote_user_def demo_ballot_value_def)
  have "history_verdict 1 (vote_user demo_ballot_value 1) demo_history = AlreadyVoted"
    by (simp add: history_verdict_def demo_history_def started_def closed_def accepted_def vote_user_def demo_ballot_value_def)
  have "authorized_vote demo_deps [1] 1 1 demo_ballot demo_ballot_value demo_v2"
    unfolding authorized_vote_def Let_def demo_deps_sel demo_flow
    by (intro conjI demo_readable demo_decode demo_order_ballot [OF demo_decode] demo_small demo_may_cast demo_fits) simp
  from service_vote_answer [OF refprod.production_axioms demo_redis_fresh demo_db0_tables demo_New
          demo_service_trace ids this] \<open>history_verdict 1 _ demo_history = AlreadyVoted\<close> show ?thesis by simp
qed

lemma demo_stop_order: "ks_order [''2''] 1 (ref_kv (fastBackend demo_v2))"
proof -
  have "fastBackend demo_v2 = [(''vote_data_1'', FHash [(''2'', demo_object)]), (''vote_polls'', FSet [''1'']), (''vote_state_1'', FStr ''1'')]"
    by code_simp
  moreover have "keyVote 1 = ''vote_data_1''" by code_simp
  ultimately show ?thesis by (simp add: ks_order_def hash_at_def is_order_def)
qed

theorem service_stop_returns_accepted_witness:
  "\<exists>objs. fst (vote_Stop demo_deps [''2''] () 1 demo_v2) = Inr (objs, [2]) \<and> mset objs = {#demo_object#}"
proof -
  have 1: "in_int32 1" by (simp add: in_int32_def)
  have h: "started 1 demo_history" "accepted 1 demo_history = [(2, demo_object)]"
    by (simp_all add: demo_history_def started_def accepted_def)
  have 3: "ds_poll_err (ds demo_deps (flow demo_v2)) 1 = None" by simp
  from service_stop_returns_accepted [OF refprod.production_axioms demo_redis_fresh demo_db0_tables demo_New
      demo_service_trace 1 demo_stop_order 3, of "()"] h
  show ?thesis by (auto split: sum.splits prod.splits)
qed

theorem service_voted_reports_voters_witness:
  "\<exists>us. set (these_users us) = {2} \<and>
     (\<exists>out. vote_Voted demo_deps (\<lambda>p. if p = 1 then [2] else []) [1, 4] 1 demo_v2 = Inr out \<and> out 1 = Some us)"
proof -
  let ?ord = "\<lambda>p :: int. if p = 1 then [2 :: int] else []"
  have h: "accepted p demo_history = (if p = 1 then [(2, demo_object)] else [])" for p
    by (simp add: demo_history_def accepted_def)
  note live = refprod.svc.trace_live [OF demo_service_trace refprod.fresh_start [OF demo_redis_fresh demo_db0_tables demo_New]]
  have ord: "is_order (?ord p) (sub_map (liveVotes demo_v2) p)" for p
    using live [of p] by (simp add: is_order_def h)
  from delegatedUserIDs_readable [OF demo_readable, of "''named''" 1]
  obtain out where out: "vote_Voted demo_deps ?ord [1, 4] 1 demo_v2 = Inr out"
    by (auto simp: vote_Voted_def demo_flow)
  have "2 \<in> delegators (demo_fetch ''named'') 1" by (auto simp: delegators_def)
  with service_voted_reports_voters [OF refprod.production_axioms demo_redis_fresh demo_db0_tables demo_New
      demo_service_trace ord out, of 1] out
  show ?thesis by (auto simp: h demo_flow)
qed

subsection \<open>Secrecy, and requests that fail\<close>

text \<open>
  C5. The object that is stored for a vote in a poll that is not named contains the value of the ballot and the
  weight of the vote and no other member, in particular none for a user; and the entry that \<^verbatim>\<open>Vote\<close> makes in the live
  votes of its instance, under the id of the user, holds nil instead of the object. The backends still
  keep the object of a fast poll under the id of its user until the poll is cleared, and the weight may
  differ between users.
\<close>
theorem anonymous_object_names_no_user:
  assumes "poll_Type (ds_poll f p) \<noteq> ''named''"
    and "vote_prepare dec f ks p ru body = Inr (poll, vu, bs)" "decode_ballot body = Inr b"
  shows "bs = ''{\"value\":'' @ RawMessage_Marshal (original (BallotValue b)) @
      '',\"weight\":'' @ string_Marshal (weight_of dec f (ds_poll f p) vu) @ ''}'' \<and>
    sub_map (record_live poll p vu bs lv) p vu = Some None"
proof -
  from assms(2,3) have "poll = ds_poll f p" "vu = vote_user b ru" "bs = stored_object dec f (ds_poll f p) ru b"
    by (auto elim!: vote_prepare_Inr)
  with assms(1) show ?thesis
    by (simp add: stored_object_def vote_object_def voteData_Marshal_def int_field_def Let_def sub_map_record_live)
qed

definition demo_own_ballot :: string where
  "demo_own_ballot = ''{\"value\": {\"1\": 1}}''"

lemma demo_own_decode: "decode_ballot demo_own_ballot = Inr (zero_ballot\<lparr>BallotValue := BallotValue demo_ballot_value\<rparr>)"
proof -
  have 1: "Decoder_Decode demo_own_ballot = Some (JObject [(''value'', JObject [(''1'', JNumber ''1'')])])" by code_simp
  have "Atoi ''1'' = Some 1" by code_simp
  then show ?thesis
    by (simp add: decode_ballot_def 1 field_matches_def to_upper_def Let_def
          ballotValue_UnmarshalJSON_def demo_ballot_value_def zero_ballot_def)
qed

theorem anonymous_object_names_no_user_witness:
  "\<exists>poll vu. vote_prepare demo_decimal (demo_fetch ''pseudoanonymous'') [1] 3 1 demo_ballot =
     Inr (poll, vu, ''{\"value\":{\"1\":1},\"weight\":\"1.000000\"}'')"
proof -
  let ?f = "demo_fetch ''pseudoanonymous''"
  have n: "poll_Type (ds_poll ?f 3) \<noteq> ''named''" by simp
  have "isl (vote_prepare demo_decimal ?f [1] 3 1 demo_ballot) = False" by code_simp
  then obtain poll vu bs where 1: "vote_prepare demo_decimal ?f [1] 3 1 demo_ballot = Inr (poll, vu, bs)"
    by (cases "vote_prepare demo_decimal ?f [1] 3 1 demo_ballot") auto
  have w: "weight_of demo_decimal ?f (ds_poll ?f 3) vu = ''1.000000''"
    by (simp add: weight_of_def demo_fetch_def demo_decimal_def vote_weight_def demo_poll_def) code_simp
  have "RawMessage_Marshal (original (BallotValue demo_ballot_value)) = ''{\"1\":1}''" "string_Marshal ''1.000000'' = ''\"1.000000\"''"
    by code_simp+
  with anonymous_object_names_no_user [OF n 1 demo_decode, of Map.empty] 1 w show ?thesis by auto
qed

text \<open>
  C21. A vote request that fails changes nothing, for any two backends that keep the contract: no
  ballot, no voter and no live vote.
\<close>
theorem failed_vote_changes_nothing:
  assumes svc: "vote_service D invF absF okF okOF invL absL okL okOL on_fast"
    and inv: "svc_inv invF absF invL absL on_fast v"
    and ids: "\<And>b. decode_ballot body = Inr b \<Longrightarrow> okF (vote_user b ru) \<and> okL (vote_user b ru)" "okF p" "okL p"
    and fails: "vote_Vote D ks p ru body v = (Some e, v')"
  shows "svc_abs absF absL on_fast v' = svc_abs absF absL on_fast v \<and> liveVotes v' = liveVotes v"
proof (cases "vote_prepare (decimal D) (ds D (flow v)) ks p ru body")
  case (Inl e)
  with fails show ?thesis by (simp add: vote_Vote_rejected)
next
  case (Inr x)
  then obtain poll u bs where prep: "vote_prepare (decimal D) (ds D (flow v)) ks p ru body = Inr (poll, u, bs)"
    by (cases x) auto
  then have "okF u" "okL u" using ids(1) by (auto elim!: vote_prepare_Inr)
  from vote_service.Vote_step [OF svc inv ids(2,3) this prep fails] show ?thesis by (auto simp: spec_vote_def)
qed

theorem failed_vote_changes_nothing_witness:
  "\<exists>e v'. vote_Vote demo_memory_deps [1] 9 1 demo_ballot demo_start = (Some e, v') \<and>
     svc_abs memory_abs memory_abs (\<lambda>p. p = 1) v' = svc_abs memory_abs memory_abs (\<lambda>p. p = 1) demo_start \<and>
     liveVotes v' = liveVotes demo_start"
proof -
  have "Option.is_none (fst (vote_Vote demo_memory_deps [1] 9 1 demo_ballot demo_start)) = False" by code_simp
  then obtain e v' where v: "vote_Vote demo_memory_deps [1] 9 1 demo_ballot demo_start = (Some e, v')"
    by (cases "vote_Vote demo_memory_deps [1] 9 1 demo_ballot demo_start") (auto simp: Option.is_none_def)
  have inv: "svc_inv memory_inv memory_abs memory_inv memory_abs (\<lambda>p. p = 1) demo_start"
    by (auto simp: svc_inv_def svc_sep_def demo_start_def demo_memory_def memory_New_def memory_inv_def memory_abs_def
        votes_at_def state_at_def pollStateStarted_def pollStateStopped_def pollStateUnknown_def split: if_splits option.splits)
  from failed_vote_changes_nothing [OF memsvc.vote_service_axioms inv _ _ _ v] v show ?thesis by auto
qed

end
