(* ===== verification/Live_Votes.thy ===== *)
theory Live_Votes
  imports Vote_Properties
begin

text \<open>
  What \<^verbatim>\<open>AllLiveVotes\<close> shows, and when it returns. It never shows a vote of a poll that is not named
  or has live voting switched off. It returns for every order of iteration exactly when no shown poll
  holds votes of both kinds, known and nil; the Postgres backend, which cannot tell the votes, makes
  polls of both kinds after a restart.
\<close>

text \<open>The polls whose votes may be shown.\<close>

definition shown :: "'d fetch \<Rightarrow> int \<Rightarrow> bool" where
  "shown f p \<longleftrightarrow> ds_poll_err f p = None \<and> poll_LiveVotingEnabled (ds_poll f p) \<and> poll_Type (ds_poll f p) = ''named''"

definition mixed :: "(int \<rightharpoonup> bytes option) \<Rightarrow> bool" where
  "mixed uv \<longleftrightarrow> None \<in> ran uv \<and> (\<exists>x. Some x \<in> ran uv)"

lemma copy_votes_content:
  "copy_votes uv us out = Some m \<Longrightarrow> deref m u = Some (Some t) \<Longrightarrow>
   uv u = Some (Some t) \<or> deref out u = Some (Some t)"
proof (induction us arbitrary: out)
  case (Cons w us)
  show ?case
  proof (cases "uv w")
    case None
    with Cons show ?thesis by simp
  next
    case (Some x)
    with Cons.prems Cons.IH [of None] Cons.IH [of "Some ((the out)(w \<mapsto> x))"] show ?thesis
      by (cases x; cases out) (auto split: if_splits)
  qed
qed simp

lemma live_poll_content:
  "live_poll poll uv us = Some m \<Longrightarrow> deref m u = Some (Some t) \<Longrightarrow>
   poll_LiveVotingEnabled poll \<and> poll_Type poll = ''named'' \<and> uv u = Some (Some t)"
  by (auto simp: live_poll_def dest: copy_votes_content split: if_splits)

lemma Poll_First_Inr: "Poll_First f p = Inr poll \<longleftrightarrow> ds_poll_err f p = None \<and> poll = ds_poll f p"
  by (auto simp: Poll_First_def split: option.splits)

lemma all_live_content:
  assumes "all_live f lv us ps out = Some res" "res p = Some m"
  shows "out p = Some m \<or>
    (ds_poll_err f p = None \<and> live_poll (ds_poll f p) (sub_map lv p) (us p) = Some m)"
  using assms
proof (induction ps arbitrary: out)
  case (Cons q ps)
  show ?case
  proof (cases "Poll_First f q")
    case (Inl e)
    with Cons show ?thesis by simp
  next
    case (Inr poll)
    with Cons.prems obtain x where x: "live_poll poll (sub_map lv q) (us q) = Some x"
      "all_live f lv us ps (out(q \<mapsto> x)) = Some res" by (auto split: option.splits)
    from Cons.IH [OF x(2) Cons.prems(2)] Inr x(1) show ?thesis by (auto simp: Poll_First_Inr split: if_splits)
  qed
qed simp

text \<open>
  C23. \<^verbatim>\<open>AllLiveVotes\<close> shows the text of a vote only for named polls with live voting enabled, and then the
  vote that is in the live votes for this user. This holds whatever the live votes contain, so also
  for the votes of other polls that a backend reports.
\<close>
theorem live_votes_confidential:
  assumes "vote_AllLiveVotes D ps us v = Some out" "out p = Some m" "deref m u = Some (Some t)"
  shows "shown (ds D (flow v)) p \<and> sub_map (liveVotes v) p u = Some (Some t)"
proof -
  from all_live_content [of "ds D (flow v)" "liveVotes v" us ps Map.empty out p m] assms(1,2)
  have "ds_poll_err (ds D (flow v)) p = None"
    and "live_poll (ds_poll (ds D (flow v)) p) (sub_map (liveVotes v) p) (us p) = Some m"
    by (auto simp: vote_AllLiveVotes_def)
  with live_poll_content [OF this(2) assms(3)] show ?thesis by (simp add: shown_def)
qed

definition demo_live :: "(memory, memory, string) Vote" where
  "demo_live = \<lparr>fastBackend = memory_New, longBackend = memory_New, flow = ''named'',
     liveVotes = [3 \<mapsto> Some [1 \<mapsto> Some ''Y'', 2 \<mapsto> Some ''N'']]\<rparr>"

theorem live_votes_confidential_witness:
  "\<exists>out m. vote_AllLiveVotes demo_memory_deps [3] (\<lambda>_. [1, 2]) demo_live = Some out \<and> out 3 = Some m \<and>
     deref m 2 = Some (Some ''N'') \<and> shown (demo_fetch ''named'') 3"
proof -
  let ?m = "Some [1 \<mapsto> Some ''Y'', 2 \<mapsto> Some ''N''] :: (int \<rightharpoonup> string option) option"
  have 1: "vote_AllLiveVotes demo_memory_deps [3] (\<lambda>_. [1, 2]) demo_live = Some [3 \<mapsto> ?m]"
    by (simp add: vote_AllLiveVotes_def demo_live_def demo_memory_deps_def Poll_First_def live_poll_def demo_poll_def)
  have 2: "[3 \<mapsto> ?m] (3 :: int) = Some ?m" by simp
  have 3: "deref ?m 2 = Some (Some ''N'')" by simp
  from live_votes_confidential [OF 1 2 3] 1 2 3 show ?thesis by (auto simp: demo_memory_deps_def demo_live_def)
qed

subsection \<open>When it returns\<close>

text \<open>With a nil vote before a known one, the known one is written into a nil map.\<close>

lemma copy_votes_nil: "copy_votes uv us None = None \<longleftrightarrow> (\<exists>u\<in>set us. \<exists>x. uv u = Some (Some x))"
proof (induction us)
  case (Cons u us)
  then show ?case by (cases "uv u"; cases "the (uv u)") auto
qed simp

lemma copy_votes_panics:
  "copy_votes uv us (Some m) = None \<Longrightarrow>
   \<exists>u\<in>set us. uv u = Some None \<and> (\<exists>w\<in>set us. \<exists>x. uv w = Some (Some x))"
proof (induction us arbitrary: m)
  case (Cons u us)
  show ?case
  proof (cases "uv u")
    case None
    with Cons show ?thesis by auto
  next
    case (Some x)
    with Cons show ?thesis by (cases x) (fastforce simp: copy_votes_nil)+
  qed
qed simp

lemma copy_votes_mixed_panics:
  "uv u = Some None \<Longrightarrow> uv w = Some (Some x) \<Longrightarrow> copy_votes uv (u # w # us) (Some m) = None"
  by simp

lemma all_live_None:
  "all_live f lv us ps out = None \<longleftrightarrow> (\<exists>p\<in>set ps. ds_poll_err f p = None \<and> live_poll (ds_poll f p) (sub_map lv p) (us p) = None)"
proof (induction ps arbitrary: out)
  case (Cons q ps)
  then show ?case
    by (cases "Poll_First f q") (auto simp: Poll_First_def split: option.splits)
qed simp

lemma live_poll_None:
  "live_poll (ds_poll f p) uv us = None \<and> ds_poll_err f p = None \<longleftrightarrow>
   shown f p \<and> copy_votes uv us (Some Map.empty) = None"
  by (auto simp: live_poll_def shown_def)

lemma mixed_order:
  assumes "finite (dom uv)" "mixed uv"
  shows "\<exists>us. is_order us uv \<and> copy_votes uv us (Some Map.empty) = None"
proof -
  from assms(2) obtain u w x where u: "uv u = Some None" "uv w = Some (Some x)"
    by (auto simp: mixed_def ran_def)
  obtain us where "distinct us" "set us = dom uv - {u, w}"
    using assms(1) finite_distinct_list [of "dom uv - {u, w}"] by auto
  moreover from u have "u \<noteq> w" "{u, w} \<subseteq> dom uv" by auto
  ultimately have "is_order (u # w # us) uv" unfolding is_order_def by (simp, blast)
  with copy_votes_mixed_panics [OF u] show ?thesis by blast
qed

lemma mixed_panics:
  assumes "is_order ps (liveVotes v)" and fin: "\<And>p. finite (dom (sub_map (liveVotes v) p))"
    and p: "shown (ds D (flow v)) p" "mixed (sub_map (liveVotes v) p)"
  shows "\<exists>us. (\<forall>q. is_order (us q) (sub_map (liveVotes v) q)) \<and> vote_AllLiveVotes D ps us v = None"
proof -
  from mixed_order [OF fin p(2)] obtain up where up: "is_order up (sub_map (liveVotes v) p)"
    "copy_votes (sub_map (liveVotes v) p) up (Some Map.empty) = None" by blast
  obtain us where us: "\<And>q. is_order (us q) (sub_map (liveVotes v) q)"
    using is_order_exists [OF fin] by metis
  have "p \<in> set ps" using assms(1) p(2) by (cases "liveVotes v p") (auto simp: is_order_def mixed_def)
  with up p(1) have "vote_AllLiveVotes D ps (us(p := up)) v = None"
    unfolding vote_AllLiveVotes_def all_live_None using live_poll_None [of "ds D (flow v)" p "sub_map (liveVotes v) p" up]
    by (auto intro!: bexI [of _ p])
  moreover have "\<forall>q. is_order ((us(p := up)) q) (sub_map (liveVotes v) q)" using us up(1) by simp
  ultimately show ?thesis by blast
qed

text \<open>
  C24. \<^verbatim>\<open>AllLiveVotes\<close> returns, whatever order the language iterates the maps in, if and only if no poll
  that it shows has both known and nil votes. Otherwise there is an order in which it panics with an
  assignment to an entry in a nil map.
\<close>
theorem live_votes_return_iff:
  assumes "is_order ps (liveVotes v)" and fin: "\<And>p. finite (dom (sub_map (liveVotes v) p))"
  shows "(\<forall>us. (\<forall>p. is_order (us p) (sub_map (liveVotes v) p)) \<longrightarrow> vote_AllLiveVotes D ps us v \<noteq> None) \<longleftrightarrow>
    (\<forall>p. shown (ds D (flow v)) p \<longrightarrow> \<not> mixed (sub_map (liveVotes v) p))" (is "?returns \<longleftrightarrow> ?pure")
proof
  assume pure: ?pure
  show ?returns
  proof (intro allI impI notI)
    fix us assume ord: "\<forall>p. is_order (us p) (sub_map (liveVotes v) p)" and n: "vote_AllLiveVotes D ps us v = None"
    then obtain p where p: "shown (ds D (flow v)) p" "copy_votes (sub_map (liveVotes v) p) (us p) (Some Map.empty) = None"
      unfolding vote_AllLiveVotes_def all_live_None using live_poll_None by blast
    from copy_votes_panics [OF p(2)] have "mixed (sub_map (liveVotes v) p)" by (auto simp: mixed_def ran_def)
    with pure p(1) show False by blast
  qed
next
  assume ret: ?returns
  show ?pure
  proof (intro allI impI notI)
    fix p assume p: "shown (ds D (flow v)) p" "mixed (sub_map (liveVotes v) p)"
    from mixed_panics [OF assms p] ret show False by blast
  qed
qed

theorem live_votes_return_iff_witness:
  "\<exists>out. vote_AllLiveVotes demo_memory_deps [3] (\<lambda>p. if p = 3 then [2, 1] else []) demo_live = Some out"
proof -
  have 1: "is_order [3] (liveVotes demo_live)" by (simp add: demo_live_def is_order_def)
  have s: "sub_map (liveVotes demo_live) p = (if p = 3 then [1 \<mapsto> Some ''Y'', 2 \<mapsto> Some ''N''] else Map.empty)" for p
    by (simp add: sub_map_def demo_live_def)
  have 2: "finite (dom (sub_map (liveVotes demo_live) p))" for p by (simp add: s)
  have "\<not> mixed (sub_map (liveVotes demo_live) p)" for p
    by (auto simp: s mixed_def ran_def split: if_splits)
  with live_votes_return_iff [OF 1 2, of demo_memory_deps]
  have ret: "(\<forall>p. is_order (us p) (sub_map (liveVotes demo_live) p)) \<Longrightarrow>
      vote_AllLiveVotes demo_memory_deps [3] us demo_live \<noteq> None" for us by blast
  have "vote_AllLiveVotes demo_memory_deps [3] (\<lambda>p. if p = 3 then [2, 1] else []) demo_live \<noteq> None"
    by (rule ret) (auto simp: s is_order_def)
  then show ?thesis by blast
qed

subsection \<open>A restart with a poll on Postgres\<close>

lemma backend_liveVotes: "liveVotes (snd (backend poll onF onL v)) = liveVotes v"
  by (simp add: backend_def split: prod.split)

lemma backend_flow: "flow (snd (backend poll onF onL v)) = flow v"
  by (simp add: backend_def split: prod.split)

lemma vote_Start_flow: "flow (snd (vote_Start D p v)) = flow v"
  using backend_flow [of _ "bStart (fast D) p" "bStart (long D) p" v]
  by (auto simp: vote_Start_def split: prod.split option.split sum.split) (metis snd_conv)+

lemma vote_Vote_flow: "flow (snd (vote_Vote D ks p ru body v)) = flow v"
proof -
  have "flow (snd (backend poll (bVote (fast D) p u bs) (bVote (long D) p u bs) v)) = flow v" for poll u bs
    by (rule backend_flow)
  then show ?thesis by (auto simp: vote_Vote_def split: prod.split option.split sum.split) (metis snd_conv)+
qed

lemma vote_Vote_live:
  assumes "fst (vote_Vote D ks p ru body v) = None"
    and "vote_prepare (decimal D) (ds D (flow v)) ks p ru body = Inr (poll, u, bs)"
  shows "liveVotes (snd (vote_Vote D ks p ru body v)) = record_live poll p u bs (liveVotes v)"
  using assms backend_liveVotes [of poll "bVote (fast D) p u bs" "bVote (long D) p u bs" v]
  by (auto simp: vote_Vote_def split: prod.splits option.splits)

context production
begin

text \<open>A new service holds nil votes for the polls of Postgres.\<close>

lemma New_nil:
  assumes new: "vote_New D f l w = Inr v" and inv: "ks_inv (kv f)" "pg_inv tables l"
    and sep: "dom (ks_abs (kv f)) \<subseteq> {p. on_fast p}" "\<not> on_fast p" and u: "sub_map (liveVotes v) p u = Some x"
  shows "x = None"
proof -
  obtain yF f' where F: "bLiveVotes (fast D) f = (yF, f')" by fastforce
  from svc.fastc.live_law [OF inv(1) F] obtain lvF where lvF: "yF = Inr lvF" "live_result (ks_abs (kv f)) lvF" by blast
  obtain yL l' where L: "bLiveVotes (long D) l = (yL, l')" by fastforce
  from svc.longc.live_law [OF inv(2) L] obtain lvL where lvL: "yL = Inr lvL" by blast
  from new F L lvF(1) lvL have "liveVotes v = lvF ++ lvL" by (auto simp: vote_New_def loadVoted_def)
  moreover have "p \<notin> dom lvF" using lvF(2) sep unfolding live_result_def by blast
  then have "sub_map (lvF ++ lvL) p = sub_map lvL p" by (simp add: domIff sub_map_def map_add_def split: option.split)
  ultimately have "sub_map lvL p u = Some x" using u by simp
  with LiveVotes_nil [OF inv(2)] L lvL show ?thesis by (simp add: long_postgres pg_backend_sel)
qed

lemma mixed_after_restart:
  assumes inv: "svc.sinv v" and fin: "\<And>q. finite (voters_of (svc.cstate v) q)" and u1: "u1 \<in> voters_of (svc.cstate v) p" and p: "\<not> on_fast p" "in_int32 p"
    and new: "vote_New D (fastBackend v) (longBackend v) w = Inr v1" and named: "poll_Type (ds_poll (ds D w) p) = ''named''"
    and vote: "vote_Vote D ks p ru body v1 = (None, v2)" "\<And>b. decode_ballot body = Inr b \<Longrightarrow> in_int32 (vote_user b ru)"
  shows "mixed (sub_map (liveVotes v2) p)" and "\<And>q. finite (dom (sub_map (liveVotes v2) q))" and "flow v2 = w"
proof -
  have b: "ks_inv (kv (fastBackend v))" "pg_inv tables (longBackend v)" "dom (ks_abs (kv (fastBackend v))) \<subseteq> {p. on_fast p}"
    "dom (pg_abs tables (longBackend v)) \<subseteq> {p. \<not> on_fast p}" using inv by (auto simp: svc_inv_def svc_sep_def)
  from b obtain v1' where "vote_New D (fastBackend v) (longBackend v) w = Inr v1'" "svc.sinv v1'"
    "live_ok (svc.cstate v1') (liveVotes v1')" "flow v1' = w"
    "\<And>p. svc.cstate v1' p = (if on_fast p then ks_abs (kv (fastBackend v)) p else pg_abs tables (longBackend v) p)"
    by (rule svc.New_ok) blast
  with new have v1: "svc.sinv v1" "live_ok (svc.cstate v1) (liveVotes v1)" "flow v1 = w"
    "\<And>q. svc.cstate v1 q = svc.cstate v q" by (simp_all add: svc_abs_def)
  from vote(1) obtain poll u2 bs where prep: "vote_prepare (decimal D) (ds D (flow v1)) ks p ru body = Inr (poll, u2, bs)"
    by (cases "vote_prepare (decimal D) (ds D (flow v1)) ks p ru body") (auto simp: vote_Vote_rejected)
  then have poll: "poll = ds_poll (ds D w) p" and u2: "in_int32 u2"
    using vote(2) v1(3) by (auto elim!: vote_prepare_Inr)
  from svc.Vote_step [OF v1(1) _ _ _ _ prep vote(1)] p(2) u2 in_int32_in_int64
  have "vote_answer (spec_verdict p u2 (svc.cstate v1)) = None" "liveVotes v2 = record_live poll p u2 bs (liveVotes v1)" by auto
  then have st: "spec_verdict p u2 (svc.cstate v1) = Accepted" "liveVotes v2 = record_live poll p u2 bs (liveVotes v1)" by simp_all
  have "u1 \<noteq> u2" using st(1) u1 v1(4) by (auto simp: spec_verdict_def voters_of_def split: option.splits if_splits)
  moreover have "u1 \<in> dom (sub_map (liveVotes v1) p)" using v1(2,4) u1 by (simp add: live_ok_def voters_of_def)
  then obtain x where x: "sub_map (liveVotes v1) p u1 = Some x" by blast
  with New_nil [OF new b(1-3) p(1) this] have "sub_map (liveVotes v1) p u1 = Some None" by simp
  ultimately have "sub_map (liveVotes v2) p u1 = Some None" "sub_map (liveVotes v2) p u2 = Some (Some bs)"
    using st(2) named poll by (simp_all add: sub_map_record_live)
  then show "mixed (sub_map (liveVotes v2) p)" unfolding mixed_def ran_def by blast
  have "finite (dom (sub_map (liveVotes v1) q))" for q
    using v1(2,4) fin [of q] by (simp add: live_ok_def voters_of_def)
  then show "finite (dom (sub_map (liveVotes v2) q))" for q
    unfolding st(2) sub_map_record_live by (simp add: dom_fun_upd)
  show "flow v2 = w" using vote_Vote_flow [of D ks p ru body v1] vote(1) v1(3) by simp
qed

end

text \<open>
  C39. A restart makes \<^verbatim>\<open>AllLiveVotes\<close> panic. After any history on the production backends, let a named poll
  with live voting that is kept on Postgres have an accepted vote, let the service be created anew on the
  same backends, and let one more vote on this poll succeed. Then there are orders of iteration that the
  language allows in which \<^verbatim>\<open>AllLiveVotes\<close> panics.
\<close>
theorem live_votes_panic_after_restart:
  assumes prod: "production R kv X tables conflicts ctx_done D on_fast"
    and new: "ks_fresh (kv r0)" "tables d0 = Some empty_tables" "vote_New D r0 d0 w0 = Inr v0"
    and tr: "service_trace D (\<lambda>p. in_int64 p \<and> in_int32 p) (\<lambda>ks p r. ks_order ks p (kv r)) (\<lambda>_ _ _. True) v0 es v"
    and poll: "\<not> on_fast p" "in_int32 p" "accepted p es \<noteq> []" "shown (ds D w) p"
    and restart: "vote_New D (fastBackend v) (longBackend v) w = Inr v1"
    and vote: "vote_Vote D ks p ru body v1 = (None, v2)" "\<And>b. decode_ballot body = Inr b \<Longrightarrow> in_int32 (vote_user b ru)"
    and ps: "is_order ps (liveVotes v2)"
  shows "\<exists>us. (\<forall>q. is_order (us q) (sub_map (liveVotes v2) q)) \<and> vote_AllLiveVotes D ps us v2 = None"
proof -
  let ?abs = "svc_abs (\<lambda>r. ks_abs (kv r)) (pg_abs tables) on_fast"
  from vote_service.trace_inv [OF production.service [OF prod] tr production.fresh_start [OF prod new]]
  have inv: "svc_inv (\<lambda>r. ks_inv (kv r)) (\<lambda>r. ks_abs (kv r)) (pg_inv tables) (pg_abs tables) on_fast v"
    and m: "\<And>q. matches (?abs v q) (accepted q es) (started q es) (closed q es)" by auto
  have voters: "voters_of (?abs v) q = set (map fst (accepted q es))" for q
    using m [of q] by (cases "?abs v q") (auto simp: matches_def voters_of_def)
  then have fin: "finite (voters_of (?abs v) q)" for q by simp
  obtain u1 where u1: "u1 \<in> voters_of (?abs v) p" using voters [of p] poll(3) by (cases "accepted p es") auto
  have named: "poll_Type (ds_poll (ds D w) p) = ''named''" using poll(4) by (simp add: shown_def)
  note mixed = production.mixed_after_restart [OF prod inv fin u1 poll(1,2) restart named vote]
  have "shown (ds D (flow v2)) p" using poll(4) mixed(3) by simp
  with mixed_panics [OF ps mixed(2) _ mixed(1)] show ?thesis by blast
qed

text \<open>
  On the reference servers: poll 2 is named, has live voting and is on the long backend. User 1
  casts the delegated vote of user 2, the service is created anew, and user 1 casts his own vote.
\<close>

definition restart_v0 :: "(ref_redis, ref_db, string) Vote" where
  "restart_v0 = snd (vote_Start demo_deps 2 demo_v0)"

definition restart_v1 :: "(ref_redis, ref_db, string) Vote" where
  "restart_v1 = snd (vote_Vote demo_deps [1] 2 1 demo_ballot restart_v0)"

definition restart_v2 :: "(ref_redis, ref_db, string) Vote" where
  "restart_v2 = projr (vote_New demo_deps (fastBackend restart_v1) (longBackend restart_v1) (flow restart_v1))"

definition restart_v3 :: "(ref_redis, ref_db, string) Vote" where
  "restart_v3 = snd (vote_Vote demo_deps [1] 2 1 demo_own_ballot restart_v2)"

lemma restart_flow: "flow restart_v0 = ''named''" "flow restart_v1 = ''named''"
  by (simp_all add: restart_v0_def restart_v1_def vote_Vote_flow vote_Start_flow demo_flow)

lemma restart_trace:
  "\<exists>bs. service_trace demo_deps (\<lambda>p. in_int64 p \<and> in_int32 p) (\<lambda>ks p r. ks_order ks p (ref_kv r)) (\<lambda>_ _ _. True)
     demo_v0 [EvStart 2, EvVote 2 2 bs None] restart_v1"
proof -
  let ?tr = "service_trace demo_deps (\<lambda>p. in_int64 p \<and> in_int32 p) (\<lambda>ks p r. ks_order ks p (ref_kv r)) (\<lambda>_ _ _. True) demo_v0"
  have ok: "in_int64 2 \<and> in_int32 2" by (simp add: in_int64_def in_int32_def)
  have "fst (vote_Start demo_deps 2 demo_v0) = None" "fst (vote_Vote demo_deps [1] 2 1 demo_ballot restart_v0) = None"
    "isl (vote_prepare demo_decimal (demo_fetch ''named'') [1] 2 1 demo_ballot) = False" by code_simp+
  then have s: "vote_Start demo_deps 2 demo_v0 = (None, restart_v0)"
    and v: "vote_Vote demo_deps [1] 2 1 demo_ballot restart_v0 = (None, restart_v1)"
    and "\<exists>poll u bs. vote_prepare demo_decimal (demo_fetch ''named'') [1] 2 1 demo_ballot = Inr (poll, u, bs)"
    by (auto simp: restart_v0_def restart_v1_def prod_eq_iff)
      (cases "vote_prepare demo_decimal (demo_fetch ''named'') [1] 2 1 demo_ballot"; auto)
  then obtain poll u bs where prep: "vote_prepare demo_decimal (demo_fetch ''named'') [1] 2 1 demo_ballot = Inr (poll, u, bs)" by blast
  then have u: "u = 2" using demo_decode by (auto elim!: vote_prepare_Inr simp: vote_user_def demo_ballot_value_def)
  have "?tr (if None = (None :: err option) then [] @ [EvStart 2] else []) restart_v0"
    by (rule service_trace.start [where p = 2 and v = demo_v0]) (use ok s in \<open>auto intro: service_trace.init\<close>)
  then have "?tr ([] @ [EvStart 2]) restart_v0" by simp
  then have "?tr (([] @ [EvStart 2]) @ [EvVote 2 2 bs None]) restart_v1"
    by (rule service_trace.vote [where ks = "[1]" and ru = 1 and body = demo_ballot])
      (use ok prep u v in \<open>auto simp: restart_flow\<close>)
  then show ?thesis by auto
qed

lemma restart_New: "vote_New demo_deps (fastBackend restart_v1) (longBackend restart_v1) ''named'' = Inr restart_v2"
  and restart_live: "liveVotes restart_v2 = [2 \<mapsto> Some [2 \<mapsto> None]]"
  and restart_vote: "vote_Vote demo_deps [1] 2 1 demo_own_ballot restart_v2 = (None, restart_v3)"
proof -
  let ?db = "\<lparr>ref_polls = Some [(2, (False, Some [2, 0, 0, 0]))], ref_objects = [(2, Some demo_object)], ref_conflicts = 0\<rparr>"
  let ?v2 = "\<lparr>fastBackend = [], longBackend = ?db, flow = ''named'', liveVotes = [2 \<mapsto> Some [2 \<mapsto> None]]\<rparr>"
  have "(longBackend restart_v1, fastBackend restart_v1) = (?db, [])" by code_simp
  moreover have "userIDListFromBytes [2, 0, 0, 0] = Inr [2]" by code_simp
  ultimately have new: "vote_New demo_deps (fastBackend restart_v1) (longBackend restart_v1) ''named'' = Inr ?v2"
    by (simp add: vote_New_def loadVoted_def demo_deps_def redis_backend_sel pg_backend_sel redis_LiveVotes_def
        pg_LiveVotes_def ref_redis_def ref_pgx_def read_polls_def redis_Ints_def raw_of_def)
  then have v2: "restart_v2 = ?v2" by (simp add: restart_v2_def restart_flow)
  with new show "vote_New demo_deps (fastBackend restart_v1) (longBackend restart_v1) ''named'' = Inr restart_v2" by simp
  show "liveVotes restart_v2 = [2 \<mapsto> Some [2 \<mapsto> None]]" by (simp add: v2)
  have "fst (vote_Vote demo_deps [1] 2 1 demo_own_ballot restart_v2) = None" unfolding v2 by code_simp
  then show "vote_Vote demo_deps [1] 2 1 demo_own_ballot restart_v2 = (None, restart_v3)"
    by (simp add: restart_v3_def prod_eq_iff)
qed

theorem live_votes_panic_after_restart_witness:
  "\<exists>us. (\<forall>q. is_order (us q) (sub_map (liveVotes restart_v3) q)) \<and> vote_AllLiveVotes demo_deps [2] us restart_v3 = None"
proof -
  from restart_trace obtain bs where tr: "service_trace demo_deps (\<lambda>p. in_int64 p \<and> in_int32 p)
      (\<lambda>ks p r. ks_order ks p (ref_kv r)) (\<lambda>_ _ _. True) demo_v0 [EvStart 2, EvVote 2 2 bs None] restart_v1" by blast
  have p: "\<not> (2 :: int) = 1" "in_int32 2" "accepted 2 [EvStart 2, EvVote 2 2 bs None] \<noteq> []" "shown (ds demo_deps ''named'') 2"
    by (simp_all add: in_int32_def accepted_def shown_def demo_poll_def)
  have u: "decode_ballot demo_own_ballot = Inr b \<Longrightarrow> in_int32 (vote_user b 1)" for b
    by (auto simp: demo_own_decode vote_user_def zero_ballot_def in_int32_def)
  have "vote_prepare (decimal demo_deps) (ds demo_deps (flow restart_v2)) [1] 2 1 demo_own_ballot \<noteq> Inl e" for e
    using vote_Vote_rejected [of demo_deps restart_v2 "[1]" 2 1 demo_own_ballot] restart_vote by auto
  then obtain poll w bs' where "vote_prepare (decimal demo_deps) (ds demo_deps (flow restart_v2)) [1] 2 1 demo_own_ballot = Inr (poll, w, bs')"
    by (cases "vote_prepare (decimal demo_deps) (ds demo_deps (flow restart_v2)) [1] 2 1 demo_own_ballot") auto
  from vote_Vote_live [OF _ this] restart_vote restart_live have "dom (liveVotes restart_v3) = {2}"
    by (auto simp: record_live_def Let_def)
  then have "is_order [2] (liveVotes restart_v3)" by (simp add: is_order_def)
  from live_votes_panic_after_restart [OF refprod.production_axioms demo_redis_fresh demo_db0_tables demo_New tr p
      restart_New restart_vote u this] show ?thesis .
qed

end
