(* ===== verification/Preload.thy ===== *)
theory Preload
  imports Vote_Properties
begin

text \<open>
  What \<^verbatim>\<open>preload\<close> achieves: the keys it requests when a poll is started are all a later vote of an
  entitled user reads, as long as this user, and the one who votes for him, belong to one meeting
  only. Then the vote is decided without another request to the database: any datastore that agrees on the
  loaded keys gives the same result.
\<close>

definition entitled_meeting_users :: "'d fetch \<Rightarrow> Poll \<Rightarrow> int list" where
  "entitled_meeting_users f poll = concat (map (\<lambda>g. ds_ints f (Group_MeetingUserIDs g)) (poll_EntitledGroupIDs poll))"

text \<open>Two datastores with the same content, and the same failures, on the keys \<open>K\<close>.\<close>

definition agree_on :: "ds_key set \<Rightarrow> 'd fetch \<Rightarrow> 'd fetch \<Rightarrow> bool" where
  "agree_on K f f' \<longleftrightarrow>
     (\<forall>k \<in> K. ds_bool f' k = ds_bool f k \<and> ds_int f' k = ds_int f k \<and> ds_ints f' k = ds_ints f k \<and>
        ds_maybe f' k = ds_maybe f k \<and> ds_decimal f' k = ds_decimal f k \<and> ds_err f' k = ds_err f k) \<and>
     (\<forall>ks. set ks \<subseteq> K \<longrightarrow> ds_Execute f' ks = ds_Execute f ks) \<and> ds_poll f' = ds_poll f \<and> ds_poll_err f' = ds_poll_err f"

text \<open>The user \<open>u\<close> takes part in a single meeting, as the meeting user \<open>mu\<close>.\<close>

definition only_as :: "'d fetch \<Rightarrow> int \<Rightarrow> int \<Rightarrow> bool" where
  "only_as f u mu \<longleftrightarrow> ds_int f (MeetingUser_UserID mu) = u \<and> ds_ints f (User_MeetingUserIDs u) = [mu]"

subsection \<open>The loaded keys\<close>

lemma delegates_of_Inr:
  "delegates_of f mus = Inr dels \<Longrightarrow> mu \<in> set mus \<Longrightarrow> ds_maybe f (MeetingUser_VoteDelegatedToID mu) = Some d \<Longrightarrow> d \<in> set dels"
  by (induction mus arbitrary: dels) (auto split: sum.splits option.splits dest!: Value_InrD)

lemma preload_Inr:
  assumes "preload f poll = Inr keys"
  obtains dels where "delegates_of f (entitled_meeting_users f poll) = Inr dels"
    "keys = preload_meeting_keys poll @ concat (map preload_meeting_user_keys (entitled_meeting_users f poll)) @
       concat (map preload_delegate_keys dels) @
       preload_user_keys (map (\<lambda>mu. ds_int f (MeetingUser_UserID mu)) (entitled_meeting_users f poll))
         (map (\<lambda>mu. ds_int f (MeetingUser_UserID mu)) dels)"
  using assms unfolding preload_def Let_def
  by (auto split: sum.splits dest!: Execute_InrD simp: entitled_meeting_users_def)

lemma preload_voter_keys:
  assumes "preload f poll = Inr keys" "mu \<in> set (entitled_meeting_users f poll)"
  defines "u \<equiv> ds_int f (MeetingUser_UserID mu)"
  shows "{Meeting_UsersEnableVoteWeight (poll_MeetingID poll), Meeting_UsersEnableVoteDelegations (poll_MeetingID poll),
      Meeting_UsersForbidDelegatorToVote (poll_MeetingID poll), MeetingUser_GroupIDs mu, MeetingUser_VoteWeight mu,
      MeetingUser_VoteDelegatedToID mu, MeetingUser_MeetingID mu, User_DefaultVoteWeight u, User_MeetingUserIDs u,
      User_IsPresentInMeetingIDs u} \<subseteq> set keys"
  using assms(1)
proof (rule preload_Inr)
qed (use assms(2) in \<open>auto simp: preload_meeting_keys_def preload_meeting_user_keys_def preload_user_keys_def u_def\<close>)

lemma preload_delegate_keys_loaded:
  assumes "preload f poll = Inr keys" "mu \<in> set (entitled_meeting_users f poll)"
    and "ds_maybe f (MeetingUser_VoteDelegatedToID mu) = Some d"
  defines "u \<equiv> ds_int f (MeetingUser_UserID d)"
  shows "{MeetingUser_MeetingID d, User_MeetingUserIDs u, User_IsPresentInMeetingIDs u} \<subseteq> set keys"
  using assms(1)
proof (rule preload_Inr)
  fix dels assume "delegates_of f (entitled_meeting_users f poll) = Inr dels"
  from delegates_of_Inr [OF this assms(2,3)] have "d \<in> set dels" .
  moreover assume "keys = preload_meeting_keys poll @ concat (map preload_meeting_user_keys (entitled_meeting_users f poll)) @
       concat (map preload_delegate_keys dels) @
       preload_user_keys (map (\<lambda>mu. ds_int f (MeetingUser_UserID mu)) (entitled_meeting_users f poll))
         (map (\<lambda>mu. ds_int f (MeetingUser_UserID mu)) dels)"
  ultimately show ?thesis by (auto simp: preload_delegate_keys_def preload_user_keys_def u_def)
qed

subsection \<open>Reading loaded keys\<close>

lemma agree_Value:
  assumes "agree_on K f f'" "k \<in> K"
  shows "Value f' ds_bool k = Value f ds_bool k" "Value f' ds_ints k = Value f ds_ints k" "Value f' ds_maybe k = Value f ds_maybe k"
  using assms by (auto simp: agree_on_def Value_def split: option.split)

lemma agree_Execute: "agree_on K f f' \<Longrightarrow> set ks \<subseteq> K \<Longrightarrow> get f' = get f \<Longrightarrow> Execute f' get ks = Execute f get ks"
  by (simp add: agree_on_def Execute_def split: option.split)

lemma agree_poll: "agree_on K f f' \<Longrightarrow> load_poll f' p = load_poll f p"
  by (simp add: agree_on_def load_poll_def Poll_First_def split: option.split)

lemma agree_getMeetingUser:
  assumes a: "agree_on K f f'" and u: "only_as f u mu" and K: "User_MeetingUserIDs u \<in> K" "MeetingUser_MeetingID mu \<in> K"
  shows "getMeetingUser f' u m = getMeetingUser f u m"
proof (cases "Value f ds_ints (User_MeetingUserIDs u)")
  case (Inr mus)
  with u have mus: "mus = [mu]" by (auto simp: only_as_def dest!: Value_InrD)
  have "ds_int f' (MeetingUser_MeetingID mu) = ds_int f (MeetingUser_MeetingID mu)" using a K(2) by (simp add: agree_on_def)
  with agree_Value(2) [OF a K(1)] agree_Execute [OF a, of "[MeetingUser_MeetingID mu]" "\<lambda>f. [ds_int f (MeetingUser_MeetingID mu)]"] K(2) Inr mus show ?thesis
    by (simp add: getMeetingUser_def)
qed (use agree_Value(2) [OF a K(1)] in \<open>simp add: getMeetingUser_def\<close>)

lemma agree_ensurePresent:
  "agree_on K f f' \<Longrightarrow> User_IsPresentInMeetingIDs u \<in> K \<Longrightarrow> ensurePresent f' m u = ensurePresent f m u"
  by (simp add: ensurePresent_def agree_Value)

text \<open>The request user is the vote user, or the one this user has delegated his vote to.\<close>

definition votes_for :: "'d fetch \<Rightarrow> int \<Rightarrow> int \<Rightarrow> int \<Rightarrow> bool" where
  "votes_for f ru vu mu \<longleftrightarrow> ru = vu \<or>
     (\<exists>d. ds_maybe f (MeetingUser_VoteDelegatedToID mu) = Some d \<and> only_as f ru d)"

lemma agree_ensureVoteUser:
  assumes pre: "preload f poll = Inr keys" and a: "agree_on (set keys) f f'"
    and mu: "mu \<in> set (entitled_meeting_users f poll)" and ru: "votes_for f ru vu mu"
  shows "ensureVoteUser f' poll vu mu ru = ensureVoteUser f poll vu mu ru"
proof -
  note K = preload_voter_keys [OF pre mu]
  have "ensureDelegation f' poll vu d ru = ensureDelegation f poll vu d ru" if "ru \<noteq> vu" for d
  proof -
    from ru that obtain d' where d': "ds_maybe f (MeetingUser_VoteDelegatedToID mu) = Some d'" "only_as f ru d'"
      by (auto simp: votes_for_def)
    from preload_delegate_keys_loaded [OF pre mu d'(1)] d'(2) agree_getMeetingUser [OF a d'(2)]
    show ?thesis by (simp add: ensureDelegation_def only_as_def)
  qed
  with K show ?thesis by (auto simp: ensureVoteUser_def agree_Value [OF a] split: sum.split)
qed

text \<open>
  C20. \<^verbatim>\<open>preload\<close> loads what the votes of a poll need: when a started poll has loaded its keys, a vote with a readable
  ballot for an entitled user, cast by himself or by the user he has delegated his vote to, is prepared from these keys alone.
  Every datastore with the same content on them gives the same decision, the same stored object and
  the same errors. Both users take part in a single meeting.
\<close>
theorem preload_covers_vote:
  assumes pre: "preload f (ds_poll f p) = Inr keys" and a: "agree_on (set keys) f f'"
    and b: "decode_ballot body = Inr b"
    and mu: "mu \<in> set (entitled_meeting_users f (ds_poll f p))" "only_as f (vote_user b ru) mu"
    and ru: "votes_for f ru (vote_user b ru) mu" and err: "ds_poll_err f p = None"
  shows "vote_prepare dec f' ks p ru body = vote_prepare dec f ks p ru body"
proof -
  let ?poll = "ds_poll f p" let ?vu = "vote_user b ru" let ?m = "poll_MeetingID ?poll"
  note K = preload_voter_keys [OF pre mu(1)]
  have u: "ds_int f (MeetingUser_UserID mu) = ?vu" using mu(2) by (simp add: only_as_def)
  have load: "load_poll f' p = Inr ?poll" "load_poll f p = Inr ?poll"
    using agree_poll [OF a] err by (simp_all add: load_poll_def Poll_First_def)
  have "User_IsPresentInMeetingIDs ru \<in> set keys"
    using ru K u preload_delegate_keys_loaded [OF pre mu(1)] by (auto simp: votes_for_def only_as_def)
  note present = agree_ensurePresent [OF a this, of ?m]
  have gm: "getMeetingUser f' ?vu ?m = getMeetingUser f ?vu ?m"
    using agree_getMeetingUser [OF a mu(2)] K u by simp
  have found: "x = mu" if "getMeetingUser f ?vu ?m = Inr (Some x)" for x
    using getMeetingUser_Inr [OF that] mu(2) by (auto simp: meeting_user_def only_as_def split: if_splits)
  note ev = agree_ensureVoteUser [OF pre a mu(1) ru]
  let ?w = "\<lambda>f. (ds_bool f (Meeting_UsersEnableVoteWeight ?m), ds_decimal f (MeetingUser_VoteWeight mu),
      ds_decimal f (User_DefaultVoteWeight ?vu))"
  let ?wk = "[Meeting_UsersEnableVoteWeight ?m, MeetingUser_VoteWeight mu, User_DefaultVoteWeight ?vu]"
  have wk: "set ?wk \<subseteq> set keys" using K u by simp
  then have "?w f' = ?w f" using a by (simp add: agree_on_def)
  note ex = agree_Execute [OF a wk, of ?w, OF this]
  show ?thesis
    unfolding vote_prepare_def load maybeInt_vote_user Let_def sum.case present b gm
    using found ev ex by (auto split: sum.splits option.splits)
qed

text \<open>The datastore of the examples, with a change in another meeting.\<close>

definition demo_other_meeting :: "int fetch" where
  "demo_other_meeting = (demo_fetch ''named'')\<lparr>ds_bool := (ds_bool (demo_fetch ''named''))(Meeting_UsersEnableVoteDelegations 8 := True)\<rparr>"

lemma agree_bool: "k \<notin> K \<Longrightarrow> agree_on K f (f\<lparr>ds_bool := (ds_bool f)(k := x)\<rparr>)"
  by (auto simp: agree_on_def)

theorem preload_covers_vote_witness:
  "vote_prepare demo_decimal demo_other_meeting [1] 1 1 demo_ballot =
   Inr (ds_poll (demo_fetch ''named'') 1, 2, demo_object)"
proof -
  let ?f = "demo_fetch ''named''"
  have "isl (preload ?f (ds_poll ?f 1)) = False" by code_simp
  then obtain keys where keys: "preload ?f (ds_poll ?f 1) = Inr keys" by (cases "preload ?f (ds_poll ?f 1)") auto
  have "(Meeting_UsersEnableVoteDelegations 8 \<in> set (projr (preload ?f (ds_poll ?f 1)))) = False" by code_simp
  with keys have a: "agree_on (set keys) ?f demo_other_meeting" unfolding demo_other_meeting_def by (intro agree_bool) simp
  have mu: "12 \<in> set (entitled_meeting_users ?f (ds_poll ?f 1))" by (simp add: entitled_meeting_users_def demo_poll_def)
  have as: "only_as ?f (vote_user demo_ballot_value 1) 12" "votes_for ?f 1 (vote_user demo_ballot_value 1) 12"
    by (simp_all add: only_as_def votes_for_def vote_user_def demo_ballot_value_def)
  from preload_covers_vote [OF keys a demo_decode mu as, of demo_decimal "[1]"] demo_prepare show ?thesis by simp
qed

text \<open>
  A user of two meetings is not covered: the meeting of his other meeting user is read by a vote but not
  loaded, and the decision depends on it.
\<close>

definition demo_two_meetings :: "int \<Rightarrow> int fetch" where
  "demo_two_meetings m = (demo_fetch ''named'')\<lparr>ds_ints := (\<lambda>k. if k = User_MeetingUserIDs 2 then [13, 12] else demo_ints k),
     ds_int := (\<lambda>k. if k = MeetingUser_MeetingID 13 then m else demo_int k)\<rparr>"

lemma preload_misses_other_meetings:
  "\<exists>keys. preload (demo_two_meetings 8) (ds_poll (demo_two_meetings 8) 1) = Inr keys \<and>
     agree_on (set keys) (demo_two_meetings 8) (demo_two_meetings 7) \<and>
     vote_prepare demo_decimal (demo_two_meetings 8) [1] 1 1 demo_ballot \<noteq>
     vote_prepare demo_decimal (demo_two_meetings 7) [1] 1 1 demo_ballot"
proof -
  let ?f = "demo_two_meetings"
  have "isl (preload (?f 8) (ds_poll (?f 8) 1)) = False" by code_simp
  then obtain keys where keys: "preload (?f 8) (ds_poll (?f 8) 1) = Inr keys"
    by (cases "preload (?f 8) (ds_poll (?f 8) 1)") auto
  have "(MeetingUser_MeetingID 13 \<in> set (projr (preload (?f 8) (ds_poll (?f 8) 1)))) = False" by code_simp
  with keys have "agree_on (set keys) (?f 8) (?f 7)" by (auto simp: agree_on_def demo_two_meetings_def demo_fetch_def)
  moreover have "isl (vote_prepare demo_decimal (?f 8) [1] 1 1 demo_ballot) = False"
    "isl (vote_prepare demo_decimal (?f 7) [1] 1 1 demo_ballot) = True" by code_simp+
  ultimately show ?thesis using keys by metis
qed

end
