(* ===== verification/Vote_Concurrency.thy ===== *)
theory Vote_Concurrency
  imports Deployment
begin

text \<open>
  Several instances of the service on the same two backends, and in each instance many goroutines: the
  handlers of the HTTP server and the loop of \<^verbatim>\<open>vote.New\<close> that calls \<^verbatim>\<open>loadVoted\<close> every second.

  A method of \<^verbatim>\<open>vote/vote.go\<close> is cut where another goroutine can come in between: a call of a
  backend is one phase, and so is each critical section of \<^verbatim>\<open>liveVotesMu\<close>. \<open>accept_request\<close> is the part of a
  request before its first phase: it only reads the datastore. There is one definition for each phase
  of a method, and \<open>phase\<close> picks the next one of a task. A cluster is the state of the two backends,
  the flow and the live votes of each instance and the task of each goroutine; \<open>cluster_run\<close> lets
  requests and phases come in any order.

  That a call is one phase is what the memory backend ensures for all its calls by its mutex, the Redis
  backend for \<^verbatim>\<open>Vote\<close> and \<^verbatim>\<open>ClearAll\<close> by a script, and the Postgres backend by one statement or one
  transaction for all calls but \<^verbatim>\<open>ClearAll\<close>, which drops the schema and then creates it again. The calls of
  the Redis backend that send several commands (\<^verbatim>\<open>Start\<close>, \<^verbatim>\<open>Stop\<close>, \<^verbatim>\<open>Clear\<close>, \<^verbatim>\<open>LiveVotes\<close>) are one phase here;
  \<open>Service_Commands\<close> cuts them at their commands.

  The first lemmas show that a request that runs alone is the method of \<open>Vote_Service\<close>. Then: the
  history of each backend is legal; the live votes of a single instance lack only votes that
  are being recorded; with several instances a reload can lose a vote that has been answered, and the
  next reload brings it back. The last two hold while nothing is cleared.
\<close>

datatype service_request =
    RStart int
  | RVote "int list" int int string
  | RStop int
  | RClear int
  | RClearAll
  | RLoad

datatype task =
    Idle
  | Starting Poll int
  | Voting Poll int int bytes
  | Recording Poll int int bytes
  | Stopping Poll int
  | ClearingFast int
  | ClearingLong int
  | ClearingLive int
  | Resetting
  | ClearingAllFast
  | ClearingAllLong
  | ClearingAllLive
  | LoadingFast
  | LoadingLong live_votes
  | LoadingSwap live_votes

text \<open>What happens in a phase: a call of the fast (\<open>True\<close>) or the long backend, or a swap of the live votes.\<close>

datatype label = Call bool event | Swapped

text \<open>The part of \<^verbatim>\<open>Start\<close>, \<^verbatim>\<open>Stop\<close> and \<^verbatim>\<open>Vote\<close> before the call of the backend.\<close>

definition Start_prepare :: "('f, 'fo, 'l, 'lo, 'w, 'd) deps \<Rightarrow> 'w \<Rightarrow> int \<Rightarrow> task" where [simp]:
  "Start_prepare D w p =
     (case load_poll (ds D w) p of
        Inl e \<Rightarrow> Idle
      | Inr poll \<Rightarrow> if poll_Type poll = ''analog'' then Idle
                   else case preload (ds D w) poll of Inl e \<Rightarrow> Idle | Inr keys \<Rightarrow> Starting poll p)"

definition Stop_prepare :: "('f, 'fo, 'l, 'lo, 'w, 'd) deps \<Rightarrow> 'w \<Rightarrow> int \<Rightarrow> task" where [simp]:
  "Stop_prepare D w p = (case load_poll (ds D w) p of Inl e \<Rightarrow> Idle | Inr poll \<Rightarrow> Stopping poll p)"

definition Vote_prepare :: "('f, 'fo, 'l, 'lo, 'w, 'd) deps \<Rightarrow> 'w \<Rightarrow> int list \<Rightarrow> int \<Rightarrow> int \<Rightarrow> string \<Rightarrow> task" where [simp]:
  "Vote_prepare D w ks p requestUser body =
     (case vote_prepare (decimal D) (ds D w) ks p requestUser body of
        Inl e \<Rightarrow> Idle
      | Inr (poll, voteUser, bs) \<Rightarrow> Voting poll p voteUser bs)"

fun accept_request :: "('f, 'fo, 'l, 'lo, 'w, 'd) deps \<Rightarrow> 'w \<Rightarrow> service_request \<Rightarrow> task" where
  "accept_request D w (RStart p) = Start_prepare D w p"
| "accept_request D w (RVote ks p requestUser body) = Vote_prepare D w ks p requestUser body"
| "accept_request D w (RStop p) = Stop_prepare D w p"
| "accept_request D w (RClear p) = ClearingFast p"
| "accept_request D w RClearAll = Resetting"
| "accept_request D w RLoad = LoadingFast"

abbreviation goes_on :: "err option \<Rightarrow> task \<Rightarrow> task" where
  "goes_on r k \<equiv> (case r of None \<Rightarrow> k | Some e \<Rightarrow> Idle)"

text \<open>The phases of each method, in the order of \<^verbatim>\<open>vote.go\<close>. \<^verbatim>\<open>Start\<close> and \<^verbatim>\<open>Stop\<close> call the backend of the poll.\<close>

definition Start_call :: "('f, 'fo, 'l, 'lo, 'w, 'd) deps \<Rightarrow> Poll \<Rightarrow> int \<Rightarrow> ('f, 'l, 'w) Vote \<Rightarrow> task \<times> ('f, 'l, 'w) Vote \<times> label list" where [simp]:
  "Start_call D poll p v =
     (case backend poll (bStart (fast D) p) (bStart (long D) p) v of
        (r, v') \<Rightarrow> (Idle, v', [Call (poll_Backend poll = ''fast'') (EvStart p)]))"

definition Stop_call :: "('f, 'fo, 'l, 'lo, 'w, 'd) deps \<Rightarrow> 'fo \<Rightarrow> 'lo \<Rightarrow> Poll \<Rightarrow> int \<Rightarrow> ('f, 'l, 'w) Vote \<Rightarrow> task \<times> ('f, 'l, 'w) Vote \<times> label list" where [simp]:
  "Stop_call D fc lc poll p v =
     (case backend poll (bStop (fast D) fc p) (bStop (long D) lc p) v of
        (r, v') \<Rightarrow> (Idle, v', [Call (poll_Backend poll = ''fast'') (EvStop p r)]))"

text \<open>\<^verbatim>\<open>Clear\<close>: the fast backend, the long backend, the entry of the poll in \<^verbatim>\<open>liveVotes\<close>.\<close>

definition Clear_fast :: "('f, 'fo, 'l, 'lo, 'w, 'd) deps \<Rightarrow> int \<Rightarrow> ('f, 'l, 'w) Vote \<Rightarrow> task \<times> ('f, 'l, 'w) Vote \<times> label list" where [simp]:
  "Clear_fast D p v =
     (case bClear (fast D) p (fastBackend v) of
        (r, f) \<Rightarrow> (goes_on r (ClearingLong p), v\<lparr>fastBackend := f\<rparr>, [Call True (EvClear p)]))"

definition Clear_long :: "('f, 'fo, 'l, 'lo, 'w, 'd) deps \<Rightarrow> int \<Rightarrow> ('f, 'l, 'w) Vote \<Rightarrow> task \<times> ('f, 'l, 'w) Vote \<times> label list" where [simp]:
  "Clear_long D p v =
     (case bClear (long D) p (longBackend v) of
        (r, l) \<Rightarrow> (goes_on r (ClearingLive p), v\<lparr>longBackend := l\<rparr>, [Call False (EvClear p)]))"

definition Clear_live :: "int \<Rightarrow> ('f, 'l, 'w) Vote \<Rightarrow> task \<times> ('f, 'l, 'w) Vote \<times> label list" where [simp]:
  "Clear_live p v = (Idle, v\<lparr>liveVotes := (liveVotes v)(p \<mapsto> None)\<rparr>, [])"

text \<open>\<^verbatim>\<open>ClearAll\<close>: the cache of the datastore, the fast backend, the long backend, a new \<^verbatim>\<open>liveVotes\<close>.\<close>

definition ClearAll_Reset :: "('f, 'fo, 'l, 'lo, 'w, 'd) deps \<Rightarrow> ('f, 'l, 'w) Vote \<Rightarrow> task \<times> ('f, 'l, 'w) Vote \<times> label list" where [simp]:
  "ClearAll_Reset D v = (ClearingAllFast, (case Reset D of Some r \<Rightarrow> v\<lparr>flow := r (flow v)\<rparr> | None \<Rightarrow> v), [])"

definition ClearAll_fast :: "('f, 'fo, 'l, 'lo, 'w, 'd) deps \<Rightarrow> ('f, 'l, 'w) Vote \<Rightarrow> task \<times> ('f, 'l, 'w) Vote \<times> label list" where [simp]:
  "ClearAll_fast D v =
     (case bClearAll (fast D) (fastBackend v) of
        (r, f) \<Rightarrow> (goes_on r ClearingAllLong, v\<lparr>fastBackend := f\<rparr>, [Call True EvClearAll]))"

definition ClearAll_long :: "('f, 'fo, 'l, 'lo, 'w, 'd) deps \<Rightarrow> ('f, 'l, 'w) Vote \<Rightarrow> task \<times> ('f, 'l, 'w) Vote \<times> label list" where [simp]:
  "ClearAll_long D v =
     (case bClearAll (long D) (longBackend v) of
        (r, l) \<Rightarrow> (goes_on r ClearingAllLive, v\<lparr>longBackend := l\<rparr>, [Call False EvClearAll]))"

definition ClearAll_live :: "('f, 'l, 'w) Vote \<Rightarrow> task \<times> ('f, 'l, 'w) Vote \<times> label list" where [simp]:
  "ClearAll_live v = (Idle, v\<lparr>liveVotes := Map.empty\<rparr>, [])"

text \<open>\<^verbatim>\<open>Vote\<close>: the backend of the poll saves the vote; if it did, the vote is recorded in \<^verbatim>\<open>liveVotes\<close>.\<close>

definition Vote_call :: "('f, 'fo, 'l, 'lo, 'w, 'd) deps \<Rightarrow> Poll \<Rightarrow> int \<Rightarrow> int \<Rightarrow> bytes \<Rightarrow> ('f, 'l, 'w) Vote \<Rightarrow> task \<times> ('f, 'l, 'w) Vote \<times> label list" where [simp]:
  "Vote_call D poll p u bs v =
     (case backend poll (bVote (fast D) p u bs) (bVote (long D) p u bs) v of
        (r, v') \<Rightarrow> (goes_on r (Recording poll p u bs), v', [Call (poll_Backend poll = ''fast'') (EvVote p u bs r)]))"

definition Vote_record :: "Poll \<Rightarrow> int \<Rightarrow> int \<Rightarrow> bytes \<Rightarrow> ('f, 'l, 'w) Vote \<Rightarrow> task \<times> ('f, 'l, 'w) Vote \<times> label list" where [simp]:
  "Vote_record poll p u bs v = (Idle, v\<lparr>liveVotes := record_live poll p u bs (liveVotes v)\<rparr>, [])"

text \<open>\<^verbatim>\<open>loadVoted\<close>: it reads the fast and then the long backend, and sets \<^verbatim>\<open>liveVotes\<close> to what it has read.\<close>

definition loadVoted_fast :: "('f, 'fo, 'l, 'lo, 'w, 'd) deps \<Rightarrow> ('f, 'l, 'w) Vote \<Rightarrow> task \<times> ('f, 'l, 'w) Vote \<times> label list" where [simp]:
  "loadVoted_fast D v =
     (case bLiveVotes (fast D) (fastBackend v) of
        (Inl e, f) \<Rightarrow> (Idle, v\<lparr>fastBackend := f\<rparr>, [])
      | (Inr combinedData, f) \<Rightarrow> (LoadingLong combinedData, v\<lparr>fastBackend := f\<rparr>, []))"

definition loadVoted_long :: "('f, 'fo, 'l, 'lo, 'w, 'd) deps \<Rightarrow> live_votes \<Rightarrow> ('f, 'l, 'w) Vote \<Rightarrow> task \<times> ('f, 'l, 'w) Vote \<times> label list" where [simp]:
  "loadVoted_long D combinedData v =
     (case bLiveVotes (long D) (longBackend v) of
        (Inl e, l) \<Rightarrow> (Idle, v\<lparr>longBackend := l\<rparr>, [])
      | (Inr longData, l) \<Rightarrow> (LoadingSwap (combinedData ++ longData), v\<lparr>longBackend := l\<rparr>, []))"

definition loadVoted_swap :: "live_votes \<Rightarrow> ('f, 'l, 'w) Vote \<Rightarrow> task \<times> ('f, 'l, 'w) Vote \<times> label list" where [simp]:
  "loadVoted_swap combinedData v = (Idle, v\<lparr>liveVotes := combinedData\<rparr>, [Swapped])"

fun phase :: "('f, 'fo, 'l, 'lo, 'w, 'd) deps \<Rightarrow> 'fo \<Rightarrow> 'lo \<Rightarrow> task \<Rightarrow> ('f, 'l, 'w) Vote \<Rightarrow> task \<times> ('f, 'l, 'w) Vote \<times> label list" where
  "phase D fc lc Idle v = (Idle, v, [])"
| "phase D fc lc (Starting poll p) v = Start_call D poll p v"
| "phase D fc lc (Stopping poll p) v = Stop_call D fc lc poll p v"
| "phase D fc lc (ClearingFast p) v = Clear_fast D p v"
| "phase D fc lc (ClearingLong p) v = Clear_long D p v"
| "phase D fc lc (ClearingLive p) v = Clear_live p v"
| "phase D fc lc Resetting v = ClearAll_Reset D v"
| "phase D fc lc ClearingAllFast v = ClearAll_fast D v"
| "phase D fc lc ClearingAllLong v = ClearAll_long D v"
| "phase D fc lc ClearingAllLive v = ClearAll_live v"
| "phase D fc lc (Voting poll p u bs) v = Vote_call D poll p u bs v"
| "phase D fc lc (Recording poll p u bs) v = Vote_record poll p u bs v"
| "phase D fc lc LoadingFast v = loadVoted_fast D v"
| "phase D fc lc (LoadingLong combinedData) v = loadVoted_long D combinedData v"
| "phase D fc lc (LoadingSwap combinedData) v = loadVoted_swap combinedData v"

text \<open>A task that runs alone; no task has more than four phases.\<close>

fun alone :: "nat \<Rightarrow> ('f, 'fo, 'l, 'lo, 'w, 'd) deps \<Rightarrow> 'fo \<Rightarrow> 'lo \<Rightarrow> task \<Rightarrow> ('f, 'l, 'w) Vote \<Rightarrow> task \<times> ('f, 'l, 'w) Vote" where
  "alone 0 D fc lc k v = (k, v)"
| "alone (Suc n) D fc lc k v = (case phase D fc lc k v of (k', v', ls) \<Rightarrow> alone n D fc lc k' v')"

fun whole_method :: "('f, 'fo, 'l, 'lo, 'w, 'd) deps \<Rightarrow> 'fo \<Rightarrow> 'lo \<Rightarrow> service_request \<Rightarrow> ('f, 'l, 'w) Vote \<Rightarrow> ('f, 'l, 'w) Vote" where
  "whole_method D fc lc (RStart p) v = snd (vote_Start D p v)"
| "whole_method D fc lc (RVote ks p requestUser body) v = snd (vote_Vote D ks p requestUser body v)"
| "whole_method D fc lc (RStop p) v = snd (vote_Stop D fc lc p v)"
| "whole_method D fc lc (RClear p) v = snd (vote_Clear D p v)"
| "whole_method D fc lc RClearAll v = snd (vote_ClearAll D v)"
| "whole_method D fc lc RLoad v = snd (loadVoted D v)"

lemma alone_method: "alone 4 D fc lc (accept_request D (flow v) rq) v = (Idle, whole_method D fc lc rq v)"
proof -
  have 4: "(4 :: nat) = Suc (Suc (Suc (Suc 0)))" by simp
  show ?thesis unfolding 4
    by (cases rq) (auto simp: vote_Start_def vote_Vote_def vote_Stop_def vote_Clear_def vote_ClearAll_def loadVoted_def
        Let_def split: sum.splits option.splits prod.splits)
qed

record ('f, 'l, 'w) cluster =
  c_fast :: 'f
  c_long :: 'l
  c_flow :: "nat \<Rightarrow> 'w"
  c_live :: "nat \<Rightarrow> live_votes"
  c_task :: "nat \<Rightarrow> nat \<times> task"

definition view :: "('f, 'l, 'w) cluster \<Rightarrow> nat \<Rightarrow> ('f, 'l, 'w) Vote" where
  "view g i = \<lparr>fastBackend = c_fast g, longBackend = c_long g, flow = c_flow g i, liveVotes = c_live g i\<rparr>"

definition put_view :: "nat \<Rightarrow> ('f, 'l, 'w) Vote \<Rightarrow> ('f, 'l, 'w) cluster \<Rightarrow> ('f, 'l, 'w) cluster" where
  "put_view i v g = g\<lparr>c_fast := fastBackend v, c_long := longBackend v,
     c_flow := (c_flow g)(i := flow v), c_live := (c_live g)(i := liveVotes v)\<rparr>"

text \<open>Goroutine \<open>t\<close> of the instance \<open>i\<close> takes a request, or does the next phase of its task.\<close>

definition take_request :: "('f, 'fo, 'l, 'lo, 'w, 'd) deps \<Rightarrow> nat \<Rightarrow> nat \<Rightarrow> service_request \<Rightarrow> ('f, 'l, 'w) cluster \<Rightarrow> ('f, 'l, 'w) cluster" where
  "take_request D t i rq g = g\<lparr>c_task := (c_task g)(t := (i, accept_request D (c_flow g i) rq))\<rparr>"

definition run_phase :: "('f, 'fo, 'l, 'lo, 'w, 'd) deps \<Rightarrow> 'fo \<Rightarrow> 'lo \<Rightarrow> nat \<Rightarrow> ('f, 'l, 'w) cluster
    \<Rightarrow> (nat \<times> label) list \<times> ('f, 'l, 'w) cluster" where
  "run_phase D fc lc t g =
     (case c_task g t of (i, k) \<Rightarrow>
      case phase D fc lc k (view g i) of (k', v', ls) \<Rightarrow>
        (map (Pair i) ls, (put_view i v' g)\<lparr>c_task := (c_task g)(t := (i, k'))\<rparr>))"

fun task_ids :: "task \<Rightarrow> int set" where
  "task_ids (Starting poll p) = {p}"
| "task_ids (Voting poll p u bs) = {p, u}"
| "task_ids (Stopping poll p) = {p}"
| "task_ids (ClearingFast p) = {p}"
| "task_ids (ClearingLong p) = {p}"
| "task_ids k = {}"

fun choice_ok :: "('fo \<Rightarrow> int \<Rightarrow> 'f \<Rightarrow> bool) \<Rightarrow> ('lo \<Rightarrow> int \<Rightarrow> 'l \<Rightarrow> bool) \<Rightarrow> 'fo \<Rightarrow> 'lo \<Rightarrow> ('f, 'l, 'w) cluster \<Rightarrow> task \<Rightarrow> bool" where
  "choice_ok okOF okOL fc lc g (Stopping poll p) \<longleftrightarrow> okOF fc p (c_fast g) \<and> okOL lc p (c_long g)"
| "choice_ok okOF okOL fc lc g k \<longleftrightarrow> True"

inductive cluster_run ::
  "('f, 'fo, 'l, 'lo, 'w, 'd) deps \<Rightarrow> (int \<Rightarrow> bool) \<Rightarrow> ('fo \<Rightarrow> int \<Rightarrow> 'f \<Rightarrow> bool) \<Rightarrow> ('lo \<Rightarrow> int \<Rightarrow> 'l \<Rightarrow> bool)
   \<Rightarrow> (nat \<Rightarrow> service_request \<Rightarrow> bool) \<Rightarrow> ('f, 'l, 'w) cluster \<Rightarrow> (nat \<times> label) list \<Rightarrow> ('f, 'l, 'w) cluster \<Rightarrow> bool"
  for D :: "('f, 'fo, 'l, 'lo, 'w, 'd) deps" and ok :: "int \<Rightarrow> bool"
    and okOF :: "'fo \<Rightarrow> int \<Rightarrow> 'f \<Rightarrow> bool" and okOL :: "'lo \<Rightarrow> int \<Rightarrow> 'l \<Rightarrow> bool"
    and allowed :: "nat \<Rightarrow> service_request \<Rightarrow> bool" and g0 :: "('f, 'l, 'w) cluster"
where
  init: "cluster_run D ok okOF okOL allowed g0 [] g0"
| request: "cluster_run D ok okOF okOL allowed g0 h g \<Longrightarrow> snd (c_task g t) = Idle \<Longrightarrow> allowed i rq \<Longrightarrow>
    (\<And>x. x \<in> task_ids (accept_request D (c_flow g i) rq) \<Longrightarrow> ok x) \<Longrightarrow>
    cluster_run D ok okOF okOL allowed g0 h (take_request D t i rq g)"
| phase: "cluster_run D ok okOF okOL allowed g0 h g \<Longrightarrow> choice_ok okOF okOL fc lc g (snd (c_task g t)) \<Longrightarrow>
    run_phase D fc lc t g = (ls, g') \<Longrightarrow> cluster_run D ok okOF okOL allowed g0 (h @ ls) g'"
| update: "cluster_run D ok okOF okOL allowed g0 h g \<Longrightarrow>
    cluster_run D ok okOF okOL allowed g0 h (g\<lparr>c_flow := (c_flow g)(i := w)\<rparr>)"

lemma cluster_run_trans:
  assumes "cluster_run D ok okOF okOL allowed g1 h' g2" "cluster_run D ok okOF okOL allowed g0 h g1"
  shows "cluster_run D ok okOF okOL allowed g0 (h @ h') g2"
  using assms
proof (induction rule: cluster_run.induct)
  case (phase h' g fc lc t ls g')
  then show ?case using cluster_run.phase [of D ok okOF okOL allowed g0 "h @ h'" g fc lc t ls g'] by simp
qed (auto intro: cluster_run.intros)

text \<open>The calls that reached the fast (\<open>True\<close>) or the long backend.\<close>

definition calls :: "bool \<Rightarrow> (nat \<times> label) list \<Rightarrow> event list" where
  "calls b h = List.map_filter
     (\<lambda>(i, l). case l of Call b' e \<Rightarrow> if b' = b then Some e else None | Swapped \<Rightarrow> None) h"

definition all_idle :: "('f, 'l, 'w) cluster \<Rightarrow> bool" where
  "all_idle g \<longleftrightarrow> (\<forall>t. snd (c_task g t) = Idle)"

lemma calls_simps [simp]:
  "calls b [] = []" "calls b (h @ h') = calls b h @ calls b h'"
  "calls b ((i, Call b' e) # h) = (if b' = b then e # calls b h else calls b h)"
  "calls b ((i, Swapped) # h) = calls b h"
  by (simp_all add: calls_def List.map_filter_def)

lemma backend_cases:
  assumes "backend poll onF onL v = (r, v')"
  obtains (fast) "poll_Backend poll = ''fast''" "onF (fastBackend v) = (r, fastBackend v')" "longBackend v' = longBackend v"
    | (long) "poll_Backend poll \<noteq> ''fast''" "onL (longBackend v) = (r, longBackend v')" "fastBackend v' = fastBackend v"
  using assms by (auto simp: backend_def split: if_splits prod.splits)

text \<open>Each backend sees one history, whatever the interleaving: a phase calls a backend at most once.\<close>

fun voting_ok :: "task \<Rightarrow> bool" where
  "voting_ok (Voting poll p u bs) \<longleftrightarrow> bs \<noteq> []"
| "voting_ok k \<longleftrightarrow> True"

lemma accept_voting_ok: "voting_ok (accept_request D w rq)"
  by (cases rq) (auto split: sum.splits elim!: vote_prepare_Inr)

lemma phase_task:
  assumes "phase D fc lc k v = (k', v', ls)" "voting_ok k"
  shows "task_ids k' \<subseteq> task_ids k \<and> voting_ok k'"
  using assms by (cases k) (auto split: prod.splits option.splits sum.splits)

lemma phase_traces:
  assumes ph: "phase D fc lc k v = (k', v', ls)" and ids: "\<And>x. x \<in> task_ids k \<Longrightarrow> okF x \<and> okL x" and "voting_ok k"
    and ch: "\<And>poll p. k = Stopping poll p \<Longrightarrow> okOF fc p (fastBackend v) \<and> okOL lc p (longBackend v)"
    and F: "backend_trace (fast D) okF okOF f0 hF (fastBackend v)"
    and L: "backend_trace (long D) okL okOL l0 hL (longBackend v)"
  shows "backend_trace (fast D) okF okOF f0 (hF @ calls True (map (Pair i) ls)) (fastBackend v') \<and>
    backend_trace (long D) okL okOL l0 (hL @ calls False (map (Pair i) ls)) (longBackend v')"
proof (cases k)
  case (Starting poll p)
  with ph obtain r where b: "backend poll (bStart (fast D) p) (bStart (long D) p) v = (r, v')"
    and ls: "ls = [Call (poll_Backend poll = ''fast'') (EvStart p)]" by (auto split: prod.splits)
  from b show ?thesis
    by (cases rule: backend_cases) (use F L ids Starting ls in \<open>auto intro: backend_trace.start\<close>)
next
  case (Voting poll p u bs)
  with ph obtain r where b: "backend poll (bVote (fast D) p u bs) (bVote (long D) p u bs) v = (r, v')"
    and ls: "ls = [Call (poll_Backend poll = ''fast'') (EvVote p u bs r)]" by (auto split: prod.splits)
  from b show ?thesis
    by (cases rule: backend_cases) (use F L ids Voting ls assms(3) in \<open>auto intro: backend_trace.vote\<close>)
next
  case (Stopping poll p)
  with ph obtain r where b: "backend poll (bStop (fast D) fc p) (bStop (long D) lc p) v = (r, v')"
    and ls: "ls = [Call (poll_Backend poll = ''fast'') (EvStop p r)]" by (auto split: prod.splits)
  from b show ?thesis
    by (cases rule: backend_cases) (use F L ids Stopping ls ch in \<open>auto intro: backend_trace.stop\<close>)
qed (use ph F L ids in \<open>auto split: prod.splits sum.splits option.splits
      intro: backend_trace.clear backend_trace.clear_all backend_trace.live\<close>)

lemma view_sel [simp]:
  "fastBackend (view g i) = c_fast g" "longBackend (view g i) = c_long g"
  "flow (view g i) = c_flow g i" "liveVotes (view g i) = c_live g i"
  by (simp_all add: view_def)

lemma run_phaseE:
  assumes "run_phase D fc lc t g = (ls, g')"
  obtains i k k' v' ls' where "c_task g t = (i, k)" "phase D fc lc k (view g i) = (k', v', ls')" "ls = map (Pair i) ls'"
    "c_fast g' = fastBackend v'" "c_long g' = longBackend v'" "c_task g' = (c_task g)(t := (i, k'))"
    "c_live g' = (c_live g)(i := liveVotes v')" "c_flow g' = (c_flow g)(i := flow v')"
  using assms by (auto simp: run_phase_def put_view_def split: prod.splits)

lemma run_traces:
  assumes "cluster_run D (\<lambda>p. okF p \<and> okL p) okOF okOL allowed g0 h g" "all_idle g0"
  shows "backend_trace (fast D) okF okOF (c_fast g0) (calls True h) (c_fast g) \<and>
    backend_trace (long D) okL okOL (c_long g0) (calls False h) (c_long g) \<and>
    (\<forall>t x. x \<in> task_ids (snd (c_task g t)) \<longrightarrow> okF x \<and> okL x) \<and> (\<forall>t. voting_ok (snd (c_task g t)))"
  using assms
proof (induction rule: cluster_run.induct)
  case init
  then show ?case by (auto simp: all_idle_def intro: backend_trace.init)
next
  case (request h g t i rq)
  then show ?case by (auto simp: take_request_def accept_voting_ok)
next
  case (phase h g fc lc t ls g')
  from phase.hyps(3) show ?case
  proof (rule run_phaseE)
    fix i k k' v' ls'
    assume r: "c_task g t = (i, k)" "phase D fc lc k (view g i) = (k', v', ls')" "ls = map (Pair i) ls'"
      "c_fast g' = fastBackend v'" "c_long g' = longBackend v'" "c_task g' = (c_task g)(t := (i, k'))"
    note IH = phase.IH [OF phase.prems]
    from IH have ids: "\<And>x. x \<in> task_ids k \<Longrightarrow> okF x \<and> okL x" and vo: "voting_ok k"
      using r(1) by (metis snd_conv)+
    have ch: "okOF fc p (fastBackend (view g i)) \<and> okOL lc p (longBackend (view g i))" if "k = Stopping poll p" for poll p
      using phase.hyps(2) r(1) that by simp
    have "backend_trace (fast D) okF okOF (c_fast g0) (calls True h @ calls True ls) (c_fast g') \<and>
        backend_trace (long D) okL okOL (c_long g0) (calls False h @ calls False ls) (c_long g')"
      unfolding r(3-5) by (rule phase_traces [OF r(2) ids vo])
        (use IH ch in simp_all)
    with phase_task [OF r(2) vo] IH ids r(6) show ?case by auto
  qed
qed simp_all

subsection \<open>The live votes\<close>

definition cluster_abs :: "('f \<Rightarrow> store) \<Rightarrow> ('l \<Rightarrow> store) \<Rightarrow> (int \<Rightarrow> bool) \<Rightarrow> ('f, 'l, 'w) cluster \<Rightarrow> store" where
  "cluster_abs absF absL on_fast g p = (if on_fast p then absF (c_fast g) p else absL (c_long g) p)"

definition cluster_inv :: "('f \<Rightarrow> bool) \<Rightarrow> ('f \<Rightarrow> store) \<Rightarrow> ('l \<Rightarrow> bool) \<Rightarrow> ('l \<Rightarrow> store) \<Rightarrow> (int \<Rightarrow> bool)
    \<Rightarrow> ('f, 'l, 'w) cluster \<Rightarrow> bool" where
  "cluster_inv invF absF invL absL on_fast g \<longleftrightarrow> svc_inv invF absF invL absL on_fast (view g 0)"

text \<open>The users whose accepted vote an instance has not recorded yet.\<close>

definition recording :: "('f, 'l, 'w) cluster \<Rightarrow> nat \<Rightarrow> int \<Rightarrow> int set" where
  "recording g i p = {u. \<exists>t poll bs. c_task g t = (i, Recording poll p u bs)}"

fun is_clear :: "service_request \<Rightarrow> bool" where
  "is_clear (RClear p) \<longleftrightarrow> True"
| "is_clear RClearAll \<longleftrightarrow> True"
| "is_clear rq \<longleftrightarrow> False"

fun keeps_votes :: "task \<Rightarrow> bool" where
  "keeps_votes (ClearingFast p) \<longleftrightarrow> False"
| "keeps_votes (ClearingLong p) \<longleftrightarrow> False"
| "keeps_votes (ClearingLive p) \<longleftrightarrow> False"
| "keeps_votes Resetting \<longleftrightarrow> False"
| "keeps_votes ClearingAllFast \<longleftrightarrow> False"
| "keeps_votes ClearingAllLong \<longleftrightarrow> False"
| "keeps_votes ClearingAllLive \<longleftrightarrow> False"
| "keeps_votes k \<longleftrightarrow> True"

text \<open>The poll of a task is on the backend that \<open>on_fast\<close> says.\<close>

fun task_config :: "(int \<Rightarrow> bool) \<Rightarrow> task \<Rightarrow> bool" where
  "task_config on_fast (Starting poll p) \<longleftrightarrow> (poll_Backend poll = ''fast'') = on_fast p"
| "task_config on_fast (Voting poll p u bs) \<longleftrightarrow> (poll_Backend poll = ''fast'') = on_fast p"
| "task_config on_fast (Stopping poll p) \<longleftrightarrow> (poll_Backend poll = ''fast'') = on_fast p"
| "task_config on_fast k \<longleftrightarrow> True"

fun new_voter :: "task \<Rightarrow> int \<Rightarrow> int set" where
  "new_voter (Recording poll p u bs) q = (if q = p then {u} else {})"
| "new_voter k q = {}"

text \<open>What a load has read so far: at least the voters \<open>V0\<close> of its beginning, at most those of now.\<close>

fun load_ok :: "(int \<Rightarrow> bool) \<Rightarrow> (int \<Rightarrow> int set) \<Rightarrow> (int \<Rightarrow> int set) \<Rightarrow> task \<Rightarrow> bool" where
  "load_ok on_fast V0 V (LoadingLong lv) \<longleftrightarrow> dom lv \<subseteq> {p. on_fast p} \<and>
     (\<forall>p. (on_fast p \<longrightarrow> V0 p \<subseteq> dom (sub_map lv p)) \<and> dom (sub_map lv p) \<subseteq> V p)"
| "load_ok on_fast V0 V (LoadingSwap lv) \<longleftrightarrow> (\<forall>p. V0 p \<subseteq> dom (sub_map lv p) \<and> dom (sub_map lv p) \<subseteq> V p)"
| "load_ok on_fast V0 V k \<longleftrightarrow> True"

text \<open>
  The invariant of the instance \<open>i\<close> in a run that began with the voters \<open>V0\<close>, where \<open>V\<close> are the voters of now:
  nobody is forgotten by the store, loads and live votes show only voters, and once the instance
  has swapped its live votes they show all of \<open>V0\<close>.
\<close>

definition caught_up :: "(int \<Rightarrow> bool) \<Rightarrow> nat \<Rightarrow> (int \<Rightarrow> int set) \<Rightarrow> (int \<Rightarrow> int set) \<Rightarrow> (nat \<times> label) list \<Rightarrow> ('f, 'l, 'w) cluster \<Rightarrow> bool" where
  "caught_up on_fast i V0 V h g \<longleftrightarrow> (\<forall>p. V0 p \<subseteq> V p) \<and>
     (\<forall>t. fst (c_task g t) = i \<longrightarrow> load_ok on_fast V0 V (snd (c_task g t)) \<and> (\<forall>p. new_voter (snd (c_task g t)) p \<subseteq> V p)) \<and>
     (\<forall>p. dom (sub_map (c_live g i) p) \<subseteq> V p \<and> ((i, Swapped) \<in> set h \<longrightarrow> V0 p \<subseteq> dom (sub_map (c_live g i) p)))"

lemma caught_upD:
  assumes "caught_up on_fast i V0 V h g"
  shows "V0 p \<subseteq> V p" "fst (c_task g t) = i \<Longrightarrow> load_ok on_fast V0 V (snd (c_task g t))"
    "fst (c_task g t) = i \<Longrightarrow> new_voter (snd (c_task g t)) p \<subseteq> V p"
    "dom (sub_map (c_live g i) p) \<subseteq> V p" "(i, Swapped) \<in> set h \<Longrightarrow> V0 p \<subseteq> dom (sub_map (c_live g i) p)"
  using assms by (simp_all add: caught_up_def)

lemma load_ok_mono: "load_ok on_fast V0 V k \<Longrightarrow> (\<And>p. V p \<subseteq> V' p) \<Longrightarrow> load_ok on_fast V0 V' k"
  by (cases k) (auto, blast+)

lemma accept_load_ok [simp]: "load_ok on_fast V0 V (accept_request D w rq)"
  by (cases rq) (auto split: sum.splits)

lemma accept_keeps: "\<not> is_clear rq \<Longrightarrow> keeps_votes (accept_request D w rq)"
  by (cases rq) (auto split: sum.splits)

lemma accept_new_voter [simp]: "new_voter (accept_request D w rq) q = {}"
  by (cases rq) (auto split: sum.splits)

lemma recording_eq: "recording g i p = (\<Union>t. if fst (c_task g t) = i then new_voter (snd (c_task g t)) p else {})"
proof -
  have "u \<in> new_voter k p \<longleftrightarrow> (\<exists>poll bs. k = Recording poll p u bs)" for u k by (cases k) auto
  then show ?thesis unfolding recording_def by (auto simp: prod_eq_iff split: if_splits)
qed

lemma phase_live:
  assumes "phase D fc lc k v = (k', v', ls)" "keeps_votes k"
  shows "dom (sub_map (liveVotes v') q) =
      (case k of LoadingSwap lv \<Rightarrow> dom (sub_map lv q) | _ \<Rightarrow> dom (sub_map (liveVotes v) q) \<union> new_voter k q)"
    and "Swapped \<in> set ls \<longleftrightarrow> (\<exists>lv. k = LoadingSwap lv)"
  using assms by (cases k; auto simp: sub_map_record_live backend_def split: prod.splits sum.splits option.splits if_splits)+

lemma caught_up_phase:
  assumes inv: "caught_up on_fast i V0 V h g" and k: "c_task g t = (i, k)" "keeps_votes k"
    and ph: "phase D fc lc k (view g i) = (k', v', ls)"
    and V': "\<And>p. V' p = V p \<union> new_voter k' p" "load_ok on_fast V0 V' k'"
    and g': "c_task g' = (c_task g)(t := (i, k'))" "c_live g' = (c_live g)(i := liveVotes v')"
  shows "caught_up on_fast i V0 V' (h @ map (Pair i) ls) g'"
proof -
  note inv = caught_upD [OF inv] and live = phase_live [OF ph k(2)]
  have mono: "V p \<subseteq> V' p" for p using V'(1) by simp
  have k_ok: "load_ok on_fast V0 V k" "new_voter k p \<subseteq> V p" for p using inv(2,3) [of t] k(1) by simp_all
  have up: "dom (sub_map (liveVotes v') p) \<subseteq> V p" for p
    unfolding live(1) using k_ok inv(4) [where p = p] by (cases k) auto
  have low: "V0 p \<subseteq> dom (sub_map (liveVotes v') p)" if "(i, Swapped) \<in> set (h @ map (Pair i) ls)" for p
  proof (cases "\<exists>lv. k = LoadingSwap lv")
    case True
    then obtain lv where "k = LoadingSwap lv" by auto
    with k_ok(1) live(1) [of p] show ?thesis by simp
  next
    case False
    with that live(2) inv(5) [where p = p] live(1) [of p] show ?thesis by (cases k) auto
  qed
  have "load_ok on_fast V0 V' (snd (c_task g s))" if "fst (c_task g s) = i" for s
    by (rule load_ok_mono [OF inv(2) [OF that] mono])
  with V'(2) g'(1) have "load_ok on_fast V0 V' (snd (c_task g' s))" if "fst (c_task g' s) = i" for s
    using that by (auto split: if_splits)
  moreover have "new_voter (snd (c_task g' s)) p \<subseteq> V' p" if "fst (c_task g' s) = i" for s p
    using V'(1) [of p] inv(3) [where t = s and p = p] g'(1) that by (auto split: if_splits)
  moreover have "dom (sub_map (c_live g' i) p) \<subseteq> V' p" for p
    using up [of p] mono [of p] g'(2) by auto
  moreover have "V0 p \<subseteq> dom (sub_map (c_live g' i) p)" if "(i, Swapped) \<in> set (h @ map (Pair i) ls)" for p
    using low [OF that] g'(2) by simp
  moreover have "V0 p \<subseteq> V' p" for p using inv(1) [of p] mono [of p] by blast
  ultimately show ?thesis unfolding caught_up_def by blast
qed

lemma caught_up_other:
  assumes inv: "caught_up on_fast i V0 V h g" and V': "\<And>p. V p \<subseteq> V' p" and "j \<noteq> i"
    and g': "c_task g' = (c_task g)(t := (j, k'))" "c_live g' = (c_live g)(j := lv)"
  shows "caught_up on_fast i V0 V' (h @ map (Pair j) ls) g'"
proof -
  note d = caught_upD [OF inv]
  have "load_ok on_fast V0 V' (snd (c_task g' s)) \<and> new_voter (snd (c_task g' s)) p \<subseteq> V' p" if "fst (c_task g' s) = i" for s p
    using load_ok_mono [OF d(2) V', of s] d(3) [of s p] V' [of p] g'(1) that \<open>j \<noteq> i\<close> by (auto split: if_splits)
  moreover have "c_live g' i = c_live g i" "(i, Swapped) \<in> set (h @ map (Pair j) ls) \<longleftrightarrow> (i, Swapped) \<in> set h"
    using g'(2) \<open>j \<noteq> i\<close> by auto
  moreover have "V0 p \<subseteq> V' p" "dom (sub_map (c_live g i) p) \<subseteq> V' p" for p using d(1,4) V' [of p] by blast+
  ultimately show ?thesis using d(5) by (simp add: caught_up_def)
qed

text \<open>A change of one task changes the set of the votes that are being recorded by this task's vote.\<close>

lemma take_request_sel:
  "c_task (take_request D t i rq g) = (c_task g)(t := (i, accept_request D (c_flow g i) rq))"
  "c_live (take_request D t i rq g) = c_live g"
  by (simp_all add: take_request_def)

lemma UN_fun_upd: "(\<Union>s. f ((h(t := x)) s)) \<union> f (h t) = (\<Union>s. f (h s)) \<union> f x"
  by (auto split: if_splits)

lemma recording_upd:
  fixes g g' :: "('f, 'l, 'w) cluster"
  assumes "c_task g' = (c_task g)(t := (j', k'))" "c_task g t = (j, k)"
  shows "recording g' i p \<union> (if j = i then new_voter k p else {}) =
    recording g i p \<union> (if j' = i then new_voter k' p else {})"
proof -
  define F where "F x = (if fst x = i then new_voter (snd x) p else {})" for x
  have rec: "recording c i p = (\<Union>s. F (c_task c s))" for c :: "('f, 'l, 'w) cluster"
    unfolding recording_eq F_def ..
  have F: "F (j, k) = (if j = i then new_voter k p else {})" for j k by (simp add: F_def)
  from UN_fun_upd [of F "c_task g" t "(j', k')"] show ?thesis
    by (simp only: rec assms F [symmetric])
qed

fun is_loading :: "task \<Rightarrow> bool" where
  "is_loading LoadingFast \<longleftrightarrow> True"
| "is_loading (LoadingLong lv) \<longleftrightarrow> True"
| "is_loading (LoadingSwap lv) \<longleftrightarrow> True"
| "is_loading k \<longleftrightarrow> False"

definition no_reload :: "nat \<Rightarrow> ('f, 'l, 'w) cluster \<Rightarrow> bool" where
  "no_reload i g \<longleftrightarrow> (\<forall>t. fst (c_task g t) = i \<longrightarrow> \<not> is_loading (snd (c_task g t)))"

lemma load_ok_not_loading: "\<not> is_loading k \<Longrightarrow> load_ok on_fast V0 V k"
  by (cases k) auto

lemma caught_up_again:
  assumes "caught_up on_fast i V0 V h g" "no_reload i g"
  shows "caught_up on_fast i V V [] g"
  using assms load_ok_not_loading by (simp add: caught_up_def no_reload_def)

lemma accept_loading: "is_loading (accept_request D w rq) \<longleftrightarrow> rq = RLoad"
  by (cases rq) (auto split: sum.splits)

lemma phase_loading: "phase D fc lc k v = (k', v', ls) \<Longrightarrow> \<not> is_loading k \<Longrightarrow> \<not> is_loading k'"
  by (cases k) (auto split: prod.splits option.splits)

context vote_service
begin

abbreviation gstate :: "('f, 'l, 'w) cluster \<Rightarrow> store" where
  "gstate \<equiv> cluster_abs absF absL on_fast"

lemma cstate_view: "cstate (view g i) = gstate g"
  by (auto simp: svc_abs_def cluster_abs_def)

lemma sinv_view: "sinv (view g i) \<longleftrightarrow> cluster_inv invF absF invL absL on_fast g"
  by (simp add: cluster_inv_def svc_inv_def svc_sep_def)

lemma accept_config: "task_config on_fast (accept_request D w rq)"
  by (cases rq) (auto split: sum.splits dest: config_load elim!: vote_prepare_Inr intro!: config)

text \<open>One phase: what it does to the voters of the store and to the live votes of its instance.\<close>

lemma Voting_voters:
  assumes "phase D fc lc (Voting poll p u bs) v = (k', v', ls)" "sinv v" "(poll_Backend poll = ''fast'') = on_fast p"
    and "bs \<noteq> []" "okF p" "okL p" "okF u" "okL u"
  shows "sinv v' \<and> keeps_votes k' \<and> task_config on_fast k' \<and> voters_of (cstate v') q = voters_of (cstate v) q \<union> new_voter k' q"
proof -
  from assms(1) obtain r where b: "backend poll (bVote (fast D) p u bs) (bVote (long D) p u bs) v = (r, v')"
    and k': "k' = goes_on r (Recording poll p u bs)" by (auto split: prod.splits)
  from backend_Vote_step [OF assms(2,5-8,4,3) b] have v': "sinv v'" "cstate v' = spec_vote p u bs (cstate v)"
    and r: "verdict_of r = Some (spec_verdict p u (cstate v))" by auto
  from r have "r = None \<longleftrightarrow> spec_verdict p u (cstate v) = Accepted"
    by (auto simp: verdict_of_def split: option.splits if_splits)
  with v' k' show ?thesis by (cases r) (auto simp: voters_of_vote)
qed

lemma Starting_voters:
  assumes "phase D fc lc (Starting poll p) v = (k', v', ls)" "sinv v" "(poll_Backend poll = ''fast'') = on_fast p"
    and "okF p" "okL p"
  shows "k' = Idle \<and> sinv v' \<and> voters_of (cstate v') q = voters_of (cstate v) q"
proof -
  from assms(1) obtain r where b: "backend poll (bStart (fast D) p) (bStart (long D) p) v = (r, v')"
    and k': "k' = Idle" by (auto split: prod.splits)
  have "sinv v' \<and> cstate v' = spec_start p (cstate v) \<and> liveVotes v' = liveVotes v \<and> flow v' = flow v \<and> True"
    by (rule backend_step [OF assms(2) _ assms(3) _ _ b])
      (use assms fastc.start_law longc.start_law in \<open>auto simp: svc_inv_def\<close>)
  with k' show ?thesis by simp
qed

lemma Stopping_voters:
  assumes "phase D fc lc (Stopping poll p) v = (k', v', ls)" "sinv v" "(poll_Backend poll = ''fast'') = on_fast p"
    and "okF p" "okL p" "okOF fc p (fastBackend v)" "okOL lc p (longBackend v)"
  shows "k' = Idle \<and> sinv v' \<and> voters_of (cstate v') q = voters_of (cstate v) q"
proof -
  from assms(1) obtain r where b: "backend poll (bStop (fast D) fc p) (bStop (long D) lc p) v = (r, v')"
    and k': "k' = Idle" by (auto split: prod.splits)
  from backend_Stop_step [OF assms(2,4-7,3) b] k' show ?thesis by simp
qed

lemma LoadingFast_voters:
  assumes "phase D fc lc LoadingFast v = (k', v', ls)" "sinv v"
  obtains lv where "k' = LoadingLong lv" "live_result (absF (fastBackend v)) lv" "sinv v'" "cstate v' = cstate v"
proof -
  obtain y f where y: "bLiveVotes (fast D) (fastBackend v) = (y, f)" by fastforce
  with fastc.live_law [OF _ y] assms(2) obtain lv where "y = Inr lv" "live_result (absF (fastBackend v)) lv" "invF f"
    "absF f = absF (fastBackend v)" by (auto simp: svc_inv_def)
  moreover from calculation assms(1) y have "cstate v' = cstate v" by (auto simp: svc_abs_def)
  ultimately show thesis using assms y that [of lv] by (auto simp: svc_inv_def svc_sep_def)
qed

lemma LoadingLong_voters:
  assumes "phase D fc lc (LoadingLong lvF) v = (k', v', ls)" "sinv v"
  obtains lv where "k' = LoadingSwap (lvF ++ lv)" "live_result (absL (longBackend v)) lv" "sinv v'" "cstate v' = cstate v"
proof -
  obtain y l where y: "bLiveVotes (long D) (longBackend v) = (y, l)" by fastforce
  with longc.live_law [OF _ y] assms(2) obtain lv where "y = Inr lv" "live_result (absL (longBackend v)) lv" "invL l"
    "absL l = absL (longBackend v)" by (auto simp: svc_inv_def)
  moreover from calculation assms(1) y have "cstate v' = cstate v" by (auto simp: svc_abs_def)
  ultimately show thesis using assms y that [of lv] by (auto simp: svc_inv_def svc_sep_def)
qed

lemma phase_voters:
  assumes ph: "phase D fc lc k v = (k', v', ls)" and inv: "sinv v"
    and k: "keeps_votes k" "task_config on_fast k" "voting_ok k"
    and ids: "\<And>x. x \<in> task_ids k \<Longrightarrow> okF x \<and> okL x"
    and ch: "\<And>poll p. k = Stopping poll p \<Longrightarrow> okOF fc p (fastBackend v) \<and> okOL lc p (longBackend v)"
  shows "sinv v' \<and> keeps_votes k' \<and> task_config on_fast k' \<and>
    voters_of (cstate v') q = voters_of (cstate v) q \<union> new_voter k' q"
proof (cases k)
  case (Starting poll p)
  with Starting_voters [of fc lc poll p v k' v' ls q] assms show ?thesis by simp
next
  case (Voting poll p u bs)
  with Voting_voters [of fc lc poll p u bs v k' v' ls q] assms show ?thesis by simp
next
  case (Stopping poll p)
  with Stopping_voters [of fc lc poll p v k' v' ls q] assms show ?thesis by simp
next
  case LoadingFast
  show ?thesis by (rule LoadingFast_voters [OF ph [unfolded LoadingFast] inv]) simp
next
  case (LoadingLong lv)
  show ?thesis by (rule LoadingLong_voters [OF ph [unfolded LoadingLong] inv]) simp
qed (use ph inv k in auto)

lemma run_keeps:
  assumes "cluster_run D (\<lambda>p. okF p \<and> okL p) okOF okOL allowed g0 h g" "all_idle g0"
    and "cluster_inv invF absF invL absL on_fast g0" "\<forall>i rq. allowed i rq \<longrightarrow> \<not> is_clear rq"
  shows "cluster_inv invF absF invL absL on_fast g \<and>
    (\<forall>t. keeps_votes (snd (c_task g t)) \<and> task_config on_fast (snd (c_task g t)))"
  using assms
proof (induction rule: cluster_run.induct)
  case init
  then show ?case by (simp add: all_idle_def)
next
  case (request h g t i rq)
  then show ?case by (auto simp: take_request_def accept_config accept_keeps sinv_view [symmetric, of _ 0] svc_inv_def svc_sep_def)
next
  case (phase h g fc lc t ls g')
  from phase.hyps(3) show ?case
  proof (rule run_phaseE)
    fix i k k' v' ls'
    assume r: "c_task g t = (i, k)" "phase D fc lc k (view g i) = (k', v', ls')"
      "c_fast g' = fastBackend v'" "c_long g' = longBackend v'" "c_task g' = (c_task g)(t := (i, k'))"
    note IH = phase.IH [OF phase.prems] and tr = run_traces [OF phase.hyps(1) phase.prems(1)]
    have kt: "keeps_votes k" "task_config on_fast k" "voting_ok k" "\<And>x. x \<in> task_ids k \<Longrightarrow> okF x \<and> okL x"
      using IH conjunct2 [OF conjunct2 [OF tr]] r(1) by (auto dest: spec [of _ t])
    have "sinv v' \<and> keeps_votes k' \<and> task_config on_fast k' \<and>
        voters_of (cstate v') 0 = voters_of (cstate (view g i)) 0 \<union> new_voter k' 0"
      by (rule phase_voters [OF r(2) _ kt]) (use IH r(1) phase.hyps(2) in \<open>auto simp: sinv_view\<close>)
    with IH r show ?case by (auto simp: cluster_inv_def svc_inv_def svc_sep_def)
  qed
next
  case (update h g i w)
  then show ?case by (simp add: cluster_inv_def svc_inv_def svc_sep_def)
qed

text \<open>The effect of one phase in a run without clears.\<close>

lemma run_phase_voters:
  assumes run: "cluster_run D (\<lambda>p. okF p \<and> okL p) okOF okOL allowed g0 h g" and g0: "all_idle g0"
      "cluster_inv invF absF invL absL on_fast g0" "\<forall>i rq. allowed i rq \<longrightarrow> \<not> is_clear rq"
    and ch: "choice_ok okOF okOL fc lc g (snd (c_task g t))"
    and ph: "c_task g t = (i, k)" "phase D fc lc k (view g i) = (k', v', ls)"
    and g': "c_fast g' = fastBackend v'" "c_long g' = longBackend v'"
  shows "voters_of (gstate g') q = voters_of (gstate g) q \<union> new_voter k' q" and "keeps_votes k" and "sinv (view g i)"
proof -
  note keeps = run_keeps [OF run g0] and tr = run_traces [OF run g0(1)]
  have kt: "keeps_votes k" "task_config on_fast k" "voting_ok k" "\<And>x. x \<in> task_ids k \<Longrightarrow> okF x \<and> okL x"
    using keeps conjunct2 [OF conjunct2 [OF tr]] ph(1) by (auto dest: spec [of _ t])
  show inv: "sinv (view g i)" using keeps by (simp add: sinv_view)
  have "voters_of (cstate v') q = voters_of (cstate (view g i)) q \<union> new_voter k' q"
    by (rule conjunct2 [OF conjunct2 [OF conjunct2 [OF phase_voters [OF ph(2) inv kt]]]]) (use ch ph(1) in simp_all)
  moreover have "cstate v' = gstate g'" using g' by (auto simp: svc_abs_def cluster_abs_def)
  ultimately show "voters_of (gstate g') q = voters_of (gstate g) q \<union> new_voter k' q" by (simp add: cstate_view)
  show "keeps_votes k" by (rule kt)
qed

lemma gstate_request [simp]: "gstate (take_request D t i rq g) = gstate g" "gstate (g\<lparr>c_flow := w\<rparr>) = gstate g"
  by (auto simp: cluster_abs_def take_request_def)

text \<open>A single instance that does not reload: the live votes lack only votes that are being recorded.\<close>

lemma single_instance_live:
  assumes "cluster_run D (\<lambda>p. okF p \<and> okL p) okOF okOL (\<lambda>j rq. j = i \<and> \<not> is_clear rq \<and> rq \<noteq> RLoad) g0 h g"
    and "all_idle g0" "cluster_inv invF absF invL absL on_fast g0" "live_ok (gstate g0) (c_live g0 i)"
  shows "(\<forall>t. \<not> is_loading (snd (c_task g t)) \<and> (snd (c_task g t) = Idle \<or> fst (c_task g t) = i)) \<and>
    (\<forall>p. voters_of (gstate g) p = dom (sub_map (c_live g i) p) \<union> recording g i p)"
  using assms
proof (induction rule: cluster_run.induct)
  case init
  then show ?case by (auto simp: all_idle_def live_ok_def recording_eq)
next
  case (request h g t j rq)
  note IH = request.IH [OF request.prems]
  obtain j0 where t: "c_task g t = (j0, Idle)" using request.hyps(2) by (metis prod.collapse)
  have "recording (take_request D t j rq g) i p = recording g i p" for p
    using recording_upd [OF take_request_sel(1) [of D t j rq g] t, of i p]
    by (cases "j0 = i"; cases "j = i"; simp)
  then show ?case using IH request.hyps(3) by (auto simp: take_request_sel accept_loading)
next
  case (phase h g fc lc t ls g')
  from phase.hyps(3) show ?case
  proof (rule run_phaseE)
    fix j k k' v' ls'
    assume r: "c_task g t = (j, k)" "phase D fc lc k (view g j) = (k', v', ls')"
      "c_fast g' = fastBackend v'" "c_long g' = longBackend v'" "c_task g' = (c_task g)(t := (j, k'))"
      "c_live g' = (c_live g)(j := liveVotes v')"
    note IH = phase.IH [OF phase.prems]
    from IH have k: "\<not> is_loading k" and j: "k = Idle \<or> j = i" using r(1) by (auto dest: spec [of _ t])
    have e: "voters_of (gstate g') p = voters_of (gstate g) p \<union> new_voter k' p" "keeps_votes k" for p
      using run_phase_voters [OF phase.hyps(1) phase.prems(1,2) _ phase.hyps(2) r(1-4)] by auto
    have live: "dom (sub_map (liveVotes v') p) = dom (sub_map (c_live g j) p) \<union> new_voter k p" for p
      using phase_live(1) [OF r(2) e(2), of p] k by (cases k) auto
    have idle: "k' = Idle \<and> liveVotes v' = c_live g j" if "k = Idle" using r(2) that by auto
    have "voters_of (gstate g') p = dom (sub_map (c_live g' i) p) \<union> recording g' i p" for p
      using IH e(1) [of p] live [of p] recording_upd [OF r(5) r(1), of i p] j idle r(6)
      by (cases "j = i") auto
    with IH r(5) phase_loading [OF r(2) k] j idle show ?case by auto
  qed
next
  case (update h g j w)
  then show ?case by (simp add: recording_def)
qed

text \<open>
  A reload that began with the voters \<open>V0\<close> gives live votes with at least these voters; live votes
  never show a user that has not voted.
\<close>

lemma LoadingLong_ok:
  assumes ph: "phase D fc lc (LoadingLong lvF) v = (k', v', ls)" and inv: "sinv v"
    and ok: "load_ok on_fast V0 (voters_of (cstate v)) (LoadingLong lvF)" "\<And>p. V0 p \<subseteq> voters_of (cstate v) p"
  shows "load_ok on_fast V0 (voters_of (cstate v)) k'"
proof (rule LoadingLong_voters [OF ph inv])
  fix lv assume k': "k' = LoadingSwap (lvF ++ lv)" and lv: "live_result (absL (longBackend v)) lv"
  have "V0 p \<subseteq> dom (sub_map (lvF ++ lv) p) \<and> dom (sub_map (lvF ++ lv) p) \<subseteq> voters_of (cstate v) p" for p
  proof (cases "on_fast p")
    case True
    with inv lv have "p \<notin> dom lv" unfolding svc_inv_def svc_sep_def live_result_def by blast
    then have "sub_map (lvF ++ lv) p = sub_map lvF p" by (simp add: domIff sub_map_def map_add_def)
    with True ok show ?thesis by simp
  next
    case False
    with ok have "p \<notin> dom lvF" by auto
    then have "sub_map (lvF ++ lv) p = sub_map lv p" by (simp add: domIff sub_map_def map_add_def split: option.split)
    with False ok(2) [of p] lv show ?thesis by (simp add: live_result_def voters_of_def svc_abs_def)
  qed
  with k' show ?thesis by simp
qed

lemma phase_load_ok:
  assumes ph: "phase D fc lc k v = (k', v', ls)" and inv: "sinv v"
    and ok: "load_ok on_fast V0 (voters_of (cstate v)) k" "\<And>p. V0 p \<subseteq> voters_of (cstate v) p"
  shows "load_ok on_fast V0 (voters_of (cstate v)) k'"
proof (cases k)
  case LoadingFast
  show ?thesis
  proof (rule LoadingFast_voters [OF ph [unfolded LoadingFast] inv])
    fix lv assume k': "k' = LoadingLong lv" and lv: "live_result (absF (fastBackend v)) lv"
    have dom: "dom lv \<subseteq> {p. on_fast p}"
      using inv lv unfolding svc_inv_def svc_sep_def live_result_def by blast
    have "dom (sub_map lv p) = (if on_fast p then voters_of (cstate v) p else {})" for p
    proof (cases "on_fast p")
      case False
      with dom have "lv p = None" by auto
      with False show ?thesis by (simp add: sub_map_def)
    qed (use lv in \<open>simp add: live_result_def voters_of_def svc_abs_def\<close>)
    with dom ok(2) k' show ?thesis by simp
  qed
next
  case (LoadingLong lv)
  with LoadingLong_ok [of fc lc lv v k' v' ls V0] assms show ?thesis by simp
qed (use ph in \<open>auto split: prod.splits option.splits\<close>)

lemma run_caught_up:
  assumes "cluster_run D (\<lambda>p. okF p \<and> okL p) okOF okOL (\<lambda>i rq. \<not> is_clear rq) g1 h g"
    and run: "cluster_run D (\<lambda>p. okF p \<and> okL p) okOF okOL (\<lambda>i rq. \<not> is_clear rq) g0 h0 g1"
    and g0: "all_idle g0" "cluster_inv invF absF invL absL on_fast g0"
    and "caught_up on_fast i V0 (voters_of (gstate g1)) [] g1"
  shows "caught_up on_fast i V0 (voters_of (gstate g)) h g"
  using assms(1,5)
proof (induction rule: cluster_run.induct)
  case init
  then show ?case .
next
  case (request h g t j rq)
  from request.IH [OF request.prems] show ?case by (simp add: take_request_sel caught_up_def)
next
  case (phase h g fc lc t ls g')
  from phase.hyps(3) show ?case
  proof (rule run_phaseE)
    fix j k k' v' ls'
    assume r: "c_task g t = (j, k)" "phase D fc lc k (view g j) = (k', v', ls')"
      "c_fast g' = fastBackend v'" "c_long g' = longBackend v'" "c_task g' = (c_task g)(t := (j, k'))"
      "c_live g' = (c_live g)(j := liveVotes v')" "ls = map (Pair j) ls'"
    note IH = phase.IH [OF phase.prems] and whole = cluster_run_trans [OF phase.hyps(1) run]
    have e: "voters_of (gstate g') p = voters_of (gstate g) p \<union> new_voter k' p" "keeps_votes k" "sinv (view g j)" for p
      using run_phase_voters [OF whole g0 _ phase.hyps(2) r(1-4)] by auto
    show ?case
    proof (cases "j = i")
      case True
      have "load_ok on_fast V0 (voters_of (gstate g)) k'"
        using phase_load_ok [OF r(2) e(3), of V0] caught_upD(1) [OF IH] caught_upD(2) [OF IH, of t] r(1) True
        by (simp add: cstate_view)
      then have "load_ok on_fast V0 (voters_of (gstate g')) k'" by (rule load_ok_mono) (use e(1) in simp)
      from caught_up_phase [OF IH r(1) [unfolded True] e(2) r(2) [unfolded True] e(1) this r(5,6) [unfolded True]] r(7) True
      show ?thesis by simp
    next
      case False
      have "voters_of (gstate g) p \<subseteq> voters_of (gstate g') p" for p using e(1) by blast
      from caught_up_other [OF IH this False r(5,6), of ls'] r(7) show ?thesis by simp
    qed
  qed
next
  case (update h g j w)
  then show ?case by (simp add: caught_up_def)
qed

text \<open>The voters of the store are the users with an accepted vote.\<close>

lemma run_voters:
  assumes "cluster_run D (\<lambda>p. okF p \<and> okL p) okOF okOL allowed g0 h g" "all_idle g0"
    and g0: "invF (c_fast g0)" "absF (c_fast g0) = Map.empty" "invL (c_long g0)" "absL (c_long g0) = Map.empty"
  shows "voters_of (gstate g) p = set (map fst (accepted p (calls (on_fast p) h)))"
proof -
  from run_traces [OF assms(1,2)] have
    "backend_trace (fast D) okF okOF (c_fast g0) (calls True h) (c_fast g)"
    "backend_trace (long D) okL okOL (c_long g0) (calls False h) (c_long g)" by auto
  from fastc.trace_matches [OF this(1) g0(1,2)] longc.trace_matches [OF this(2) g0(3,4)]
  have "matches (gstate g p) (accepted p (calls (on_fast p) h)) (started p (calls (on_fast p) h)) (closed p (calls (on_fast p) h))"
    by (cases "on_fast p") (auto simp: cluster_abs_def)
  then show ?thesis by (cases "gstate g p") (auto simp: matches_def voters_of_def)
qed

end

end
