(* ===== verification/Concurrency_Properties.thy ===== *)
theory Concurrency_Properties
  imports Vote_Concurrency Vote_Properties
begin

text \<open>
  The properties of concurrent requests on the production backends. A run begins on fresh backends with
  no request under way. Concrete runs are computed by \<open>exec\<close> from a list of actions.
\<close>

definition fresh_cluster :: "('r \<Rightarrow> keyspace) \<Rightarrow> ('p \<Rightarrow> pg_tables option) \<Rightarrow> ('r, 'p, 'w) cluster \<Rightarrow> bool" where
  "fresh_cluster kv tables g \<longleftrightarrow> ks_fresh (kv (c_fast g)) \<and> tables (c_long g) = Some empty_tables \<and>
     all_idle g \<and> (\<forall>i p. sub_map (c_live g i) p = Map.empty)"

abbreviation production_run ::
  "('r \<Rightarrow> keyspace) \<Rightarrow> ('r, string list, 'p, unit, 'w, 'd) deps \<Rightarrow> (nat \<Rightarrow> service_request \<Rightarrow> bool)
   \<Rightarrow> ('r, 'p, 'w) cluster \<Rightarrow> (nat \<times> label) list \<Rightarrow> ('r, 'p, 'w) cluster \<Rightarrow> bool" where
  "production_run kv D \<equiv> cluster_run D (\<lambda>p. in_int64 p \<and> in_int32 p) (\<lambda>ks p r. ks_order ks p (kv r)) (\<lambda>_ _ _. True)"

context production
begin

abbreviation pstate :: "('r, 'p, 'w) cluster \<Rightarrow> store" where
  "pstate \<equiv> cluster_abs (\<lambda>r. ks_abs (kv r)) (pg_abs tables) on_fast"

abbreviation pinv :: "('r, 'p, 'w) cluster \<Rightarrow> bool" where
  "pinv \<equiv> cluster_inv (\<lambda>r. ks_inv (kv r)) (\<lambda>r. ks_abs (kv r)) (pg_inv tables) (pg_abs tables) on_fast"

lemma fresh_backends:
  assumes "fresh_cluster kv tables g0"
  shows "ks_inv (kv (c_fast g0))" "ks_abs (kv (c_fast g0)) = Map.empty"
    "pg_inv tables (c_long g0)" "pg_abs tables (c_long g0) = Map.empty" "pinv g0" "all_idle g0" "pstate g0 = Map.empty"
  using ks_fresh_inv [of "kv (c_fast g0)"] empty_tables_inv [of tables "c_long g0"] assms
  by (auto simp: fresh_cluster_def cluster_inv_def svc_inv_def svc_sep_def cluster_abs_def)

lemma run_distinct:
  assumes "fresh_cluster kv tables g0" "production_run kv D allowed g0 h g"
  shows "distinct (map fst (accepted p (calls b h)))"
proof -
  note g0 = fresh_backends [OF assms(1)] and tr = run_traces [OF assms(2)]
  have "legal (calls True h)" by (rule svc.fastc.trace_legal) (use tr g0 in auto)
  moreover have "legal (calls False h)" by (rule svc.longc.trace_legal) (use tr g0 in auto)
  ultimately show ?thesis using legal_distinct by (cases b) auto
qed

lemma run_voters:
  assumes "fresh_cluster kv tables g0" "production_run kv D allowed g0 h g"
  shows "voters_of (pstate g) p = set (map fst (accepted p (calls (on_fast p) h)))"
  using svc.run_voters [OF assms(2)] fresh_backends [OF assms(1)] by blast

lemma run_upper:
  assumes "fresh_cluster kv tables g0" "production_run kv D (\<lambda>_ rq. \<not> is_clear rq) g0 h g"
  shows "caught_up on_fast i (\<lambda>_. {}) (voters_of (pstate g)) h g"
proof -
  note g0 = fresh_backends [OF assms(1)]
  have "caught_up on_fast i (\<lambda>_. {}) (voters_of (pstate g0)) [] g0"
    using assms(1) by (simp add: caught_up_def fresh_cluster_def all_idle_def)
  with svc.run_caught_up [OF assms(2) cluster_run.init g0(6,5)] show ?thesis by blast
qed

lemma reload:
  assumes "fresh_cluster kv tables g0"
    and run: "production_run kv D (\<lambda>_ rq. \<not> is_clear rq) g0 h g" "no_reload i g"
      "production_run kv D (\<lambda>_ rq. \<not> is_clear rq) g h' g'"
    and sw: "(i, Swapped) \<in> set h'"
  shows "set (map fst (accepted p (calls (on_fast p) h))) \<subseteq> dom (sub_map (c_live g' i) p) \<and>
    dom (sub_map (c_live g' i) p) \<subseteq> set (map fst (accepted p (calls (on_fast p) (h @ h'))))"
proof -
  note g0 = fresh_backends [OF assms(1)]
  have "caught_up on_fast i (voters_of (pstate g)) (voters_of (pstate g')) h' g'"
    by (rule svc.run_caught_up [OF run(3,1) g0(6,5) caught_up_again [OF run_upper [OF assms(1) run(1)] run(2)]])
  with caught_upD(4) [OF this, of p] caught_upD(5) [OF this sw, of p] run_voters [OF assms(1) run(1), of p]
    run_voters [OF assms(1) cluster_run_trans [OF run(3,1)], of p] show ?thesis by simp
qed

text \<open>A vote that is accepted after a reload has read the backends is not in what the reload has read.\<close>

lemma late_vote_not_read:
  assumes fresh: "fresh_cluster kv tables g0" and run: "production_run kv D (\<lambda>_ rq. \<not> is_clear rq) g0 h g"
    and s: "c_task g s = (i, LoadingSwap lv)"
    and run': "production_run kv D (\<lambda>_ rq. \<not> is_clear rq) g0 (h @ ls) g'" and ls: "calls (on_fast p) ls = [EvVote p u bs None]"
  shows "sub_map lv p u = None"
proof -
  from caught_upD(2) [OF run_upper [OF fresh run], of s i] s
  have "dom (sub_map lv p) \<subseteq> voters_of (pstate g) p" by simp
  moreover have "u \<notin> voters_of (pstate g) p"
    using run_distinct [OF fresh run', of p "on_fast p"] by (auto simp: run_voters [OF fresh run] ls)
  ultimately show ?thesis by blast
qed

end

context single_instance
begin

lemma single_live:
  assumes g0: "tables d0 = Some empty_tables" "vote_New D memory_New d0 w0 = Inr (view g0 i)" "all_idle g0"
    and run: "cluster_run D in_int32 memory_order (\<lambda>_ _ _. True) (\<lambda>j rq. j = i \<and> \<not> is_clear rq \<and> rq \<noteq> RLoad) g0 h g"
  shows "set (map fst (accepted p (calls (on_fast p) h))) = dom (sub_map (c_live g i) p) \<union> recording g i p"
proof -
  note fresh = fresh_start [OF g0(1,2)]
  have run': "cluster_run D (\<lambda>p. True \<and> in_int32 p) memory_order (\<lambda>_ _ _. True) (\<lambda>j rq. j = i \<and> \<not> is_clear rq \<and> rq \<noteq> RLoad) g0 h g"
    using run by simp
  have abs: "memory_abs (c_fast g0) = Map.empty" "pg_abs tables (c_long g0) = Map.empty"
    and inv: "memory_inv (c_fast g0)" "pg_inv tables (c_long g0)"
    using fresh(1,2) by (auto simp: svc_inv_def svc_sep_def svc_abs_def fun_eq_iff dom_def split: if_splits)
  have "live_ok (svc.gstate g0) (c_live g0 i)" using fresh(3) by (simp add: svc.cstate_view)
  with svc.single_instance_live [OF run' g0(3)] svc.sinv_view fresh(1) svc.run_voters [OF run' g0(3) inv(1) abs(1) inv(2) abs(2), of p]
  show ?thesis by metis
qed

end

text \<open>
  C29. A single instance, as \<^verbatim>\<open>VOTE_SINGLE_INSTANCE\<close> configures it: the fast backend in memory, the long one
  Postgres, and after \<^verbatim>\<open>New\<close> no reload. Whatever requests to start, vote and stop overlap, as long as
  nothing is cleared, the live votes of a poll show exactly the users with an accepted vote, except
  those whose vote is saved but not recorded yet. When no request is under way nobody is missing.
  A call of a backend is one step, as the mutex of the memory backend and the statements and
  transactions of Postgres make it.
\<close>
theorem single_instance_live_votes_exact:
  assumes "single_instance X tables conflicts ctx_done D on_fast"
    and "tables d0 = Some empty_tables" "vote_New D memory_New d0 w0 = Inr (view g0 i)" "all_idle g0"
    and "cluster_run D in_int32 memory_order (\<lambda>_ _ _. True) (\<lambda>j rq. j = i \<and> \<not> is_clear rq \<and> rq \<noteq> RLoad) g0 h g"
  shows "set (map fst (accepted p (calls (on_fast p) h))) = dom (sub_map (c_live g i) p) \<union> recording g i p"
  by (rule single_instance.single_live [OF assms])

text \<open>
  C30. A reload catches up, as long as nothing is cleared: after votes on any number of instances, once an
  instance has completed a reload that began after a certain moment, at which it had no other reload
  under way, its live votes show every user whose vote had been accepted by that moment, whatever
  requests overlap with the reload, and only users whose vote has been accepted by now. A call of a backend
  is one step here.
\<close>
theorem reload_catches_up:
  assumes "production R kv X tables conflicts ctx_done D on_fast" "fresh_cluster kv tables g0"
    and "production_run kv D (\<lambda>_ rq. \<not> is_clear rq) g0 h g" "no_reload i g"
    and "production_run kv D (\<lambda>_ rq. \<not> is_clear rq) g h' g'" "(i, Swapped) \<in> set h'"
  shows "set (map fst (accepted p (calls (on_fast p) h))) \<subseteq> dom (sub_map (c_live g' i) p) \<and>
    dom (sub_map (c_live g' i) p) \<subseteq> set (map fst (accepted p (calls (on_fast p) (h @ h'))))"
  by (rule production.reload [OF assms])

text \<open>
  C40. A reload can lose a vote. Take any run without clears in which a reload of an instance has read
  both backends and has not set the live votes yet, and a goroutine of the same instance is about to
  save a vote. If the vote is now accepted and recorded, so that the live votes show the voter and the
  request is answered with success, and then the reload sets the live votes, the voter is gone from
  them, although his vote is in the backend and nothing else happened.
\<close>
theorem reload_loses_vote:
  assumes prod: "production R kv X tables conflicts ctx_done D on_fast" and fresh: "fresh_cluster kv tables g0"
    and run: "production_run kv D (\<lambda>_ rq. \<not> is_clear rq) g0 h g"
    and s: "c_task g s = (i, LoadingSwap lv)" and t: "c_task g t = (i, Voting poll p u bs)"
    and saves: "run_phase D fc lc t g = (ls, g1)" "calls (on_fast p) ls = [EvVote p u bs None]"
    and records: "run_phase D fc lc t g1 = (ls1, g2)" and swaps: "run_phase D fc lc s g2 = (ls2, g3)"
  shows "production_run kv D (\<lambda>_ rq. \<not> is_clear rq) g0 (h @ ls @ ls1 @ ls2) g3 \<and>
    (u, bs) \<in> set (accepted p (calls (on_fast p) (h @ ls @ ls1 @ ls2))) \<and>
    ls1 = [] \<and> sub_map (c_live g2 i) p u \<noteq> None \<and> snd (c_task g2 t) = Idle \<and>
    ls2 = [(i, Swapped)] \<and> sub_map (c_live g3 i) p u = None \<and> snd (c_task g3 s) = Idle \<and> snd (c_task g3 t) = Idle"
proof -
  let ?run = "production_run kv D (\<lambda>_ rq. \<not> is_clear rq) g0"
  have st: "s \<noteq> t" using s t by auto
  have r1: "?run (h @ ls) g1" by (rule cluster_run.phase [OF run _ saves(1)]) (simp add: t)
  from saves t have g1: "c_task g1 = (c_task g)(t := (i, Recording poll p u bs))"
    by (auto simp: run_phase_def put_view_def split: prod.splits option.splits if_splits)
  have r2: "?run ((h @ ls) @ ls1) g2" by (rule cluster_run.phase [OF r1 _ records]) (simp add: g1)
  from records g1 have g2: "ls1 = []" "c_task g2 = (c_task g)(t := (i, Idle))"
    "c_live g2 i = record_live poll p u bs (c_live g1 i)"
    by (auto simp: run_phase_def put_view_def)
  have r3: "?run (((h @ ls) @ ls1) @ ls2) g3" by (rule cluster_run.phase [OF r2 _ swaps]) (simp add: g2 s st)
  from swaps g2(2) s st have g3: "ls2 = [(i, Swapped)]" "c_task g3 = (c_task g2)(s := (i, Idle))" "c_live g3 i = lv"
    by (auto simp: run_phase_def put_view_def)
  have "u \<in> dom (sub_map (c_live g2 i) p)" by (simp add: g2(3) sub_map_record_live)
  then have "sub_map (c_live g2 i) p u \<noteq> None" by blast
  moreover have "sub_map lv p u = None" by (rule production.late_vote_not_read [OF prod fresh run s r1 saves(2)])
  ultimately show ?thesis using r3 g2 g3 st saves(2) by simp
qed

subsection \<open>Concrete runs\<close>

datatype action = Take nat nat service_request | Run nat

fun is_idle :: "task \<Rightarrow> bool" where
  "is_idle Idle \<longleftrightarrow> True"
| "is_idle k \<longleftrightarrow> False"

fun is_stopping :: "task \<Rightarrow> bool" where
  "is_stopping (Stopping poll p) \<longleftrightarrow> True"
| "is_stopping k \<longleftrightarrow> False"

fun exec :: "('f, 'fo, 'l, 'lo, 'w, 'd) deps \<Rightarrow> (int \<Rightarrow> bool) \<Rightarrow> (nat \<Rightarrow> service_request \<Rightarrow> bool) \<Rightarrow> 'fo \<Rightarrow> 'lo \<Rightarrow> action list
    \<Rightarrow> (nat \<times> label) list \<Rightarrow> ('f, 'l, 'w) cluster \<Rightarrow> ((nat \<times> label) list \<times> ('f, 'l, 'w) cluster) option" where
  "exec D ok allowed fc lc [] h g = Some (h, g)"
| "exec D ok allowed fc lc (Take t i rq # as) h g =
     (if is_idle (snd (c_task g t)) \<and> allowed i rq \<and> (\<forall>x \<in> task_ids (accept_request D (c_flow g i) rq). ok x)
      then exec D ok allowed fc lc as h (take_request D t i rq g) else None)"
| "exec D ok allowed fc lc (Run t # as) h g =
     (if is_stopping (snd (c_task g t)) then None
      else case run_phase D fc lc t g of (ls, g') \<Rightarrow> exec D ok allowed fc lc as (h @ ls) g')"

lemma is_idle_iff [simp]: "is_idle k \<longleftrightarrow> k = Idle"
  by (cases k) auto

lemma exec_run:
  assumes "exec D ok allowed fc lc as h g = Some (h', g')" "cluster_run D ok okOF okOL allowed g0 h g"
  shows "cluster_run D ok okOF okOL allowed g0 h' g'"
  using assms
proof (induction D ok allowed fc lc as h g rule: exec.induct)
  case (3 D ok allowed fc lc t as h g)
  obtain ls g1 where ph: "run_phase D fc lc t g = (ls, g1)" by fastforce
  have "choice_ok okOF okOL fc lc g (snd (c_task g t))" using 3(2) by (cases "snd (c_task g t)") auto
  with 3 ph show ?case by (auto split: if_splits intro: cluster_run.phase)
qed (auto split: if_splits intro: cluster_run.request)

lemma exec_other:
  assumes "exec D ok allowed fc lc as h g = Some (h', g')" "\<And>i rq. Take t i rq \<notin> set as" "Run t \<notin> set as"
  shows "c_task g' t = c_task g t"
  using assms
  by (induction D ok allowed fc lc as h g rule: exec.induct)
    (auto split: if_splits prod.splits simp: take_request_def run_phase_def put_view_def)

definition demo_cluster :: "(ref_redis, ref_db, string) cluster" where
  "demo_cluster = \<lparr>c_fast = [], c_long = demo_db0, c_flow = (\<lambda>_. ''named''), c_live = (\<lambda>_. Map.empty),
     c_task = (\<lambda>_. (0, Idle))\<rparr>"

abbreviation demo_exec :: "(nat \<Rightarrow> service_request \<Rightarrow> bool) \<Rightarrow> action list \<Rightarrow> (ref_redis, ref_db, string) cluster
    \<Rightarrow> ((nat \<times> label) list \<times> (ref_redis, ref_db, string) cluster) option" where
  "demo_exec allowed as \<equiv> exec demo_deps (\<lambda>p. in_int64 p \<and> in_int32 p) allowed [] () as []"

abbreviation only_votes :: "nat \<Rightarrow> service_request \<Rightarrow> bool" where
  "only_votes \<equiv> \<lambda>j rq. j = 0 \<and> \<not> is_clear rq \<and> rq \<noteq> RLoad"

abbreviation no_clears :: "nat \<Rightarrow> service_request \<Rightarrow> bool" where
  "no_clears \<equiv> \<lambda>_ rq. \<not> is_clear rq"

text \<open>
  Two goroutines of a single instance get the same vote of user 2 at the same time; the accepted one is
  not recorded yet.
\<close>

definition twice_actions :: "action list" where
  "twice_actions = [Take 0 0 (RStart 1), Run 0, Take 0 0 (RVote [1] 1 1 demo_ballot),
     Take 1 0 (RVote [1] 1 1 demo_ballot), Run 1, Run 0]"

definition single_cluster :: "(memory, ref_db, string) cluster" where
  "single_cluster = \<lparr>c_fast = memory_New, c_long = demo_db0, c_flow = (\<lambda>_. ''named''), c_live = (\<lambda>_. Map.empty),
     c_task = (\<lambda>_. (0, Idle))\<rparr>"

lemma single_New: "vote_New demo_single_deps memory_New demo_db0 ''named'' = Inr (view single_cluster 0)"
proof -
  have "memory_LiveVotes memory_New = (Inr Map.empty, memory_New)" by (simp add: memory_LiveVotes_def memory_New_def fun_eq_iff)
  moreover have "pg_LiveVotes ref_pgx demo_db0 = (Inr Map.empty, demo_db0)"
    by (simp add: pg_LiveVotes_def ref_pgx_def demo_db0_def read_polls_def)
  ultimately show ?thesis
    by (simp add: vote_New_def loadVoted_def demo_single_deps_def memory_backend_def pg_backend_def view_def single_cluster_def)
qed

lemma twice_calls: "map_option (\<lambda>(h, g). calls True h)
    (exec demo_single_deps in_int32 only_votes ([], []) () twice_actions [] single_cluster) =
  Some [EvStart 1, EvVote 1 2 demo_object None, EvVote 1 2 demo_object (Some (doubleVoteError ''user has already voted''))]"
  by code_simp

text \<open>
  A reload reads the backends while a vote is about to be saved; then the vote is saved and recorded and
  answered, then the reload sets the live votes to what it has read. The next reload finds the vote.
\<close>

definition race_actions :: "action list" where
  "race_actions = [Take 1 0 (RStart 1), Run 1, Take 0 0 RLoad, Run 0, Run 0, Take 1 0 (RVote [1] 1 1 demo_ballot)]"

definition reload_actions :: "action list" where
  "reload_actions = [Take 0 0 RLoad, Run 0, Run 0, Run 0]"

lemma race_tasks:
  "map_option (\<lambda>(h, g). (case c_task g 0 of (i, LoadingSwap lv) \<Rightarrow> i = 0 | _ \<Rightarrow> False,
      case c_task g 1 of (i, Voting poll p u bs) \<Rightarrow> i = 0 \<and> p = 1 \<and> u = 2 \<and> bs = demo_object | _ \<Rightarrow> False,
      calls True (fst (run_phase demo_deps [] () 1 g))))
     (demo_exec no_clears race_actions demo_cluster) = Some (True, True, [EvVote 1 2 demo_object None])"
  by code_simp

lemma race_reload:
  "map_option (\<lambda>(h, g). (calls True h, is_idle (snd (c_task g 0)), is_idle (snd (c_task g 1)),
      map_option fst (demo_exec no_clears reload_actions g)))
     (demo_exec no_clears (race_actions @ [Run 1, Run 1, Run 0]) demo_cluster) =
   Some ([EvStart 1, EvVote 1 2 demo_object None], True, True, Some [(0, Swapped)])"
  by code_simp

lemma demo_cluster_fresh: "fresh_cluster ref_kv ref_tables demo_cluster"
  using demo_redis_fresh demo_db0_tables by (simp add: fresh_cluster_def demo_cluster_def all_idle_def sub_map_def)

lemma demo_exec_run:
  assumes "demo_exec allowed as g = Some (h, g')"
  shows "production_run ref_kv demo_deps allowed g h g'"
  by (rule exec_run [OF assms cluster_run.init])

lemma race_no_reload:
  assumes x: "demo_exec no_clears (race_actions @ [Run 1, Run 1, Run 0]) demo_cluster = Some (h, g)"
  shows "no_reload 0 g"
proof -
  have "\<not> is_loading (snd (c_task g t))" for t
  proof (cases "t = 0 \<or> t = 1")
    case True
    from race_reload assms have "is_idle (snd (c_task g 0))" "is_idle (snd (c_task g 1))" by auto
    with True show ?thesis by auto
  next
    case False
    have "c_task g t = c_task demo_cluster t"
      by (rule exec_other [OF x]) (use False in \<open>auto simp: race_actions_def\<close>)
    then show ?thesis by (simp add: demo_cluster_def)
  qed
  then show ?thesis by (simp add: no_reload_def)
qed

theorem single_instance_live_votes_exact_witness:
  "\<exists>h g. cluster_run demo_single_deps in_int32 memory_order (\<lambda>_ _ _. True) only_votes single_cluster h g \<and>
     dom (sub_map (c_live g 0) 1) \<union> recording g 0 1 = {2}"
proof -
  from twice_calls obtain h g where x: "exec demo_single_deps in_int32 only_votes ([], []) () twice_actions [] single_cluster = Some (h, g)"
    and c: "calls True h = [EvStart 1, EvVote 1 2 demo_object None, EvVote 1 2 demo_object (Some (doubleVoteError ''user has already voted''))]"
    by auto
  have run: "cluster_run demo_single_deps in_int32 memory_order (\<lambda>_ _ _. True) only_votes single_cluster h g"
    by (rule exec_run [OF x cluster_run.init])
  have "all_idle single_cluster" by (simp add: all_idle_def single_cluster_def)
  from single_instance_live_votes_exact [OF refsingle.single_instance_axioms demo_db0_tables single_New this run, of 1] c run
  show ?thesis by (intro exI [of _ h] exI [of _ g]) (simp add: accepted_def)
qed

theorem reload_catches_up_witness:
  "\<exists>h g h' g'. production_run ref_kv demo_deps no_clears demo_cluster h g \<and>
     production_run ref_kv demo_deps no_clears g h' g' \<and> dom (sub_map (c_live g' 0) 1) = {2}"
proof -
  from race_reload obtain h g where x: "demo_exec no_clears (race_actions @ [Run 1, Run 1, Run 0]) demo_cluster = Some (h, g)"
    and c: "calls True h = [EvStart 1, EvVote 1 2 demo_object None]"
    and l: "map_option fst (demo_exec no_clears reload_actions g) = Some [(0, Swapped)]" by auto
  from l obtain g' where y: "demo_exec no_clears reload_actions g = Some ([(0, Swapped)], g')" by auto
  from reload_catches_up [OF refprod.production_axioms demo_cluster_fresh demo_exec_run [OF x] race_no_reload [OF x]
      demo_exec_run [OF y], of 1] c
  have "2 \<in> dom (sub_map (c_live g' 0) 1) \<and> dom (sub_map (c_live g' 0) 1) \<subseteq> {2}" by (simp add: accepted_def)
  then have "dom (sub_map (c_live g' 0) 1) = {2}" by blast
  with demo_exec_run [OF x] demo_exec_run [OF y] show ?thesis by blast
qed

theorem reload_loses_vote_witness:
  "\<exists>h g1 g2 g3. production_run ref_kv demo_deps no_clears demo_cluster h g3 \<and>
     (2, demo_object) \<in> set (accepted 1 (calls True h)) \<and>
     run_phase demo_deps [] () 1 g1 = ([], g2) \<and> sub_map (c_live g2 0) 1 2 \<noteq> None \<and>
     run_phase demo_deps [] () 0 g2 = ([(0, Swapped)], g3) \<and> sub_map (c_live g3 0) 1 2 = None"
proof -
  from race_tasks obtain h g where x: "demo_exec no_clears race_actions demo_cluster = Some (h, g)"
    and c: "calls True (fst (run_phase demo_deps [] () 1 g)) = [EvVote 1 2 demo_object None]"
    and k: "case c_task g 0 of (i, LoadingSwap lv) \<Rightarrow> i = 0 | _ \<Rightarrow> False"
      "case c_task g 1 of (i, Voting poll p u bs) \<Rightarrow> i = 0 \<and> p = 1 \<and> u = 2 \<and> bs = demo_object | _ \<Rightarrow> False" by auto
  from k obtain lv poll where s: "c_task g 0 = (0, LoadingSwap lv)" and t: "c_task g 1 = (0, Voting poll 1 2 demo_object)"
    by (auto split: prod.splits task.splits)
  obtain ls g1 where p1: "run_phase demo_deps [] () 1 g = (ls, g1)" by fastforce
  obtain ls1 g2 where p2: "run_phase demo_deps [] () 1 g1 = (ls1, g2)" by fastforce
  obtain ls2 g3 where p3: "run_phase demo_deps [] () 0 g2 = (ls2, g3)" by fastforce
  from c p1 have "calls (1 = (1 :: int)) ls = [EvVote 1 2 demo_object None]" by simp
  from reload_loses_vote [OF refprod.production_axioms demo_cluster_fresh demo_exec_run [OF x] s t p1 this p2 p3] p2 p3
  show ?thesis by (intro exI [of _ "h @ ls @ ls1 @ ls2"] exI [of _ g1] exI [of _ g2] exI [of _ g3]) auto
qed

end
