(* ===== verification/Redis_Commands.thy ===== *)
theory Redis_Commands
  imports Redis_Reference
begin

text \<open>
  The Redis backend as its server sees it: one command at a time (\<^verbatim>\<open>backend/redis/redis.go\<close>).

  \<^verbatim>\<open>Start\<close>, \<^verbatim>\<open>Stop\<close>, \<^verbatim>\<open>Clear\<close> and \<^verbatim>\<open>LiveVotes\<close> send several commands on a connection of the pool, and
  commands of other connections may come in between; \<^verbatim>\<open>Vote\<close> and \<^verbatim>\<open>ClearAll\<close> are one script each.
  There is one definition for each command, which runs to the answer of the next command or to the end
  of the call. \<open>redis_first\<close> is the first step of a call, \<open>redis_next\<close> the step after the answer
  of an earlier command; a call run without interruption is the operation of
  \<open>Redis_Backend\<close> (\<open>redis_finish_first\<close>). A \<open>redis_run\<close> is a state of the server together with the
  unfinished calls of all clients, the calls so far and the answers of \<^verbatim>\<open>LiveVotes\<close>.
\<close>

datatype redis_call =
    CallStart int | CallVote int int bytes | CallStop int | CallClear int | CallClearAll | CallLiveVotes

datatype redis_rest = AddPoll int | ReadVotes int | RemovePoll int | ReadLive "int list" live_votes

datatype redis_reply =
    ReplyErr "err option" | ReplyStop "err + bytes list \<times> int list" | ReplyLive "err + live_votes"

text \<open>The two commands of \<^verbatim>\<open>Start\<close>.\<close>

definition Start_SETNX :: "'r redis \<Rightarrow> int \<Rightarrow> 'r \<Rightarrow> (redis_reply + redis_rest) \<times> 'r" where [simp]:
  "Start_SETNX R pollID r =
     (case rd_SETNX R (keyState pollID) ''1'' r of
        (Inl e, r1) \<Rightarrow> (Inl (ReplyErr (Some (Wrapped ''set state key to 1'' e))), r1)
      | (Inr _, r1) \<Rightarrow> (Inr (AddPoll pollID), r1))"

definition Start_SADD :: "'r redis \<Rightarrow> int \<Rightarrow> 'r \<Rightarrow> (redis_reply + redis_rest) \<times> 'r" where [simp]:
  "Start_SADD R pollID r =
     (case rd_SADD R keyPolls (Itoa pollID) r of
        (Inl e, r1) \<Rightarrow> (Inl (ReplyErr (Some (Wrapped (''add poll ID to '' @ keyPolls) e))), r1)
      | (Inr _, r1) \<Rightarrow> (Inl (ReplyErr None), r1))"

text \<open>The two commands of \<^verbatim>\<open>Stop\<close>; \<open>ks\<close> is the order in which it visits the map of votes.\<close>

definition Stop_SET :: "'r redis \<Rightarrow> int \<Rightarrow> 'r \<Rightarrow> (redis_reply + redis_rest) \<times> 'r" where [simp]:
  "Stop_SET R pollID r =
     (case rd_SET_XX R (keyState pollID) ''2'' r of
        (Inl e, r1) \<Rightarrow> (Inl (ReplyStop (Inl (Wrapped (''set key '' @ keyState pollID @ '' to 2'') e))), r1)
      | (Inr None, r1) \<Rightarrow> (Inl (ReplyStop (Inl (doesNotExistError ''poll does not exist''))), r1)
      | (Inr (Some _), r1) \<Rightarrow> (Inr (ReadVotes pollID), r1))"

definition Stop_HGETALL :: "'r redis \<Rightarrow> string list \<Rightarrow> int \<Rightarrow> 'r \<Rightarrow> (redis_reply + redis_rest) \<times> 'r" where [simp]:
  "Stop_HGETALL R ks pollID r =
     (case rd_HGETALL R (keyVote pollID) r of
        (Inl e, r1) \<Rightarrow> (Inl (ReplyStop (Inl (Wrapped (''getting vote objects from '' @ keyVote pollID) e))), r1)
      | (Inr data, r1) \<Rightarrow>
        (case stop_loop (map_of data) ks [] [] of
           Inl e \<Rightarrow> (Inl (ReplyStop (Inl e)), r1)
         | Inr (voteObjects, userIDs) \<Rightarrow> (Inl (ReplyStop (Inr (voteObjects, sort userIDs))), r1)))"

text \<open>The two commands of \<^verbatim>\<open>Clear\<close>.\<close>

definition Clear_DEL :: "'r redis \<Rightarrow> int \<Rightarrow> 'r \<Rightarrow> (redis_reply + redis_rest) \<times> 'r" where [simp]:
  "Clear_DEL R pollID r =
     (case rd_DEL R [keyVote pollID, keyState pollID] r of
        (Inl e, r1) \<Rightarrow> (Inl (ReplyErr (Some (Wrapped ''removing keys'' e))), r1)
      | (Inr _, r1) \<Rightarrow> (Inr (RemovePoll pollID), r1))"

definition Clear_SREM :: "'r redis \<Rightarrow> int \<Rightarrow> 'r \<Rightarrow> (redis_reply + redis_rest) \<times> 'r" where [simp]:
  "Clear_SREM R pollID r =
     (case rd_SREM R keyPolls (Itoa pollID) r of
        (Inl e, r1) \<Rightarrow> (Inl (ReplyErr (Some (Wrapped (''remove pollID from '' @ keyPolls) e))), r1)
      | (Inr _, r1) \<Rightarrow> (Inl (ReplyErr None), r1))"

text \<open>\<^verbatim>\<open>LiveVotes\<close> asks for the polls and then for the votes of each poll.\<close>

definition LiveVotes_SMEMBERS :: "'r redis \<Rightarrow> 'r \<Rightarrow> (redis_reply + redis_rest) \<times> 'r" where [simp]:
  "LiveVotes_SMEMBERS R r =
     (case rd_SMEMBERS R keyPolls r of
        (Inl e, r1) \<Rightarrow> (Inl (ReplyLive (Inl (Wrapped ''getting all known pollIDs'' e))), r1)
      | (Inr members, r1) \<Rightarrow>
        (case redis_Ints members of
           None \<Rightarrow> (Inl (ReplyLive (Inl (Wrapped ''getting all known pollIDs'' (plainError ''strconv.ParseInt'')))), r1)
         | Some pollIDs \<Rightarrow> (Inr (ReadLive pollIDs Map.empty), r1)))"

definition LiveVotes_HGETALL :: "'r redis \<Rightarrow> int \<Rightarrow> int list \<Rightarrow> live_votes \<Rightarrow> 'r \<Rightarrow> (redis_reply + redis_rest) \<times> 'r" where [simp]:
  "LiveVotes_HGETALL R pollID ids out r =
     (case rd_HGETALL R (keyVote pollID) r of
        (Inl e, r1) \<Rightarrow> (Inl (ReplyLive (Inl (Wrapped (''getting vote objects from '' @ keyVote pollID) e))), r1)
      | (Inr data, r1) \<Rightarrow>
        (case live_users data Map.empty of
           Inl e \<Rightarrow> (Inl (ReplyLive (Inl e)), r1)
         | Inr m \<Rightarrow> (Inr (ReadLive ids (out(pollID \<mapsto> Some m))), r1)))"

fun redis_first :: "'r redis \<Rightarrow> redis_call \<Rightarrow> 'r \<Rightarrow> (redis_reply + redis_rest) \<times> 'r" where
  "redis_first R (CallStart pollID) r = Start_SETNX R pollID r"
| "redis_first R (CallVote pollID userID obj) r =
     (case redis_Vote R pollID userID obj r of (x, r1) \<Rightarrow> (Inl (ReplyErr x), r1))"
| "redis_first R (CallStop pollID) r = Stop_SET R pollID r"
| "redis_first R (CallClear pollID) r = Clear_DEL R pollID r"
| "redis_first R CallClearAll r = (case redis_ClearAll R r of (x, r1) \<Rightarrow> (Inl (ReplyErr x), r1))"
| "redis_first R CallLiveVotes r = LiveVotes_SMEMBERS R r"

fun redis_next :: "'r redis \<Rightarrow> string list \<Rightarrow> redis_rest \<Rightarrow> 'r \<Rightarrow> (redis_reply + redis_rest) \<times> 'r" where
  "redis_next R ks (AddPoll pollID) r = Start_SADD R pollID r"
| "redis_next R ks (ReadVotes pollID) r = Stop_HGETALL R ks pollID r"
| "redis_next R ks (RemovePoll pollID) r = Clear_SREM R pollID r"
| "redis_next R ks (ReadLive [] out) r = (Inl (ReplyLive (Inr out)), r)"
| "redis_next R ks (ReadLive (pollID # ids) out) r = LiveVotes_HGETALL R pollID ids out r"

subsection \<open>A call without interruption\<close>

primrec rest_size :: "redis_rest \<Rightarrow> nat" where
  "rest_size (AddPoll p) = 1"
| "rest_size (ReadVotes p) = 1"
| "rest_size (RemovePoll p) = 1"
| "rest_size (ReadLive ids out) = Suc (length ids)"

definition work :: "(redis_reply + redis_rest) \<times> 'r \<Rightarrow> nat" where
  "work y = (case fst y of Inl _ \<Rightarrow> 0 | Inr k \<Rightarrow> rest_size k)"

lemma work_next: "work (redis_next R ks k r) < rest_size k"
  by (cases "(R, ks, k, r)" rule: redis_next.cases) (auto simp: work_def split: prod.splits sum.splits)

function redis_finish :: "'r redis \<Rightarrow> string list \<Rightarrow> (redis_reply + redis_rest) \<times> 'r \<Rightarrow> redis_reply \<times> 'r" where
  "redis_finish R ks (Inl y, r) = (y, r)"
| "redis_finish R ks (Inr k, r) = redis_finish R ks (redis_next R ks k r)"
  by pat_completeness auto
termination by (relation "measure (\<lambda>(R, ks, y). work y)") (auto simp: work_next, simp add: work_def work_next [unfolded work_def])

fun redis_whole :: "'r redis \<Rightarrow> string list \<Rightarrow> redis_call \<Rightarrow> 'r \<Rightarrow> redis_reply \<times> 'r" where
  "redis_whole R ks (CallStart p) r = map_prod ReplyErr id (redis_Start R p r)"
| "redis_whole R ks (CallVote p u obj) r = map_prod ReplyErr id (redis_Vote R p u obj r)"
| "redis_whole R ks (CallStop p) r = map_prod ReplyStop id (redis_Stop R ks p r)"
| "redis_whole R ks (CallClear p) r = map_prod ReplyErr id (redis_Clear R p r)"
| "redis_whole R ks CallClearAll r = map_prod ReplyErr id (redis_ClearAll R r)"
| "redis_whole R ks CallLiveVotes r = map_prod ReplyLive id (redis_LiveVotes R r)"

lemma finish_live:
  "redis_finish R ks (redis_next R ks (ReadLive ids out) r) = map_prod ReplyLive id (live_polls R ids out r)"
  by (induction ids arbitrary: out r) (auto split: prod.splits sum.splits)

lemma redis_finish_first: "redis_finish R ks (redis_first R call r) = redis_whole R ks call r"
  by (cases call) (auto simp: redis_Start_def redis_Stop_def redis_Clear_def redis_LiveVotes_def finish_live
      split: prod.splits sum.splits option.splits)

subsection \<open>Calls of many clients\<close>

text \<open>
  An unfinished call: what is left of it, how many calls came before it and for which polls a
  \<^verbatim>\<open>Start\<close> was under way at that moment.
\<close>

record open_call =
  rest :: redis_rest
  since :: nat
  starting_then :: "int list"

record 'r redis_run =
  server :: 'r
  open_calls :: "open_call list"
  history :: "event list"
  live_answers :: "(open_call \<times> nat \<times> (err + live_votes)) list"

definition starting :: "open_call list \<Rightarrow> int list" where
  "starting cs = List.map_filter (\<lambda>t. case rest t of AddPoll p \<Rightarrow> Some p | _ \<Rightarrow> None) cs"

text \<open>
  Every call but \<^verbatim>\<open>LiveVotes\<close> is an event at its first command. The result of a \<^verbatim>\<open>Stop\<close> that is still
  reading the votes is filled in when the call ends.
\<close>

fun call_event :: "redis_call \<Rightarrow> redis_reply + redis_rest \<Rightarrow> event list" where
  "call_event (CallStart p) y = [EvStart p]"
| "call_event (CallVote p u obj) (Inl (ReplyErr x)) = [EvVote p u obj x]"
| "call_event (CallStop p) (Inl (ReplyStop x)) = [EvStop p x]"
| "call_event (CallStop p) (Inr k) = [EvStop p (Inr ([], []))]"
| "call_event (CallClear p) y = [EvClear p]"
| "call_event CallClearAll y = [EvClearAll]"
| "call_event call y = []"

fun end_event :: "open_call \<Rightarrow> redis_reply \<Rightarrow> event list \<Rightarrow> event list" where
  "end_event t (ReplyStop x) h =
     (case rest t of ReadVotes p \<Rightarrow> h[since t := EvStop p x] | _ \<Rightarrow> h)"
| "end_event t y h = h"

fun live_answer :: "open_call \<Rightarrow> event list \<Rightarrow> redis_reply \<Rightarrow> (open_call \<times> nat \<times> (err + live_votes)) list" where
  "live_answer t h (ReplyLive y) = [(t, length h, y)]"
| "live_answer t h y = []"

definition new_call :: "redis_rest \<Rightarrow> 'r redis_run \<Rightarrow> open_call" where
  "new_call k c = \<lparr>rest = k, since = length (history c), starting_then = starting (open_calls c)\<rparr>"

definition redis_invoke :: "'r redis \<Rightarrow> redis_call \<Rightarrow> 'r redis_run \<Rightarrow> 'r redis_run" where
  "redis_invoke R call c =
     (case redis_first R call (server c) of (y, r) \<Rightarrow>
        \<lparr>server = r,
         open_calls = open_calls c @ (case y of Inl _ \<Rightarrow> [] | Inr k \<Rightarrow> [new_call k c]),
         history = history c @ call_event call y,
         live_answers = live_answers c @
           (case y of Inl z \<Rightarrow> live_answer (new_call (ReadLive [] Map.empty) c) (history c) z | Inr _ \<Rightarrow> [])\<rparr>)"

definition redis_resume :: "'r redis \<Rightarrow> string list \<Rightarrow> nat \<Rightarrow> 'r redis_run \<Rightarrow> 'r redis_run" where
  "redis_resume R ks n c =
     (let t = open_calls c ! n in
      case redis_next R ks (rest t) (server c) of
        (Inr k, r) \<Rightarrow> c\<lparr>server := r, open_calls := (open_calls c)[n := t\<lparr>rest := k\<rparr>]\<rparr>
      | (Inl z, r) \<Rightarrow>
          \<lparr>server = r,
           open_calls = take n (open_calls c) @ drop (Suc n) (open_calls c),
           history = end_event t z (history c),
           live_answers = live_answers c @ live_answer t (history c) z\<rparr>)"

text \<open>
  The calls that do not get in each other's way: a poll is cleared while no \<^verbatim>\<open>Start\<close> and no
  \<^verbatim>\<open>Stop\<close> of it is under way, and not started while it is being cleared.
\<close>

fun clash :: "redis_call \<Rightarrow> redis_rest \<Rightarrow> bool" where
  "clash (CallStart p) (RemovePoll q) \<longleftrightarrow> p = q"
| "clash (CallClear p) (AddPoll q) \<longleftrightarrow> p = q"
| "clash (CallClear p) (ReadVotes q) \<longleftrightarrow> p = q"
| "clash CallClearAll (AddPoll q) \<longleftrightarrow> True"
| "clash CallClearAll (ReadVotes q) \<longleftrightarrow> True"
| "clash call k \<longleftrightarrow> False"

definition apart :: "redis_call \<Rightarrow> open_call list \<Rightarrow> bool" where
  "apart call cs \<longleftrightarrow> list_all (\<lambda>t. \<not> clash call (rest t)) cs"

fun call_ok :: "redis_call \<Rightarrow> bool" where
  "call_ok (CallStart p) \<longleftrightarrow> in_int64 p"
| "call_ok (CallVote p u obj) \<longleftrightarrow> in_int64 p \<and> in_int64 u"
| "call_ok (CallStop p) \<longleftrightarrow> in_int64 p"
| "call_ok (CallClear p) \<longleftrightarrow> in_int64 p"
| "call_ok call \<longleftrightarrow> True"

fun order_ok :: "string list \<Rightarrow> redis_rest \<Rightarrow> keyspace \<Rightarrow> bool" where
  "order_ok ks (ReadVotes p) m \<longleftrightarrow> ks_order ks p m"
| "order_ok ks k m \<longleftrightarrow> True"

inductive redis_runs :: "'r redis \<Rightarrow> ('r \<Rightarrow> keyspace) \<Rightarrow> 'r \<Rightarrow> 'r redis_run \<Rightarrow> bool"
  for R :: "'r redis" and kv :: "'r \<Rightarrow> keyspace" and r0 :: 'r
where
  init: "redis_runs R kv r0 \<lparr>server = r0, open_calls = [], history = [], live_answers = []\<rparr>"
| invoke: "redis_runs R kv r0 c \<Longrightarrow> call_ok call \<Longrightarrow> apart call (open_calls c) \<Longrightarrow>
    redis_runs R kv r0 (redis_invoke R call c)"
| resume: "redis_runs R kv r0 c \<Longrightarrow> n < length (open_calls c) \<Longrightarrow>
    order_ok ks (rest (open_calls c ! n)) (kv (server c)) \<Longrightarrow> redis_runs R kv r0 (redis_resume R ks n c)"

end
