(* ===== verification/Redis_Linearizable.thy ===== *)
theory Redis_Linearizable
  imports Redis_Commands
begin

text \<open>
  What the clients of one Redis server see when their commands interleave. The invariant
  \<open>run_inv\<close> ties the key space to the calls so far: the state and the votes of every poll are what
  its events say, the set of polls is complete up to the \<^verbatim>\<open>Start\<close> calls under way, and each open
  call is where its commands have left it.
\<close>

definition voted_hash :: "(int \<times> bytes) list \<Rightarrow> (string \<rightharpoonup> string)" where
  "voted_hash acc = map_of (map (map_prod Itoa id) acc)"

definition poll_tracks :: "keyspace \<Rightarrow> event list \<Rightarrow> int \<Rightarrow> bool" where
  "poll_tracks m h p \<longleftrightarrow>
     m (keyState p) = (if started p h then Some (RStr (if closed p h then ''2'' else ''1'')) else None) \<and>
     (m (keyVote p) = None \<and> voted_hash (accepted p h) = Map.empty \<or>
      m (keyVote p) = Some (RHash (voted_hash (accepted p h)))) \<and>
     (if started p h then in_int64 p else accepted p h = [] \<and> \<not> closed p h) \<and>
     (\<forall>u \<in> fst ` set (accepted p h). in_int64 u) \<and> distinct (map fst (accepted p h))"

definition polls_track :: "keyspace \<Rightarrow> open_call list \<Rightarrow> event list \<Rightarrow> bool" where
  "polls_track m cs h \<longleftrightarrow>
     (m keyPolls = None \<or> m keyPolls = Some (RSet (set_at m))) \<and> set_at m \<subseteq> Itoa ` Collect in_int64 \<and>
     (\<forall>p. started p h \<longrightarrow> p \<in> set (starting cs) \<or> Itoa p \<in> set_at m)"

text \<open>The votes of a poll after the first \<open>k\<close> calls, for some \<open>k\<close> between \<open>i\<close> and \<open>j\<close>.\<close>

definition snapshot :: "event list \<Rightarrow> nat \<Rightarrow> nat \<Rightarrow> int \<Rightarrow> user_votes \<Rightarrow> bool" where
  "snapshot h i j p v \<longleftrightarrow>
     (\<exists>k. i \<le> k \<and> k \<le> j \<and> v = Some (\<lambda>u. map_option Some (map_of (accepted p (take k h)) u)))"

definition live_tracks :: "event list \<Rightarrow> open_call \<Rightarrow> nat \<Rightarrow> int list \<Rightarrow> live_votes \<Rightarrow> bool" where
  "live_tracks h t j ids out \<longleftrightarrow> since t \<le> j \<and> j \<le> length h \<and> (\<forall>p v. out p = Some v \<longrightarrow> snapshot h (since t) j p v) \<and>
     (\<forall>p. started p (take (since t) h) \<longrightarrow> p \<notin> set (starting_then t) \<longrightarrow> p \<in> set ids \<or> out p \<noteq> None)"

definition call_tracks :: "event list \<Rightarrow> open_call \<Rightarrow> bool" where
  "call_tracks h t \<longleftrightarrow>
     (case rest t of
        AddPoll p \<Rightarrow> in_int64 p
      | RemovePoll p \<Rightarrow> \<not> started p h
      | ReadVotes p \<Rightarrow> since t < length h \<and> (\<exists>x. h ! since t = EvStop p (Inr x)) \<and> started p h \<and> closed p h \<and>
          started p (take (since t) h) \<and> accepted p (take (since t) h) = accepted p h
      | ReadLive ids out \<Rightarrow> set ids \<subseteq> Collect in_int64 \<and> live_tracks h t (length h) ids out)"

definition answer_ok :: "event list \<Rightarrow> open_call \<times> nat \<times> (err + live_votes) \<Rightarrow> bool" where
  "answer_ok h a = (case a of (t, j, y) \<Rightarrow> \<exists>lv. y = Inr lv \<and> live_tracks h t j [] lv)"

definition open_stops :: "open_call list \<Rightarrow> nat list" where
  "open_stops cs = List.map_filter (\<lambda>t. case rest t of ReadVotes p \<Rightarrow> Some (since t) | _ \<Rightarrow> None) cs"

definition settled :: "open_call list \<Rightarrow> event list \<Rightarrow> bool" where
  "settled cs h \<longleftrightarrow> (\<forall>i<length h. i \<in> set (open_stops cs) \<or> legal_event (take i h) (h ! i))"

definition run_inv :: "keyspace \<Rightarrow> open_call list \<Rightarrow> event list \<Rightarrow> (open_call \<times> nat \<times> (err + live_votes)) list \<Rightarrow> bool" where
  "run_inv m cs h as \<longleftrightarrow> (\<forall>p. poll_tracks m h p) \<and> polls_track m cs h \<and> (\<forall>t \<in> set cs. call_tracks h t) \<and>
     (\<forall>a \<in> set as. answer_ok h a) \<and> settled cs h"

lemma run_invD:
  assumes "run_inv m cs h as"
  shows "poll_tracks m h p" "polls_track m cs h" "t \<in> set cs \<Longrightarrow> call_tracks h t" "a \<in> set as \<Longrightarrow> answer_ok h a"
    "settled cs h"
  using assms by (auto simp: run_inv_def)

subsection \<open>Votes of a poll as a hash\<close>

lemma voted_hash_Itoa [simp]: "voted_hash acc (Itoa u) = map_of acc u"
  by (induction acc) (auto simp: voted_hash_def)

lemma voted_hash_dom: "dom (voted_hash acc) = Itoa ` fst ` set acc"
  by (simp add: voted_hash_def dom_map_of_conv_image_fst image_image)

lemma Itoa_in_image [simp]: "Itoa u \<in> Itoa ` A \<longleftrightarrow> u \<in> A"
  by auto

lemma voted_hash_Nil [simp]: "voted_hash [] = Map.empty"
  by (simp add: voted_hash_def)

lemma voted_hash_empty [simp]: "voted_hash acc = Map.empty \<longleftrightarrow> acc = []"
  by (auto simp: voted_hash_def)

lemma voted_hash_snoc:
  assumes "u \<notin> fst ` set acc"
  shows "voted_hash (acc @ [(u, obj)]) = (voted_hash acc)(Itoa u \<mapsto> obj)"
proof -
  have "voted_hash acc (Itoa u) = None" using assms by (simp add: map_of_eq_None_iff)
  then show ?thesis by (auto simp: voted_hash_def map_add_def fun_eq_iff split: option.splits)
qed

lemma map_filter_map_of: "distinct (map fst xs) \<Longrightarrow> List.map_filter (map_of xs) (map fst xs) = map snd xs"
  by (auto simp: map_filter_dom dom_map_of_conv_image_fst)

lemma voted_hash_vals:
  assumes "distinct (map fst acc)"
  shows "vals (voted_hash acc) = mset (map snd acc)"
proof -
  let ?xs = "map (map_prod Itoa id) acc"
  have d: "distinct (map fst ?xs)" using assms by (auto simp: distinct_map inj_on_def)
  then have "is_order (map fst ?xs) (voted_hash acc)"
    by (simp add: is_order_def voted_hash_def dom_map_of_conv_image_fst del: map_map)
  from values_mset [OF this] map_filter_map_of [OF d] show ?thesis by (simp add: voted_hash_def comp_def)
qed

lemma stop_read:
  assumes "is_order ks (voted_hash acc)" "distinct (map fst acc)" "\<forall>u \<in> fst ` set acc. in_int64 u"
  shows "\<exists>objs uids. stop_loop (voted_hash acc) ks [] [] = Inr (objs, uids) \<and>
    mset objs = mset (map snd acc) \<and> sort uids = sort (map fst acc)"
proof -
  have dom: "dom (voted_hash acc) \<subseteq> Itoa ` Collect in_int64" using assms(3) by (auto simp: voted_hash_dom)
  let ?u = "List.map_filter Atoi ks"
  have u: "set ?u = fst ` set acc" "distinct ?u"
    using map_filter_Atoi [OF assms(1) dom] unfolding voted_hash_dom by simp_all
  have "sort ?u = sort (map fst acc)" by (rule sorted_order_unique) (use u assms(2) in auto)
  moreover have "stop_loop (voted_hash acc) ks [] [] = Inr (List.map_filter (voted_hash acc) ks, ?u)"
    using stop_loop_eq [of ks "voted_hash acc" "[]" "[]"] assms(1) dom by (simp add: is_order_def)
  ultimately show ?thesis using values_mset [OF assms(1)] voted_hash_vals [OF assms(2)] by auto
qed

subsection \<open>A new event at the end of the history\<close>

lemma snapshot_append [simp]: "j \<le> length h \<Longrightarrow> snapshot (h @ es) i j p v \<longleftrightarrow> snapshot h i j p v"
  unfolding snapshot_def by (auto intro!: arg_cong [where f = Ex])

lemma snapshot_later: "snapshot h i j p v \<Longrightarrow> j \<le> j' \<Longrightarrow> snapshot h i j' p v"
  by (auto simp: snapshot_def)

lemma live_tracks_append: "live_tracks h t j ids out \<Longrightarrow> j \<le> j' \<Longrightarrow> j' \<le> length (h @ es) \<Longrightarrow>
    live_tracks (h @ es) t j' ids out"
  unfolding live_tracks_def by (auto intro: snapshot_later [where j = j])

lemma answer_ok_append: "answer_ok h a \<Longrightarrow> answer_ok (h @ es) a"
  by (auto simp: answer_ok_def split: prod.splits intro!: live_tracks_append) (auto simp: live_tracks_def)

lemma open_stops_simps [simp]:
  "open_stops [] = []" "open_stops (cs @ ds) = open_stops cs @ open_stops ds"
  "open_stops (t # cs) = (case rest t of ReadVotes p \<Rightarrow> [since t] | _ \<Rightarrow> []) @ open_stops cs"
  by (auto simp: open_stops_def List.map_filter_def split: redis_rest.splits)

lemma starting_simps [simp]:
  "starting [] = []" "starting (cs @ ds) = starting cs @ starting ds"
  "starting (t # cs) = (case rest t of AddPoll p \<Rightarrow> [p] | _ \<Rightarrow> []) @ starting cs"
  by (auto simp: starting_def List.map_filter_def split: redis_rest.splits)

lemma set_starting: "p \<in> set (starting cs) \<longleftrightarrow> AddPoll p \<in> rest ` set cs"
  by (induction cs) (auto split: redis_rest.splits)

lemma apartD: "apart call cs \<Longrightarrow> t \<in> set cs \<Longrightarrow> \<not> clash call (rest t)"
  by (simp add: apart_def list_all_iff)

lemma settled_append:
  "settled cs h \<Longrightarrow> legal_event h e \<or> length h \<in> set (open_stops ds) \<Longrightarrow> settled (cs @ ds) (h @ [e])"
  by (auto simp: settled_def nth_append less_Suc_eq)

lemma run_inv_append:
  assumes inv: "run_inv m cs h as" and "\<And>p. poll_tracks m' (h @ [e]) p" "polls_track m' (cs @ ds) (h @ [e])"
    and "\<And>t. t \<in> set (cs @ ds) \<Longrightarrow> call_tracks (h @ [e]) t"
    and "legal_event h e \<or> length h \<in> set (open_stops ds)"
  shows "run_inv m' (cs @ ds) (h @ [e]) as"
  using assms settled_append [OF run_invD(5) [OF inv] assms(5)] answer_ok_append
  unfolding run_inv_def by blast

lemma call_tracks_append:
  assumes "call_tracks h t"
    and "\<And>p. rest t = RemovePoll p \<Longrightarrow> \<not> started p h \<Longrightarrow> \<not> started p (h @ [e])"
    and "\<And>p. rest t = ReadVotes p \<Longrightarrow> started p h \<Longrightarrow> closed p h \<Longrightarrow>
      started p (h @ [e]) \<and> closed p (h @ [e]) \<and> accepted p (h @ [e]) = accepted p h"
  shows "call_tracks (h @ [e]) t"
  using assms unfolding call_tracks_def
  by (cases "rest t") (auto simp: nth_append intro!: live_tracks_append simp del: started_simps closed_simps accepted_simps)

subsection \<open>The result of a stop is filled in\<close>

lemma foldl_update:
  "(\<And>a. i < length xs \<Longrightarrow> f a (xs ! i) = f a e) \<Longrightarrow> foldl f a (xs[i := e]) = foldl f a xs"
  by (induction xs arbitrary: i a) (auto split: nat.splits)

lemma refill:
  assumes "h ! i = EvStop p (Inr x)"
  shows "accepted q (take k (h[i := EvStop p (Inr z)])) = accepted q (take k h)"
    and "closed q (take k (h[i := EvStop p (Inr z)])) = closed q (take k h)"
    and "started q (take k (h[i := EvStop p (Inr z)])) = started q (take k h)"
    and "accepted q (h[i := EvStop p (Inr z)]) = accepted q h"
    and "closed q (h[i := EvStop p (Inr z)]) = closed q h"
    and "started q (h[i := EvStop p (Inr z)]) = started q h"
  using assms by (auto simp: accepted_def closed_def started_def take_update_swap intro!: foldl_update)

lemma legal_event_cong:
  assumes "\<And>q. accepted q es = accepted q es'" "\<And>q. closed q es = closed q es'" "\<And>q. started q es = started q es'"
  shows "legal_event es e = legal_event es' e"
  by (cases "(es, e)" rule: legal_event.cases) (simp_all add: assms history_verdict_def)

definition run_ok :: "('r \<Rightarrow> keyspace) \<Rightarrow> 'r redis_run \<Rightarrow> bool" where
  "run_ok kv c \<longleftrightarrow> run_inv (kv (server c)) (open_calls c) (history c) (live_answers c)"

lemma poll_tracks_cases:
  assumes "poll_tracks m h p"
  shows "m (keyState p) = None \<or> m (keyState p) = Some (RStr (if closed p h then ''2'' else ''1''))"
    and "m (keyVote p) = None \<and> voted_hash (accepted p h) = Map.empty \<or>
      m (keyVote p) = Some (RHash (voted_hash (accepted p h)))"
    and "m (keyState p) = None \<longleftrightarrow> \<not> started p h"
  using assms by (auto simp: poll_tracks_def)

lemma polls_track_cases:
  "polls_track m cs h \<Longrightarrow> m keyPolls = None \<and> set_at m = {} \<or> m keyPolls = Some (RSet (set_at m))"
  by (auto simp: polls_track_def set_at_def)

context redis_server
begin

lemma invoke_start:
  assumes inv: "run_ok kv c" and p: "in_int64 p" and apart: "apart (CallStart p) (open_calls c)"
  shows "run_ok kv (redis_invoke R (CallStart p) c)"
proof -
  obtain y r where 1: "rd_SETNX R (keyState p) ''1'' (server c) = (y, r)" by fastforce
  note s1 = setnx [OF 1]
  then obtain n where y: "y = Inr n" by blast
  note d = run_invD [OF inv [unfolded run_ok_def]]
  let ?e = "EvStart p" let ?h = "history c"
  have "run_inv (kv r) (open_calls c @ [new_call (AddPoll p) c]) (?h @ [?e]) (live_answers c)"
  proof (rule run_inv_append [OF inv [unfolded run_ok_def]])
    show "poll_tracks (kv r) (?h @ [?e]) q" for q
      using d(1) [of q] p s1 by (auto simp: poll_tracks_def)
    show "polls_track (kv r) (open_calls c @ [new_call (AddPoll p) c]) (?h @ [?e])"
      using d(2) s1 by (auto simp: polls_track_def new_call_def)
    show "call_tracks (?h @ [?e]) t" if "t \<in> set (open_calls c @ [new_call (AddPoll p) c])" for t
    proof (cases "t \<in> set (open_calls c)")
      case True
      with apart show ?thesis by (intro call_tracks_append [OF d(3)]) (auto dest: apartD)
    qed (use that p in \<open>simp add: call_tracks_def new_call_def\<close>)
  qed simp
  with 1 y show ?thesis by (simp add: run_ok_def redis_invoke_def)
qed

lemma vote_tracks:
  assumes pt: "\<And>q. poll_tracks (kv r) h q" and ps: "polls_track (kv r) cs h" and ok: "in_int64 p" "in_int64 u"
    and v: "redis_Vote R p u obj r = (x, r')"
  shows "poll_tracks (kv r') (h @ [EvVote p u obj x]) q" "polls_track (kv r') cs (h @ [EvVote p u obj x])"
    "set_at (kv r') = set_at (kv r)"
    "x = (case history_verdict p u h of NotStarted \<Rightarrow> Some (doesNotExistError ''poll is not started'')
      | AlreadyStopped \<Rightarrow> Some (stoppedError ''poll is stopped'')
      | AlreadyVoted \<Rightarrow> Some (doubleVoteError ''user has voted'') | Accepted \<Rightarrow> None)"
proof -
  note cs = poll_tracks_cases [OF pt [of p]]
  show eff1: "x = (case history_verdict p u h of NotStarted \<Rightarrow> Some (doesNotExistError ''poll is not started'')
      | AlreadyStopped \<Rightarrow> Some (stoppedError ''poll is stopped'')
      | AlreadyVoted \<Rightarrow> Some (doubleVoteError ''user has voted'') | Accepted \<Rightarrow> None)"
    and eff2: "set_at (kv r') = set_at (kv r)"
    using Vote_effect [OF cs(1,2) v] cs(3) by (auto simp: history_verdict_def voted_hash_dom split: if_splits)
  have eff: "kv r' = (if history_verdict p u h = Accepted
       then (kv r)(keyVote p \<mapsto> RHash ((voted_hash (accepted p h))(Itoa u \<mapsto> obj))) else kv r)"
    using Vote_effect [OF cs(1,2) v] cs(3) by (auto simp: history_verdict_def voted_hash_dom split: if_splits)
  show "poll_tracks (kv r') (h @ [EvVote p u obj x]) q"
    using pt [of q] ok eff eff1 by (auto simp: poll_tracks_def history_verdict_def voted_hash_snoc split: if_splits)
  show "polls_track (kv r') cs (h @ [EvVote p u obj x])" using ps eff by (auto simp: polls_track_def)
qed

lemma invoke_vote:
  assumes inv: "run_ok kv c" and ok: "in_int64 p" "in_int64 u"
  shows "run_ok kv (redis_invoke R (CallVote p u obj) c)"
proof -
  obtain x r where v: "redis_Vote R p u obj (server c) = (x, r)" by fastforce
  note d = run_invD [OF inv [unfolded run_ok_def]]
  note vt = vote_tracks [OF d(1,2) ok v]
  let ?e = "EvVote p u obj x" let ?h = "history c"
  have "run_inv (kv r) (open_calls c @ []) (?h @ [?e]) (live_answers c)"
  proof (rule run_inv_append [OF inv [unfolded run_ok_def] vt(1)])
    show "polls_track (kv r) (open_calls c @ []) (?h @ [?e])" using vt(2) by simp
    show "call_tracks (?h @ [?e]) t" if "t \<in> set (open_calls c @ [])" for t
      using that vt(4) by (intro call_tracks_append [OF d(3)]) (auto simp: history_verdict_def split: if_splits)
    show "legal_event ?h ?e \<or> length ?h \<in> set (open_stops [])"
      using vt(4) by (auto simp: verdict_of_def split: verdict.splits)
  qed
  with v show ?thesis by (simp add: run_ok_def redis_invoke_def)
qed

lemma invoke_stop:
  assumes inv: "run_ok kv c"
  shows "run_ok kv (redis_invoke R (CallStop p) c)"
proof -
  obtain y r where 1: "rd_SET_XX R (keyState p) ''2'' (server c) = (y, r)" by fastforce
  note s1 = set_xx [OF 1]
  note d = run_invD [OF inv [unfolded run_ok_def]]
  note pt = poll_tracks_cases [OF d(1) [of p]]
  let ?h = "history c"
  let ?x = "if started p ?h then Inr ([], []) else Inl (doesNotExistError ''poll does not exist'')"
  let ?e = "EvStop p ?x" let ?ds = "if started p ?h then [new_call (ReadVotes p) c] else []"
  have "run_inv (kv r) (open_calls c @ ?ds) (?h @ [?e]) (live_answers c)"
  proof (rule run_inv_append [OF inv [unfolded run_ok_def]])
    show "poll_tracks (kv r) (?h @ [?e]) q" for q
      using d(1) [of q] s1 pt(3) by (auto simp: poll_tracks_def)
    show "polls_track (kv r) (open_calls c @ ?ds) (?h @ [?e])"
      using d(2) s1 by (auto simp: polls_track_def)
    show "call_tracks (?h @ [?e]) t" if "t \<in> set (open_calls c @ ?ds)" for t
    proof (cases "t \<in> set (open_calls c)")
      case True
      then show ?thesis by (intro call_tracks_append [OF d(3)]) auto
    next
      case False
      with that have "started p ?h" "t = new_call (ReadVotes p) c" by (auto split: if_splits)
      then show ?thesis by (simp add: call_tracks_def new_call_def)
    qed
    show "legal_event ?h ?e \<or> length ?h \<in> set (open_stops ?ds)"
      by (simp add: new_call_def)
  qed
  with 1 s1 pt(3) show ?thesis by (auto simp: run_ok_def redis_invoke_def split: if_splits)
qed

lemma invoke_clear:
  assumes inv: "run_ok kv c" and apart: "apart (CallClear p) (open_calls c)"
  shows "run_ok kv (redis_invoke R (CallClear p) c)"
proof -
  obtain y r where 1: "rd_DEL R [keyVote p, keyState p] (server c) = (y, r)" by fastforce
  from del [OF 1] obtain n where y: "y = Inr n"
    and kv1: "kv r = ((kv (server c))(keyVote p := None))(keyState p := None)"
    by (auto simp: restrict_map_def fun_eq_iff)
  note d = run_invD [OF inv [unfolded run_ok_def]]
  let ?e = "EvClear p" let ?h = "history c"
  have "run_inv (kv r) (open_calls c @ [new_call (RemovePoll p) c]) (?h @ [?e]) (live_answers c)"
  proof (rule run_inv_append [OF inv [unfolded run_ok_def]])
    show "poll_tracks (kv r) (?h @ [?e]) q" for q
      using d(1) [of q] kv1 by (auto simp: poll_tracks_def)
    show "polls_track (kv r) (open_calls c @ [new_call (RemovePoll p) c]) (?h @ [?e])"
      using d(2) kv1 by (auto simp: polls_track_def new_call_def)
    show "call_tracks (?h @ [?e]) t" if "t \<in> set (open_calls c @ [new_call (RemovePoll p) c])" for t
    proof (cases "t \<in> set (open_calls c)")
      case True
      with apart show ?thesis by (intro call_tracks_append [OF d(3)]) (auto dest: apartD)
    qed (use that in \<open>simp add: call_tracks_def new_call_def\<close>)
  qed simp
  with 1 y show ?thesis by (simp add: run_ok_def redis_invoke_def)
qed

lemma invoke_clear_all:
  assumes inv: "run_ok kv c" and apart: "apart CallClearAll (open_calls c)"
  shows "run_ok kv (redis_invoke R CallClearAll c)"
proof -
  note d = run_invD [OF inv [unfolded run_ok_def]]
  let ?e = "EvClearAll" let ?h = "history c" let ?m = "kv (server c)"
  obtain x r where 1: "redis_ClearAll R (server c) = (x, r)" by fastforce
  define P where "P = {p. Itoa p \<in> set_at ?m}"
  have P: "set_at ?m = Itoa ` P" using d(2) by (auto simp: P_def polls_track_def)
  note eff = ClearAll_effect [OF polls_track_cases [OF d(2)] P 1]
  have "p \<notin> set (starting (open_calls c))" for p
    unfolding set_starting by (metis apartD [OF apart] clash.simps(4) imageE)
  then have in_P: "started p ?h \<Longrightarrow> p \<in> P" for p using d(2) by (auto simp: polls_track_def P_def)
  have "run_inv (kv r) (open_calls c @ []) (?h @ [?e]) (live_answers c)"
  proof (rule run_inv_append [OF inv [unfolded run_ok_def]])
    show "poll_tracks (kv r) (?h @ [?e]) q" for q
    proof (cases "q \<in> P")
      case False
      with d(1) [of q] in_P [of q] eff show ?thesis by (auto simp: poll_tracks_def restrict_map_def)
    qed (use eff in \<open>simp add: poll_tracks_def restrict_map_def\<close>)
    show "polls_track (kv r) (open_calls c @ []) (?h @ [?e])"
      using eff by (simp add: polls_track_def set_at_def restrict_map_def)
    show "call_tracks (?h @ [?e]) t" if "t \<in> set (open_calls c @ [])" for t
      using that apart by (intro call_tracks_append [OF d(3)]) (auto dest: apartD)
  qed simp
  with 1 show ?thesis by (simp add: run_ok_def redis_invoke_def live_answer.simps)
qed

lemma invoke_live:
  assumes inv: "run_ok kv c"
  shows "run_ok kv (redis_invoke R CallLiveVotes c)"
proof -
  note d = run_invD [OF inv [unfolded run_ok_def]]
  let ?h = "history c" let ?m = "kv (server c)"
  obtain y r where 1: "rd_SMEMBERS R keyPolls (server c) = (y, r)" by fastforce
  from smembers [OF polls_track_cases [OF d(2)] 1] obtain xs where xs: "y = Inr xs" "set xs = set_at ?m"
    and kv1: "kv r = ?m" by blast
  have sub: "set xs \<subseteq> Itoa ` Collect in_int64" using d(2) xs(2) by (simp add: polls_track_def)
  let ?ids = "List.map_filter Atoi xs" let ?t = "new_call (ReadLive ?ids Map.empty) c"
  note ints = redis_Ints_eq [OF sub]
  have ids: "q \<in> set ?ids \<longleftrightarrow> Itoa q \<in> set_at ?m" for q
    using ints(2) xs(2) by (metis Itoa_in_image)
  have "set ?ids \<subseteq> Collect in_int64" using ids d(2) by (auto simp: polls_track_def)
  moreover have "live_tracks ?h ?t (length ?h) ?ids Map.empty"
    using d(2) ids by (auto simp: live_tracks_def new_call_def polls_track_def)
  ultimately have "call_tracks ?h ?t" by (simp add: call_tracks_def new_call_def)
  with inv kv1 have "run_inv (kv r) (open_calls c @ [?t]) ?h (live_answers c)"
    by (auto simp: run_ok_def run_inv_def polls_track_def settled_def new_call_def)
  with 1 xs(1) ints(1) show ?thesis by (simp add: run_ok_def redis_invoke_def)
qed

lemma invoke_ok:
  assumes "run_ok kv c" "call_ok call" "apart call (open_calls c)"
  shows "run_ok kv (redis_invoke R call c)"
  using assms invoke_start invoke_vote invoke_stop invoke_clear invoke_clear_all invoke_live by (cases call) auto

text \<open>An open call gets its next answer; \<open>xs\<close> and \<open>ys\<close> are the other open calls.\<close>

lemma resume_add:
  assumes inv: "run_inv (kv r) (xs @ t # ys) h as" and t: "rest t = AddPoll p"
    and nx: "redis_next R ks (rest t) r = (y, r')"
  shows "y = Inl (ReplyErr None) \<and> run_inv (kv r') (xs @ ys) h as"
proof -
  note d = run_invD [OF inv]
  have p: "in_int64 p" using d(3) [of t] t by (simp add: call_tracks_def)
  obtain z r1 where 1: "rd_SADD R keyPolls (Itoa p) r = (z, r1)" by fastforce
  from sadd [OF polls_track_cases [OF d(2)] 1] obtain n where z: "z = Inr n"
    and kv1: "kv r1 = (kv r)(keyPolls \<mapsto> RSet (insert (Itoa p) (set_at (kv r))))" by blast
  from nx t 1 z have y: "y = Inl (ReplyErr None)" "r' = r1" by simp_all
  have "poll_tracks (kv r1) h q" for q using d(1) [of q] by (simp add: kv1 poll_tracks_def)
  moreover have "polls_track (kv r1) (xs @ ys) h" using d(2) p t by (auto simp: polls_track_def kv1)
  moreover have "settled (xs @ ys) h" using d(5) t by (simp add: settled_def)
  ultimately show ?thesis using y inv by (simp add: run_inv_def)
qed

lemma resume_remove:
  assumes inv: "run_inv (kv r) (xs @ t # ys) h as" and t: "rest t = RemovePoll p"
    and nx: "redis_next R ks (rest t) r = (y, r')"
  shows "y = Inl (ReplyErr None) \<and> run_inv (kv r') (xs @ ys) h as"
proof -
  note d = run_invD [OF inv]
  let ?S = "set_at (kv r) - {Itoa p}"
  have p: "\<not> started p h" using d(3) [of t] t by (simp add: call_tracks_def)
  obtain z r1 where 1: "rd_SREM R keyPolls (Itoa p) r = (z, r1)" by fastforce
  from srem [OF polls_track_cases [OF d(2)] 1] obtain n where z: "z = Inr n"
    and kv1: "kv r1 = (kv r)(keyPolls := (if ?S = {} then None else Some (RSet ?S)))" by blast
  from nx t 1 z have y: "y = Inl (ReplyErr None)" "r' = r1" by simp_all
  have "poll_tracks (kv r1) h q" for q using d(1) [of q] by (simp add: kv1 poll_tracks_def)
  moreover have "polls_track (kv r1) (xs @ ys) h"
  proof -
    have "set_at (kv r1) = ?S" by (simp add: kv1 del: Diff_eq_empty_iff)
    moreover have "kv r1 keyPolls = None \<or> kv r1 keyPolls = Some (RSet ?S)" by (simp add: kv1 del: Diff_eq_empty_iff)
    ultimately show ?thesis using d(2) p t by (auto simp: polls_track_def)
  qed
  moreover have "settled (xs @ ys) h" using d(5) t by (simp add: settled_def)
  ultimately show ?thesis using y inv by (simp add: run_inv_def)
qed

lemma read_poll:
  assumes pt: "poll_tracks (kv r) h p" and rd: "rd_HGETALL R (keyVote p) r = (z, r1)"
  shows "\<exists>data. z = Inr data \<and> live_users data Map.empty = Inr (\<lambda>u. map_option Some (map_of (accepted p h) u)) \<and>
    kv r1 = kv r"
proof -
  from hgetall [OF poll_tracks_cases(2) [OF pt] rd] obtain data where data: "z = Inr data"
    "distinct (map fst data)" "map_of data = voted_hash (accepted p h)" and kv1: "kv r1 = kv r" by blast
  have "fst ` set data = Itoa ` fst ` set (accepted p h)"
    using data(3) by (metis dom_map_of_conv_image_fst voted_hash_dom)
  then have sub: "fst ` set data \<subseteq> Itoa ` Collect in_int64" using pt by (auto simp: poll_tracks_def)
  have "live_users data Map.empty = Inr (\<lambda>u. map_option Some (map_of (accepted p h) u))"
    unfolding live_users_eq [OF data(2) sub] data(3) by (auto simp: fun_eq_iff split: option.splits)
  with data(1) kv1 show ?thesis by blast
qed

lemma live_polls_tracks:
  assumes "\<And>p. poll_tracks (kv r) h p"
  shows "\<exists>lv r'. live_polls R ids out r = (Inr lv, r') \<and> dom lv = dom out \<union> set ids \<and> kv r' = kv r"
  using assms
proof (induction ids arbitrary: out r)
  case (Cons p ids)
  obtain z r1 where 1: "rd_HGETALL R (keyVote p) r = (z, r1)" by fastforce
  from read_poll [OF Cons.prems 1] obtain data m where "z = Inr data" "live_users data Map.empty = Inr m"
    "kv r1 = kv r" by blast
  with Cons.IH [of r1 "out(p \<mapsto> Some m)"] Cons.prems 1 show ?case by (auto simp del: fun_upd_apply)
qed simp

lemma resume_live:
  assumes inv: "run_inv (kv r) (xs @ t # ys) h as" and t: "rest t = ReadLive ids out"
    and nx: "redis_next R ks (rest t) r = (y, r')"
  shows "case y of Inl z \<Rightarrow> run_inv (kv r') (xs @ ys) h (as @ live_answer t h z) \<and> end_event t z h = h
    | Inr k \<Rightarrow> run_inv (kv r') (xs @ t\<lparr>rest := k\<rparr> # ys) h as"
proof (cases ids)
  case Nil
  with nx t have y: "y = Inl (ReplyLive (Inr out))" "r' = r" by simp_all
  note d = run_invD [OF inv]
  have "answer_ok h (t, length h, Inr out)" using d(3) [of t] t Nil by (simp add: call_tracks_def answer_ok_def)
  with y inv t show ?thesis by (auto simp: run_inv_def polls_track_def settled_def)
next
  case (Cons p ids')
  note d = run_invD [OF inv]
  have ct: "live_tracks h t (length h) ids out" "set ids \<subseteq> Collect in_int64"
    using d(3) [of t] t by (simp_all add: call_tracks_def)
  let ?v = "\<lambda>u. map_option Some (map_of (accepted p h) u)"
  obtain z r1 where 1: "rd_HGETALL R (keyVote p) r = (z, r1)" by fastforce
  from read_poll [OF d(1) 1] obtain data where "z = Inr data" "live_users data Map.empty = Inr ?v"
    and kv1: "kv r1 = kv r" by blast
  with nx t Cons 1 have y: "y = Inr (ReadLive ids' (out(p \<mapsto> Some ?v)))" "r' = r1" by simp_all
  have "snapshot h (since t) (length h) p (Some ?v)"
    using ct(1) unfolding snapshot_def live_tracks_def by (intro exI [of _ "length h"]) simp
  with ct Cons have "call_tracks h (t\<lparr>rest := ReadLive ids' (out(p \<mapsto> Some ?v))\<rparr>)"
    by (auto simp: call_tracks_def live_tracks_def)
  with y inv t kv1 show ?thesis by (auto simp: run_inv_def polls_track_def settled_def)
qed

lemma stop_votes:
  assumes votes: "kv r (keyVote p) = None \<and> voted_hash acc = Map.empty \<or> kv r (keyVote p) = Some (RHash (voted_hash acc))"
    and acc: "distinct (map fst acc)" "\<forall>u \<in> fst ` set acc. in_int64 u"
    and ord: "ks_order ks p (kv r)" and nx: "redis_next R ks (ReadVotes p) r = (y, r')"
  shows "\<exists>objs. y = Inl (ReplyStop (Inr (objs, sort (map fst acc)))) \<and> mset objs = mset (map snd acc) \<and> kv r' = kv r"
proof -
  obtain g r1 where 1: "rd_HGETALL R (keyVote p) r = (g, r1)" by fastforce
  from hgetall [OF votes 1] obtain data where data: "g = Inr data" "map_of data = voted_hash acc"
    and kv1: "kv r1 = kv r" by blast
  have "is_order ks (voted_hash acc)" using ord votes by (auto simp: ks_order_def hash_at_def)
  from stop_read [OF this acc] data(2) obtain objs uids where "stop_loop (map_of data) ks [] [] = Inr (objs, uids)"
    "mset objs = mset (map snd acc)" "sort uids = sort (map fst acc)" by metis
  with nx 1 data(1) kv1 show ?thesis by auto
qed

lemma resume_votes:
  assumes inv: "run_inv (kv r) (xs @ t # ys) h as" and t: "rest t = ReadVotes p"
    and ord: "ks_order ks p (kv r)" and nx: "redis_next R ks (rest t) r = (y, r')"
  shows "\<exists>z. y = Inl (ReplyStop (Inr z)) \<and> run_inv (kv r') (xs @ ys) (h[since t := EvStop p (Inr z)]) as"
proof -
  note d = run_invD [OF inv]
  let ?i = "since t"
  from d(3) [of t] t obtain x where i: "?i < length h" "h ! ?i = EvStop p (Inr x)"
    and st: "started p (take ?i h)" "accepted p (take ?i h) = accepted p h"
    by (auto simp: call_tracks_def)
  have "distinct (map fst (accepted p h))" "\<forall>u \<in> fst ` set (accepted p h). in_int64 u"
    using d(1) [of p] by (simp_all add: poll_tracks_def)
  from stop_votes [OF poll_tracks_cases(2) [OF d(1) [of p]] this ord nx [unfolded t]] obtain objs where
    y: "y = Inl (ReplyStop (Inr (objs, sort (map fst (accepted p h)))))" and kv1: "kv r' = kv r"
    and res: "mset objs = mset (map snd (accepted p h))" by blast
  define h' where "h' = h[?i := EvStop p (Inr (objs, sort (map fst (accepted p h))))]"
  note rf = refill [OF i(2), where z = "(objs, sort (map fst (accepted p h)))", folded h'_def]
  have sn: "snapshot h' i' j' q v = snapshot h i' j' q v" for i' j' q v by (simp add: snapshot_def rf)
  then have lt: "live_tracks h' t' j' ids out = live_tracks h t' j' ids out" for t' j' ids out
    by (simp add: live_tracks_def rf) (simp add: h'_def)
  have ct: "call_tracks h' t'" if "call_tracks h t'" for t'
    using that i by (auto simp: call_tracks_def rf lt nth_list_update h'_def [symmetric] split: redis_rest.splits)
      (auto simp: h'_def nth_list_update)
  have "legal_event (take ?i h') (h' ! ?i)"
    using st res i(1) by (simp add: h'_def nth_list_update) 
  moreover have "legal_event (take j h') (h' ! j)" if "legal_event (take j h) (h ! j)" "j \<noteq> ?i" for j
    using that legal_event_cong [of "take j h'" "take j h"] by (simp add: rf) (simp add: h'_def)
  moreover have "length h' = length h" by (simp add: h'_def)
  ultimately have "settled (xs @ ys) h'" using d(5) t unfolding settled_def by fastforce
  moreover have "poll_tracks (kv r) h' q" for q using d(1) [of q] by (simp add: poll_tracks_def rf)
  moreover have "polls_track (kv r) (xs @ ys) h'" using d(2) t by (simp add: polls_track_def rf)
  moreover have "answer_ok h' a" if "a \<in> set as" for a using d(4) [OF that] by (simp add: answer_ok_def lt)
  ultimately show ?thesis using d(3) ct kv1 y by (auto simp: run_inv_def h'_def)
qed

lemma resume_ok:
  assumes inv: "run_ok kv c" and n: "n < length (open_calls c)"
    and ord: "order_ok ks (rest (open_calls c ! n)) (kv (server c))"
  shows "run_ok kv (redis_resume R ks n c)"
proof -
  define t xs ys where "t = open_calls c ! n" and "xs = take n (open_calls c)" and "ys = drop (Suc n) (open_calls c)"
  have cs: "open_calls c = xs @ t # ys" and len: "length xs = n"
    using n by (simp_all add: t_def xs_def ys_def id_take_nth_drop)
  have inv': "run_inv (kv (server c)) (xs @ t # ys) (history c) (live_answers c)"
    using inv by (simp add: run_ok_def cs)
  obtain y r' where nx: "redis_next R ks (rest t) (server c) = (y, r')" by fastforce
  have rs: "redis_resume R ks n c = (case y of
      Inr k \<Rightarrow> c\<lparr>server := r', open_calls := xs @ t\<lparr>rest := k\<rparr> # ys\<rparr>
    | Inl z \<Rightarrow> \<lparr>server = r', open_calls = xs @ ys, history = end_event t z (history c),
        live_answers = live_answers c @ live_answer t (history c) z\<rparr>)"
    using nx by (simp add: redis_resume_def Let_def cs len [symmetric] split: sum.splits)
  show ?thesis
  proof (cases "rest t")
    case (AddPoll p)
    from resume_add [OF inv' this nx] show ?thesis by (simp add: rs run_ok_def)
  next
    case (ReadVotes p)
    from resume_votes [OF inv' this _ nx] ord ReadVotes show ?thesis by (auto simp: rs run_ok_def t_def)
  next
    case (RemovePoll p)
    from resume_remove [OF inv' this nx] show ?thesis by (simp add: rs run_ok_def)
  next
    case (ReadLive ids out)
    from resume_live [OF inv' this nx] show ?thesis by (auto simp: rs run_ok_def split: sum.splits)
  qed
qed

lemma runs_ok:
  assumes "redis_runs R kv r0 c" "ks_fresh (kv r0)"
  shows "run_ok kv c"
  using assms
proof (induction rule: redis_runs.induct)
  case init
  then show ?case
    by (auto simp: run_ok_def run_inv_def ks_fresh_def poll_tracks_def polls_track_def settled_def set_at_def)
qed (auto intro: invoke_ok resume_ok)

lemma LiveVotes_tracks:
  assumes "\<And>p. poll_tracks (kv r) h p" and "polls_track (kv r) cs h" and l: "redis_LiveVotes R r = (y, r')"
  shows "\<exists>lv. y = Inr lv \<and> dom lv = {p. Itoa p \<in> set_at (kv r)} \<and> kv r' = kv r"
proof -
  obtain z r1 where 1: "rd_SMEMBERS R keyPolls r = (z, r1)" by fastforce
  from smembers [OF polls_track_cases [OF assms(2)] 1] obtain xs where xs: "z = Inr xs" "set xs = set_at (kv r)"
    and kv1: "kv r1 = kv r" by blast
  have sub: "set xs \<subseteq> Itoa ` Collect in_int64" using assms(2) xs(2) by (simp add: polls_track_def)
  note ints = redis_Ints_eq [OF sub]
  have "q \<in> set (List.map_filter Atoi xs) \<longleftrightarrow> Itoa q \<in> set_at (kv r)" for q
    using ints(2) xs(2) by (metis Itoa_in_image)
  then have ids: "set (List.map_filter Atoi xs) = {p. Itoa p \<in> set_at (kv r)}" by blast
  from live_polls_tracks [of r1 h "List.map_filter Atoi xs" Map.empty] assms(1) kv1 obtain lv r2 where
    "live_polls R (List.map_filter Atoi xs) Map.empty r1 = (Inr lv, r2)"
    "dom lv = set (List.map_filter Atoi xs)" "kv r2 = kv r" by auto
  with l 1 xs(1) ints(1) ids show ?thesis by (auto simp: redis_LiveVotes_def)
qed

text \<open>
  After \<^verbatim>\<open>Start\<close> has run between the two commands of \<^verbatim>\<open>Clear\<close> the key space is that of a poll
  whose \<^verbatim>\<open>Start\<close> has not reached its second command, and nobody will send it.
\<close>

lemma clear_start_race:
  assumes pt: "\<And>q. poll_tracks (kv r) h q" and ps: "polls_track (kv r) cs h" and p: "in_int64 p"
    and "redis_first R (CallClear p) r = (y1, r1)" "redis_first R (CallStart p) r1 = (y2, r2)"
    and "redis_next R ks (AddPoll p) r2 = (y3, r3)" "redis_next R ks (RemovePoll p) r3 = (y4, r4)"
  defines "h' \<equiv> h @ [EvClear p, EvStart p]" and "t \<equiv> \<lparr>rest = AddPoll p, since = 0, starting_then = []\<rparr>"
  shows "poll_tracks (kv r4) h' q" "polls_track (kv r4) (t # cs) h'" "Itoa p \<notin> set_at (kv r4)"
proof -
  let ?S = "set_at (kv r)"
  have h': "accepted q h' = (if q = p then [] else accepted q h)" "closed q h' = (closed q h \<and> q \<noteq> p)"
    "started q h' = (started q h \<or> q = p)" for q
    by (auto simp: h'_def accepted_def closed_def started_def)
  obtain z1 s1 where 1: "rd_DEL R [keyVote p, keyState p] r = (z1, s1)" by fastforce
  from del [OF 1] assms(4) 1 have kv1: "kv r1 = ((kv r)(keyVote p := None))(keyState p := None)"
    by (auto simp: restrict_map_def fun_eq_iff)
  obtain z2 s2 where 2: "rd_SETNX R (keyState p) ''1'' r1 = (z2, s2)" by fastforce
  from setnx [OF 2] assms(5) 2 have kv2: "kv r2 = (kv r1)(keyState p \<mapsto> RStr ''1'')" by (auto simp: kv1)
  obtain z3 s3 where 3: "rd_SADD R keyPolls (Itoa p) r2 = (z3, s3)" by fastforce
  have "kv r2 keyPolls = None \<and> ?S = {} \<or> kv r2 keyPolls = Some (RSet ?S)"
    using polls_track_cases [OF ps] by (simp add: kv2 kv1)
  from sadd [OF this 3] assms(6) 3 have kv3: "kv r3 = (kv r2)(keyPolls \<mapsto> RSet (insert (Itoa p) ?S))" by auto
  obtain z4 s4 where 4: "rd_SREM R keyPolls (Itoa p) r3 = (z4, s4)" by fastforce
  have "kv r3 keyPolls = Some (RSet (insert (Itoa p) ?S))" by (simp add: kv3)
  note rem = srem [OF disjI2 [OF this] 4]
  have "insert (Itoa p) ?S - {Itoa p} = ?S - {Itoa p}" by auto
  with rem obtain n where z4: "z4 = Inr n" and "kv s4 = (kv r3)(keyPolls :=
      (if ?S - {Itoa p} = {} then None else Some (RSet (?S - {Itoa p}))))" by metis
  moreover have "r4 = s4" using assms(7) 4 z4 by simp
  ultimately have kv4: "kv r4 = (kv r3)(keyPolls := (if ?S - {Itoa p} = {} then None else Some (RSet (?S - {Itoa p}))))"
    by metis
  have at: "set_at (kv r4) = ?S - {Itoa p}" by (simp add: kv4 del: Diff_eq_empty_iff)
  then show "Itoa p \<notin> set_at (kv r4)" by simp
  show "poll_tracks (kv r4) h' q"
    using pt [of q] p by (cases "q = p"; cases "started q h")
      (auto simp: poll_tracks_def h' kv4 kv3 kv2 kv1)
  have "kv r4 keyPolls = None \<or> kv r4 keyPolls = Some (RSet (?S - {Itoa p}))"
    by (simp add: kv4 del: Diff_eq_empty_iff)
  then show "polls_track (kv r4) (t # cs) h'" using ps by (auto simp: polls_track_def at h' t_def)
qed

end

end
