(* ===== verification/Redis_Interleavings.thy ===== *)
theory Redis_Interleavings
  imports Redis_Linearizable
begin

text \<open>
  The properties of the Redis backend under interleaved commands, and a run of the reference
  server on which they are applied.
\<close>

datatype redis_action = Invoke redis_call | Resume "string list" nat

fun perform :: "'r redis \<Rightarrow> 'r redis_run \<Rightarrow> redis_action \<Rightarrow> 'r redis_run" where
  "perform R c (Invoke call) = redis_invoke R call c"
| "perform R c (Resume ks n) = redis_resume R ks n c"

definition demo_start :: "ref_redis redis_run" where
  "demo_start = \<lparr>server = [], open_calls = [], history = [], live_answers = []\<rparr>"

text \<open>
  \<^verbatim>\<open>LiveVotes\<close> asks for the polls; then user 5 votes and \<^verbatim>\<open>Stop\<close> closes the poll; then \<^verbatim>\<open>LiveVotes\<close>
  reads the votes and \<^verbatim>\<open>Stop\<close> reads them too.
\<close>

definition demo_run :: "ref_redis redis_run" where
  "demo_run = foldl (perform ref_redis) demo_start
     [Invoke (CallStart 1), Resume [] 0, Invoke CallLiveVotes, Invoke (CallVote 1 5 ''Y''), Invoke (CallStop 1),
      Resume [] 0, Resume [] 0]"

lemma demo_run_value:
  "server demo_run = [(''vote_state_1'', FStr ''2''), (''vote_data_1'', FHash [(''5'', ''Y'')]),
     (''vote_polls'', FSet [''1'']), (''vote_state_1'', FStr ''1'')]"
  "case open_calls demo_run of [t] \<Rightarrow> (case rest t of ReadVotes p \<Rightarrow> p = 1 \<and> since t = 2 | _ \<Rightarrow> False) | _ \<Rightarrow> False"
  "history demo_run = [EvStart 1, EvVote 1 5 ''Y'' None, EvStop 1 (Inr ([], []))]"
  by code_simp+


text \<open>
  A run is one of \<open>redis_runs\<close> when its guards hold; apart from the end of a \<^verbatim>\<open>Stop\<close> they can be
  computed.
\<close>

fun action_ok :: "'r redis_run \<Rightarrow> redis_action \<Rightarrow> bool" where
  "action_ok c (Invoke call) \<longleftrightarrow> call_ok call \<and> apart call (open_calls c)"
| "action_ok c (Resume ks n) \<longleftrightarrow> n < length (open_calls c) \<and>
     (case rest (open_calls c ! n) of ReadVotes _ \<Rightarrow> False | _ \<Rightarrow> True)"

fun actions_ok :: "'r redis \<Rightarrow> 'r redis_run \<Rightarrow> redis_action list \<Rightarrow> bool" where
  "actions_ok R c [] \<longleftrightarrow> True"
| "actions_ok R c (a # as) \<longleftrightarrow> action_ok c a \<and> actions_ok R (perform R c a) as"

lemma actions_run: "redis_runs R kv r0 c \<Longrightarrow> actions_ok R c as \<Longrightarrow> redis_runs R kv r0 (foldl (perform R) c as)"
proof (induction as arbitrary: c)
  case (Cons a as)
  then have "action_ok c a" by simp
  then have "redis_runs R kv r0 (perform R c a)" using Cons.prems(1)
    by (cases a) (auto intro!: redis_runs.intros split: redis_rest.splits)
  with Cons show ?case by simp
qed simp

lemma demo_run_runs: "redis_runs ref_redis ref_kv [] demo_run"
  unfolding demo_run_def
proof (rule actions_run)
  show "redis_runs ref_redis ref_kv [] demo_start" unfolding demo_start_def by (rule redis_runs.init)
qed code_simp

text \<open>The votes are read and \<^verbatim>\<open>Stop\<close> returns.\<close>

definition demo_end :: "ref_redis redis_run" where
  "demo_end = redis_resume ref_redis [''5''] 0 demo_run"

lemma demo_end_runs: "redis_runs ref_redis ref_kv [] demo_end"
  unfolding demo_end_def
proof (rule redis_runs.resume [OF demo_run_runs])
  from demo_run_value(2) obtain t where t: "open_calls demo_run = [t]" "rest t = ReadVotes 1"
    by (auto split: list.splits redis_rest.splits)
  then show "0 < length (open_calls demo_run)" by simp
  have "keyVote 1 = ''vote_data_1''" by code_simp
  then show "order_ok [''5''] (rest (open_calls demo_run ! 0)) (ref_kv (server demo_run))"
    by (simp add: t ks_order_def hash_at_def demo_run_value(1) is_order_def)
qed

lemma demo_end_value:
  "history demo_end = [EvStart 1, EvVote 1 5 ''Y'' None, EvStop 1 (Inr ([''Y''], [5]))]"
  "open_stops (open_calls demo_end) = []"
  "case live_answers demo_end of [(t, j, Inr lv)] \<Rightarrow> since t = 1 \<and> j = 3 \<and> starting_then t = [] | _ \<Rightarrow> False"
  by code_simp+

subsection \<open>Properties\<close>

text \<open>
  C6. Any number of clients may call the Redis backend at the same time, and their commands may
  interleave in any way, as long as no poll is cleared while it is being started or stopped. Then
  every vote and every finished \<^verbatim>\<open>Stop\<close> has the result that the calls before it demand, each call taken
  at its first command (\<^verbatim>\<open>SETNX\<close>, the script, \<^verbatim>\<open>SET XX\<close>, \<^verbatim>\<open>DEL\<close>), and no user has two accepted votes.
\<close>
theorem redis_interleavings_are_legal:
  assumes server: "redis_server R kv" and "ks_fresh (kv r0)" and "redis_runs R kv r0 c"
  shows "(\<forall>i<length (history c). i \<in> set (open_stops (open_calls c)) \<or>
      legal_event (take i (history c)) (history c ! i)) \<and> distinct (map fst (accepted p (history c)))"
  using redis_server.runs_ok [OF server assms(3,2)]
  by (simp add: run_ok_def run_inv_def settled_def poll_tracks_def)

theorem redis_interleavings_are_legal_witness:
  "legal_event [EvStart 1, EvVote 1 5 ''Y'' None] (EvStop 1 (Inr ([''Y''], [5]))) \<and>
   distinct (map fst (accepted 1 (history demo_end)))"
  using redis_interleavings_are_legal [OF refrd.redis_server_axioms demo_redis_fresh demo_end_runs, of 1]
  by (simp add: demo_end_value All_less_Suc del: legal_event.simps)

text \<open>
  C19. \<^verbatim>\<open>LiveVotes\<close> of the Redis backend is not atomic, but as long as no poll is cleared while it is being
  started or stopped, and none is started while it is being cleared, it always succeeds, reports for each
  poll the votes accepted at one moment between its call and its return, and misses no poll
  that was started before the call and whose \<^verbatim>\<open>Start\<close> was not under way at the call.
\<close>
theorem redis_live_votes_are_snapshots:
  assumes server: "redis_server R kv" and "ks_fresh (kv r0)" and "redis_runs R kv r0 c"
    and "(t, j, y) \<in> set (live_answers c)"
  shows "\<exists>lv. y = Inr lv \<and>
    (\<forall>p v. lv p = Some v \<longrightarrow> (\<exists>k. since t \<le> k \<and> k \<le> j \<and> j \<le> length (history c) \<and>
       v = Some (\<lambda>u. map_option Some (map_of (accepted p (take k (history c))) u)))) \<and>
    (\<forall>p. started p (take (since t) (history c)) \<longrightarrow> p \<notin> set (starting_then t) \<longrightarrow> lv p \<noteq> None)"
proof -
  have "answer_ok (history c) (t, j, y)"
    using redis_server.runs_ok [OF server assms(3,2)] assms(4) by (simp add: run_ok_def run_inv_def)
  then show ?thesis by (auto simp: answer_ok_def live_tracks_def snapshot_def)
qed

theorem redis_live_votes_are_snapshots_witness:
  "\<exists>t j lv. live_answers demo_end = [(t, j, Inr lv)] \<and> since t = 1 \<and> lv 1 \<noteq> None \<and> sub_map lv 1 6 = None"
proof -
  from demo_end_value(3) obtain t lv where a: "live_answers demo_end = [(t, 3, Inr lv)]"
    and t: "since t = 1" "starting_then t = []"
    by (auto split: list.splits prod.splits sum.splits)
  then have "(t, 3, Inr lv) \<in> set (live_answers demo_end)" by simp
  from redis_live_votes_are_snapshots [OF refrd.redis_server_axioms demo_redis_fresh demo_end_runs this]
  have lv: "lv 1 \<noteq> None" and sn: "\<And>v. lv 1 = Some v \<Longrightarrow> \<exists>k. 1 \<le> k \<and> k \<le> 3 \<and>
      v = Some (\<lambda>u. map_option Some (map_of (accepted 1 (take k (history demo_end))) u))"
    by (auto simp: t demo_end_value started_def)
  have "accepted 1 (take k (history demo_end)) \<in> {[], [(5, ''Y'')]}" if "1 \<le> k" "k \<le> 3" for k
  proof -
    from that have "k = 1 \<or> k = 2 \<or> k = 3" by linarith
    then show ?thesis by (auto simp: demo_end_value accepted_def)
  qed
  with lv sn have "sub_map lv 1 6 = None" by (fastforce simp: sub_map_def)
  with a t lv show ?thesis by blast
qed

text \<open>
  C34. A poll that is cleared while \<^verbatim>\<open>Stop\<close> is between its two commands: \<^verbatim>\<open>Stop\<close> reports success with no
  vote and no user, for every order in which it may visit the map of votes that Redis gives, although
  votes were accepted. Without the \<^verbatim>\<open>Clear\<close> the same \<^verbatim>\<open>Stop\<close> returns all accepted votes and their users.
\<close>
theorem redis_clear_during_stop_loses_votes:
  assumes server: "redis_server R kv" and "ks_fresh (kv r0)" and "redis_runs R kv r0 c"
    and "accepted p (history c) \<noteq> []" "redis_first R (CallStop p) (server c) = (y1, r1)"
    and clear: "redis_first R (CallClear p) r1 = (y2, r2)" "order_ok ks (ReadVotes p) (kv r2)"
      "redis_next R ks (ReadVotes p) r2 = (y3, r3)"
    and no_clear: "order_ok ks' (ReadVotes p) (kv r1)" "redis_next R ks' (ReadVotes p) r1 = (y4, r4)"
  shows "y1 = Inr (ReadVotes p) \<and> y3 = Inl (ReplyStop (Inr ([], []))) \<and>
    (\<exists>objs. y4 = Inl (ReplyStop (Inr (objs, sort (map fst (accepted p (history c)))))) \<and>
       mset objs = mset (map snd (accepted p (history c))))"
proof -
  from redis_server.runs_ok [OF server assms(3,2)] have pt: "poll_tracks (kv (server c)) (history c) p"
    by (simp add: run_ok_def run_inv_def)
  have started: "started p (history c)" using pt assms(4) by (auto simp: poll_tracks_def split: if_splits)
  obtain z1 s1 where 1: "rd_SET_XX R (keyState p) ''2'' (server c) = (z1, s1)" by fastforce
  note set = redis_server.set_xx [OF server 1]
  from set poll_tracks_cases(3) [OF pt] started have "z1 = Inr (Some ''OK'')" by simp
  with assms(5) 1 have y1: "y1 = Inr (ReadVotes p)" "r1 = s1" by simp_all
  obtain z2 s2 where 2: "rd_DEL R [keyVote p, keyState p] r1 = (z2, s2)" by fastforce
  from redis_server.del [OF server 2] have none: "kv s2 (keyVote p) = None" "\<exists>n. z2 = Inr n"
    by (auto simp: restrict_map_def)
  with clear(1) 2 have r2: "r2 = s2" by auto
  obtain z3 s3 where 3: "rd_HGETALL R (keyVote p) r2 = (z3, s3)" by fastforce
  from redis_server.hgetall [OF server _ 3, of Map.empty] none r2 obtain data where "z3 = Inr data" "map_of data = Map.empty"
    by auto
  moreover have "ks = []" using clear(2) none r2 by (simp add: ks_order_def hash_at_def is_order_def)
  ultimately have "y3 = Inl (ReplyStop (Inr ([], [])))" using clear(3) 3 by simp
  moreover have "kv r1 (keyVote p) = kv (server c) (keyVote p)" using set y1(2) by simp
  with poll_tracks_cases(2) [OF pt] have votes: "kv r1 (keyVote p) = None \<and> voted_hash (accepted p (history c)) = Map.empty \<or>
      kv r1 (keyVote p) = Some (RHash (voted_hash (accepted p (history c))))" by simp
  have acc: "distinct (map fst (accepted p (history c)))" "\<forall>u \<in> fst ` set (accepted p (history c)). in_int64 u"
    using pt by (simp_all add: poll_tracks_def)
  ultimately show ?thesis
    using redis_server.stop_votes [OF server votes acc _ no_clear(2)] no_clear(1) y1(1) by auto
qed

text \<open>Poll 1 has the vote of user 5 when it is stopped and cleared at the same time.\<close>

definition demo_voted :: "ref_redis redis_run" where
  "demo_voted = foldl (perform ref_redis) demo_start [Invoke (CallStart 1), Resume [] 0, Invoke (CallVote 1 5 ''Y'')]"

lemma demo_voted_runs: "redis_runs ref_redis ref_kv [] demo_voted"
  unfolding demo_voted_def
proof (rule actions_run)
  show "redis_runs ref_redis ref_kv [] demo_start" unfolding demo_start_def by (rule redis_runs.init)
qed code_simp

lemma demo_voted_value:
  "history demo_voted = [EvStart 1, EvVote 1 5 ''Y'' None]" "server demo_voted = demo_redis"
  by code_simp+

lemma demo_stop_orders:
  "order_ok [] (ReadVotes 1) (ref_kv (snd (redis_first ref_redis (CallClear 1) (snd (redis_first ref_redis (CallStop 1) (server demo_voted))))))"
  "order_ok [''5''] (ReadVotes 1) (ref_kv (snd (redis_first ref_redis (CallStop 1) (server demo_voted))))"
proof -
  have k: "keyVote 1 = ''vote_data_1''" by code_simp
  have "snd (redis_first ref_redis (CallStop 1) (server demo_voted)) =
      [(''vote_state_1'', FStr ''2''), (''vote_data_1'', FHash [(''5'', ''Y'')]), (''vote_polls'', FSet [''1'']), (''vote_state_1'', FStr ''1'')]"
    "snd (redis_first ref_redis (CallClear 1) (snd (redis_first ref_redis (CallStop 1) (server demo_voted)))) =
      [(''vote_polls'', FSet [''1''])]"
    by code_simp+
  with k show "order_ok [] (ReadVotes 1) (ref_kv (snd (redis_first ref_redis (CallClear 1) (snd (redis_first ref_redis (CallStop 1) (server demo_voted))))))"
    "order_ok [''5''] (ReadVotes 1) (ref_kv (snd (redis_first ref_redis (CallStop 1) (server demo_voted))))"
    by (simp_all add: ks_order_def hash_at_def is_order_def ref_kv_def)
qed

theorem redis_clear_during_stop_loses_votes_witness:
  "\<exists>r1. r1 = snd (redis_first ref_redis (CallStop 1) (server demo_voted)) \<and>
   fst (redis_next ref_redis [] (ReadVotes 1) (snd (redis_first ref_redis (CallClear 1) r1))) = Inl (ReplyStop (Inr ([], []))) \<and>
   (\<exists>objs. fst (redis_next ref_redis [''5''] (ReadVotes 1) r1) = Inl (ReplyStop (Inr (objs, [5]))) \<and> mset objs = {#''Y''#})"
proof -
  have acc: "accepted 1 (history demo_voted) = [(5, ''Y'')]" by (simp add: demo_voted_value accepted_def)
  then have ne: "accepted 1 (history demo_voted) \<noteq> []" by simp
  note eq = prod.collapse [symmetric]
  from redis_clear_during_stop_loses_votes [OF refrd.redis_server_axioms demo_redis_fresh demo_voted_runs ne
      eq eq demo_stop_orders(1) eq demo_stop_orders(2) eq] show ?thesis by (auto simp: acc)
qed

text \<open>
  C35. A poll that is started anew while \<^verbatim>\<open>Clear\<close> is between its two commands: it takes votes, but
  \<^verbatim>\<open>LiveVotes\<close> does not report it, and after \<^verbatim>\<open>ClearAll\<close> its state and its votes are still there: a
  user that has voted is refused.
\<close>
theorem redis_start_during_clear_hides_poll:
  assumes server: "redis_server R kv" and "ks_fresh (kv r0)" and "redis_runs R kv r0 c" and ok: "in_int64 p" "in_int64 u"
    and race: "redis_first R (CallClear p) (server c) = (y1, r1)" "redis_first R (CallStart p) r1 = (y2, r2)"
      "redis_next R [] (AddPoll p) r2 = (y3, r3)" "redis_next R [] (RemovePoll p) r3 = (y4, r4)"
    and after: "redis_Vote R p u obj r4 = (x5, r5)" "redis_LiveVotes R r5 = (y6, r6)"
      "redis_ClearAll R r6 = (x7, r7)" "redis_Vote R p u obj' r7 = (x8, r8)"
  shows "x5 = None \<and> (\<exists>lv. y6 = Inr lv \<and> lv p = None) \<and> x7 = None \<and> x8 = Some (doubleVoteError ''user has voted'')"
proof -
  from redis_server.runs_ok [OF server assms(3,2)] have "\<And>q. poll_tracks (kv (server c)) (history c) q"
    "polls_track (kv (server c)) (open_calls c) (history c)" by (simp_all add: run_ok_def run_inv_def)
  note race = redis_server.clear_start_race [OF server this ok(1) race]
  note vt = redis_server.vote_tracks [OF server race(1,2) ok after(1)]
  let ?h = "history c @ [EvClear p, EvStart p]"
  have x5: "x5 = None" using vt(4) by (simp add: history_verdict_def accepted_def closed_def started_def)
  obtain lv where lv: "y6 = Inr lv" "lv p = None" "kv r6 = kv r5"
    using redis_server.LiveVotes_tracks [OF server vt(1,2) after(2)] vt(3) race(3) by blast
  define P where "P = {q. Itoa q \<in> set_at (kv r6)}"
  have P: "set_at (kv r6) = Itoa ` P" "p \<notin> P"
    using vt(2,3) race(3) lv(3) by (auto simp: P_def polls_track_def)
  have "kv r6 keyPolls = None \<and> set_at (kv r6) = {} \<or> kv r6 keyPolls = Some (RSet (set_at (kv r6)))"
    using polls_track_cases [OF vt(2)] lv(3) by simp
  note ca = redis_server.ClearAll_effect [OF server this P(1) after(3)]
  have h: "started p (?h @ [EvVote p u obj x5])" "\<not> closed p (?h @ [EvVote p u obj x5])"
    "accepted p (?h @ [EvVote p u obj x5]) = [(u, obj)]"
    by (simp_all add: x5 accepted_def closed_def started_def)
  have "kv r7 (keyState p) = kv r5 (keyState p)" "kv r7 (keyVote p) = kv r5 (keyVote p)"
    using ca P(2) lv(3) by (auto simp: restrict_map_def)
  then have at: "kv r7 (keyState p) = Some (RStr ''1'')" "kv r7 (keyVote p) = Some (RHash (voted_hash [(u, obj)]))"
    using vt(1) [of p] h by (auto simp: poll_tracks_def)
  from redis_server.Vote_effect [OF server disjI2 [OF at(1)] disjI2 [OF at(2)] after(4)] at(1) voted_hash_dom
  have "x8 = Some (doubleVoteError ''user has voted'')" by simp
  with x5 lv ca show ?thesis by blast
qed

theorem redis_start_during_clear_hides_poll_witness:
  "\<exists>r4. r4 = snd (redis_next ref_redis [] (RemovePoll 1) (snd (redis_next ref_redis [] (AddPoll 1)
       (snd (redis_first ref_redis (CallStart 1) (snd (redis_first ref_redis (CallClear 1) (server demo_voted)))))))) \<and>
     fst (redis_Vote ref_redis 1 5 ''Y'' r4) = None \<and>
     fst (redis_Vote ref_redis 1 5 ''N'' (snd (redis_ClearAll ref_redis
       (snd (redis_LiveVotes ref_redis (snd (redis_Vote ref_redis 1 5 ''Y'' r4))))))) =
     Some (doubleVoteError ''user has voted'')"
proof -
  have ok: "in_int64 1" "in_int64 5" by (simp_all add: in_int64_def)
  note eq = prod.collapse [symmetric]
  from redis_start_during_clear_hides_poll [OF refrd.redis_server_axioms demo_redis_fresh demo_voted_runs ok
      eq eq eq eq eq eq eq eq] show ?thesis by blast
qed

end
