(* ===== verification/Service_Commands.thy ===== *)
theory Service_Commands
  imports Concurrency_Properties Redis_Interleavings
begin

text \<open>
  Several instances of the service on one Redis and one Postgres server, where a call of the Redis
  backend is not one step but one step for each command that it sends (\<^verbatim>\<open>Start\<close>, \<^verbatim>\<open>Stop\<close>, \<^verbatim>\<open>Clear\<close> and
  \<^verbatim>\<open>LiveVotes\<close> send several), so that the commands of all goroutines of all instances interleave.

  A goroutine that has sent the first command of a call waits until the call has ended; then its task
  goes on with the reply (\<open>after_reply\<close>). Commands that nothing interrupts are the phases of
  \<open>Vote_Concurrency\<close> (\<open>fast_phase\<close>). The calls of Postgres are one step each: one statement, or one
  serializable transaction with its retries; only \<^verbatim>\<open>ClearAll\<close> is two statements in the code.
\<close>

text \<open>The call of the Redis backend that a task is about to make, and the task when the call has ended.\<close>

fun fast_call :: "task \<Rightarrow> redis_call option" where
  "fast_call (Starting poll p) = (if poll_Backend poll = ''fast'' then Some (CallStart p) else None)"
| "fast_call (Voting poll p u bs) = (if poll_Backend poll = ''fast'' then Some (CallVote p u bs) else None)"
| "fast_call (Stopping poll p) = (if poll_Backend poll = ''fast'' then Some (CallStop p) else None)"
| "fast_call (ClearingFast p) = Some (CallClear p)"
| "fast_call ClearingAllFast = Some CallClearAll"
| "fast_call LoadingFast = Some CallLiveVotes"
| "fast_call k = None"

fun after_reply :: "task \<Rightarrow> redis_reply \<Rightarrow> task" where
  "after_reply (Voting poll p u bs) (ReplyErr r) = goes_on r (Recording poll p u bs)"
| "after_reply (ClearingFast p) (ReplyErr r) = goes_on r (ClearingLong p)"
| "after_reply ClearingAllFast (ReplyErr r) = goes_on r ClearingAllLong"
| "after_reply LoadingFast (ReplyLive (Inr combinedData)) = LoadingLong combinedData"
| "after_reply k y = Idle"

lemma fast_phase:
  assumes "fast D = redis_backend R" "fast_call k = Some call" "phase D ks lc k v = (k', v', ls)"
  shows "\<exists>y. redis_finish R ks (redis_first R call (fastBackend v)) = (y, fastBackend v') \<and> k' = after_reply k y \<and>
    longBackend v' = longBackend v \<and> flow v' = flow v \<and> liveVotes v' = liveVotes v"
  using assms unfolding redis_finish_first
  by (cases k) (auto simp: backend_def redis_backend_def split: if_splits prod.splits sum.splits)

lemma own_phase_fast:
  assumes "fast_call k = None" "phase D fc lc k v = (k', v', ls)"
  shows "fastBackend v' = fastBackend v \<and> calls True (map (Pair i) ls) = []"
  using assms by (cases k) (auto simp: backend_def split: if_splits prod.splits sum.splits option.splits)

text \<open>
  The state: the Redis server with its open calls, the goroutine that waits for each of them, the calls
  of the long backend so far, and for the rest what a cluster has.
\<close>

record ('r, 'l, 'w) commands =
  cc_redis :: "'r redis_run"
  cc_waiting :: "nat list"
  cc_long :: 'l
  cc_calls :: "event list"
  cc_flow :: "nat \<Rightarrow> 'w"
  cc_live :: "nat \<Rightarrow> live_votes"
  cc_task :: "nat \<Rightarrow> nat \<times> task"

definition as_cluster :: "('r, 'l, 'w) commands \<Rightarrow> ('r, 'l, 'w) cluster" where
  "as_cluster c = \<lparr>c_fast = server (cc_redis c), c_long = cc_long c, c_flow = cc_flow c, c_live = cc_live c, c_task = cc_task c\<rparr>"

definition start_task :: "('f, 'fo, 'l, 'lo, 'w, 'd) deps \<Rightarrow> nat \<Rightarrow> nat \<Rightarrow> service_request \<Rightarrow> ('r, 'l, 'w) commands \<Rightarrow> ('r, 'l, 'w) commands" where
  "start_task D t i rq c = c\<lparr>cc_task := (cc_task c)(t := (i, accept_request D (cc_flow c i) rq))\<rparr>"

text \<open>Goroutine \<open>t\<close> sends the first command of a call; the call is at its end or the goroutine waits.\<close>

definition send_first :: "'r redis \<Rightarrow> redis_call \<Rightarrow> nat \<Rightarrow> ('r, 'l, 'w) commands \<Rightarrow> ('r, 'l, 'w) commands" where
  "send_first R call t c =
     (case cc_task c t of (i, k) \<Rightarrow>
      case fst (redis_first R call (server (cc_redis c))) of
        Inl y \<Rightarrow> c\<lparr>cc_redis := redis_invoke R call (cc_redis c), cc_task := (cc_task c)(t := (i, after_reply k y))\<rparr>
      | Inr _ \<Rightarrow> c\<lparr>cc_redis := redis_invoke R call (cc_redis c), cc_waiting := cc_waiting c @ [t]\<rparr>)"

text \<open>The goroutine that waits for the open call \<open>n\<close> sends its next command.\<close>

definition send_next :: "'r redis \<Rightarrow> string list \<Rightarrow> nat \<Rightarrow> ('r, 'l, 'w) commands \<Rightarrow> ('r, 'l, 'w) commands" where
  "send_next R ks n c =
     (let t = cc_waiting c ! n in
      case cc_task c t of (i, k) \<Rightarrow>
      case fst (redis_next R ks (rest (open_calls (cc_redis c) ! n)) (server (cc_redis c))) of
        Inl y \<Rightarrow> c\<lparr>cc_redis := redis_resume R ks n (cc_redis c), cc_waiting := take n (cc_waiting c) @ drop (Suc n) (cc_waiting c),
                   cc_task := (cc_task c)(t := (i, after_reply k y))\<rparr>
      | Inr _ \<Rightarrow> c\<lparr>cc_redis := redis_resume R ks n (cc_redis c)\<rparr>)"

text \<open>A phase that does not use Redis.\<close>

definition other_phase :: "('r, string list, 'l, 'lo, 'w, 'd) deps \<Rightarrow> 'lo \<Rightarrow> nat \<Rightarrow> ('r, 'l, 'w) commands \<Rightarrow> ('r, 'l, 'w) commands" where
  "other_phase D lc t c =
     (case run_phase D [] lc t (as_cluster c) of (ls, g) \<Rightarrow>
        c\<lparr>cc_long := c_long g, cc_calls := cc_calls c @ calls False ls, cc_flow := c_flow g, cc_live := c_live g,
          cc_task := c_task g\<rparr>)"

text \<open>
  The runs. A poll is not cleared while a \<^verbatim>\<open>Start\<close> or a \<^verbatim>\<open>Stop\<close> of it is between its two commands, and not
  started while a \<^verbatim>\<open>Clear\<close> of it is (\<open>apart\<close>); everything else may come in any order.
\<close>

inductive command_run ::
  "'r redis \<Rightarrow> ('r \<Rightarrow> keyspace) \<Rightarrow> ('r, string list, 'l, unit, 'w, 'd) deps \<Rightarrow> ('r, 'l, 'w) commands \<Rightarrow> ('r, 'l, 'w) commands \<Rightarrow> bool"
  for R :: "'r redis" and kv :: "'r \<Rightarrow> keyspace" and D :: "('r, string list, 'l, unit, 'w, 'd) deps"
    and c0 :: "('r, 'l, 'w) commands"
where
  init: "command_run R kv D c0 c0"
| request: "command_run R kv D c0 c \<Longrightarrow> snd (cc_task c t) = Idle \<Longrightarrow>
    (\<And>x. x \<in> task_ids (accept_request D (cc_flow c i) rq) \<Longrightarrow> in_int64 x \<and> in_int32 x) \<Longrightarrow>
    command_run R kv D c0 (start_task D t i rq c)"
| first: "command_run R kv D c0 c \<Longrightarrow> t \<notin> set (cc_waiting c) \<Longrightarrow> fast_call (snd (cc_task c t)) = Some call \<Longrightarrow>
    apart call (open_calls (cc_redis c)) \<Longrightarrow> command_run R kv D c0 (send_first R call t c)"
| resume: "command_run R kv D c0 c \<Longrightarrow> n < length (open_calls (cc_redis c)) \<Longrightarrow>
    order_ok ks (rest (open_calls (cc_redis c) ! n)) (kv (server (cc_redis c))) \<Longrightarrow>
    command_run R kv D c0 (send_next R ks n c)"
| other: "command_run R kv D c0 c \<Longrightarrow> fast_call (snd (cc_task c t)) = None \<Longrightarrow>
    command_run R kv D c0 (other_phase D () t c)"
| update: "command_run R kv D c0 c \<Longrightarrow> command_run R kv D c0 (c\<lparr>cc_flow := (cc_flow c)(i := w)\<rparr>)"

definition fresh_commands :: "('r \<Rightarrow> keyspace) \<Rightarrow> ('p \<Rightarrow> pg_tables option) \<Rightarrow> ('r, 'p, 'w) commands \<Rightarrow> bool" where
  "fresh_commands kv tables c \<longleftrightarrow> ks_fresh (kv (server (cc_redis c))) \<and> open_calls (cc_redis c) = [] \<and>
     history (cc_redis c) = [] \<and> live_answers (cc_redis c) = [] \<and> cc_waiting c = [] \<and>
     tables (cc_long c) = Some empty_tables \<and> cc_calls c = [] \<and> (\<forall>t. snd (cc_task c t) = Idle)"

subsection \<open>What the servers see\<close>

lemma after_reply_task: "task_ids (after_reply k y) \<subseteq> task_ids k \<and> voting_ok (after_reply k y)"
  by (cases "(k, y)" rule: after_reply.cases) (auto split: option.splits)

lemma fast_call_ok:
  assumes "fast_call k = Some call" "\<And>x. x \<in> task_ids k \<Longrightarrow> in_int64 x"
  shows "call_ok call"
  using assms by (cases k) (auto split: if_splits)

text \<open>
  A reply reaches the goroutine that waits for it: each open call has one goroutine that waits, and the
  rest of the call is what this goroutine's task asked for.
\<close>

fun waits_for :: "task \<Rightarrow> redis_rest \<Rightarrow> bool" where
  "waits_for (Starting poll p) (AddPoll q) \<longleftrightarrow> poll_Backend poll = ''fast'' \<and> q = p"
| "waits_for (Stopping poll p) (ReadVotes q) \<longleftrightarrow> poll_Backend poll = ''fast'' \<and> q = p"
| "waits_for (ClearingFast p) (RemovePoll q) \<longleftrightarrow> q = p"
| "waits_for LoadingFast (ReadLive ids out) \<longleftrightarrow> True"
| "waits_for k r \<longleftrightarrow> False"

definition waits :: "(nat \<Rightarrow> nat \<times> task) \<Rightarrow> nat list \<Rightarrow> open_call list \<Rightarrow> bool" where
  "waits T ws cs \<longleftrightarrow> list_all2 (\<lambda>t oc. waits_for (snd (T t)) (rest oc)) ws cs"

definition waiting_ok :: "('r, 'l, 'w) commands \<Rightarrow> bool" where
  "waiting_ok c \<longleftrightarrow> distinct (cc_waiting c) \<and> waits (cc_task c) (cc_waiting c) (open_calls (cc_redis c))"

lemma waits_first:
  assumes "fast_call k = Some call" "fst (redis_first R call r) = Inr m"
  shows "waits_for k m"
  using assms by (cases k) (auto split: if_splits prod.splits sum.splits option.splits)

lemma waits_next:
  assumes "waits_for k m" "fst (redis_next R ks m r) = Inr m'"
  shows "waits_for k m'"
  using assms by (cases "(k, m)" rule: waits_for.cases; cases "(R, ks, m, r)" rule: redis_next.cases)
    (auto split: prod.splits sum.splits)

lemma waits_fast_call: "waits_for k m \<Longrightarrow> fast_call k \<noteq> None"
  by (cases "(k, m)" rule: waits_for.cases) auto

lemma not_waiting: "waiting_ok c \<Longrightarrow> fast_call (snd (cc_task c t)) = None \<Longrightarrow> t \<notin> set (cc_waiting c)"
  by (auto simp: waiting_ok_def waits_def list_all2_conv_all_nth in_set_conv_nth dest: waits_fast_call)

lemma waits_upd: "t \<notin> set ws \<Longrightarrow> waits T ws cs \<Longrightarrow> waits (T(t := x)) ws cs"
  by (auto simp: waits_def list_all2_conv_all_nth in_set_conv_nth)

lemma waits_snoc: "waits T ws cs \<Longrightarrow> waits_for (snd (T t)) (rest oc) \<Longrightarrow> waits T (ws @ [t]) (cs @ [oc])"
  by (simp add: waits_def list_all2_appendI)

lemma waits_remove: "waits T ws cs \<Longrightarrow> waits T (take n ws @ drop (Suc n) ws) (take n cs @ drop (Suc n) cs)"
  unfolding waits_def by (intro list_all2_appendI list_all2_takeI list_all2_dropI)

lemma waits_change:
  assumes "waits T ws cs" "n < length cs" "waits_for (snd (T (ws ! n))) (rest oc)"
  shows "waits T ws (cs[n := oc])"
  using list_all2_update_cong [of _ ws cs "ws ! n" oc n] assms by (simp add: waits_def)

lemma distinct_remove:
  assumes "distinct xs" "n < length xs"
  shows "xs ! n \<notin> set (take n xs @ drop (Suc n) xs) \<and> distinct (take n xs @ drop (Suc n) xs)"
proof -
  have "distinct (take n xs @ xs ! n # drop (Suc n) xs)" using assms by (metis id_take_nth_drop)
  then show ?thesis by auto
qed

lemma send_first_waiting:
  assumes ok: "waiting_ok c" and t: "t \<notin> set (cc_waiting c)" "fast_call (snd (cc_task c t)) = Some call"
  shows "waiting_ok (send_first R call t c)"
proof (cases "fst (redis_first R call (server (cc_redis c)))")
  case (Inl y)
  with ok waits_upd [OF t(1)] show ?thesis
    by (auto simp: waiting_ok_def send_first_def redis_invoke_def split: prod.splits simp del: fun_upd_apply)
next
  case (Inr m)
  with ok t(1) waits_first [OF t(2) Inr] show ?thesis
    by (auto simp: waiting_ok_def send_first_def redis_invoke_def new_call_def split: prod.splits intro!: waits_snoc)
qed

lemma send_next_waiting:
  assumes ok: "waiting_ok c" and n: "n < length (open_calls (cc_redis c))"
  shows "waiting_ok (send_next R ks n c)"
proof -
  let ?ws = "cc_waiting c" and ?cs = "open_calls (cc_redis c)"
  have w: "waits (cc_task c) ?ws ?cs" and d: "distinct ?ws" using ok by (simp_all add: waiting_ok_def)
  have n': "n < length ?ws" using n w by (simp add: waits_def list_all2_lengthD)
  show ?thesis
  proof (cases "fst (redis_next R ks (rest (?cs ! n)) (server (cc_redis c)))")
    case (Inl y)
    with distinct_remove [OF d n'] waits_upd waits_remove [OF w, of n] show ?thesis
      by (auto simp: waiting_ok_def send_next_def redis_resume_def Let_def split: prod.splits simp del: fun_upd_apply set_append)
  next
    case (Inr m)
    have "waits_for (snd (cc_task c (?ws ! n))) (rest (?cs ! n))" using list_all2_nthD [OF w [unfolded waits_def] n'] .
    from waits_next [OF this Inr] waits_change [OF w n] Inr d show ?thesis
      by (auto simp: waiting_ok_def send_next_def redis_resume_def Let_def split: prod.splits)
  qed
qed

lemma command_run_waiting:
  assumes "command_run R kv D c0 c" "fresh_commands kv tables c0"
  shows "waiting_ok c"
  using assms
proof (induction rule: command_run.induct)
  case init
  then show ?case by (simp add: waiting_ok_def waits_def fresh_commands_def)
next
  case (request c t i rq)
  then have "t \<notin> set (cc_waiting c)" by (intro not_waiting) simp_all
  with request waits_upd show ?case by (simp add: waiting_ok_def start_task_def del: fun_upd_apply)
next
  case (other c t)
  then have t: "t \<notin> set (cc_waiting c)" by (intro not_waiting) simp_all
  obtain ls g where r: "run_phase D [] () t (as_cluster c) = (ls, g)" by fastforce
  then have "\<exists>x. c_task g = (cc_task c)(t := x)" by (elim run_phaseE) (auto simp: as_cluster_def)
  with other r waits_upd [OF t] show ?case by (auto simp: waiting_ok_def other_phase_def simp del: fun_upd_apply)
next
  case (update c i w)
  then show ?case by (simp add: waiting_ok_def)
qed (auto intro: send_first_waiting send_next_waiting)

lemma command_run_traces:
  assumes "command_run R kv D c0 c" "fresh_commands kv tables c0"
  shows "redis_runs R kv (server (cc_redis c0)) (cc_redis c) \<and>
    backend_trace (long D) in_int32 (\<lambda>_ _ _. True) (cc_long c0) (cc_calls c) (cc_long c) \<and>
    (\<forall>t. (\<forall>x \<in> task_ids (snd (cc_task c t)). in_int64 x \<and> in_int32 x) \<and> voting_ok (snd (cc_task c t)))"
  using assms
proof (induction rule: command_run.induct)
  case init
  then have "cc_redis c0 = \<lparr>server = server (cc_redis c0), open_calls = [], history = [], live_answers = []\<rparr>"
    by (simp add: fresh_commands_def)
  then have "redis_runs R kv (server (cc_redis c0)) (cc_redis c0)" by (metis redis_runs.init)
  with init show ?case by (auto simp: fresh_commands_def intro: backend_trace.init)
next
  case (request c t i rq)
  then show ?case by (auto simp: start_task_def accept_voting_ok)
next
  case (first c t call)
  note IH = first.IH [OF first.prems]
  have "call_ok call" by (rule fast_call_ok [OF first.hyps(3)]) (use IH in blast)
  then have "redis_runs R kv (server (cc_redis c0)) (redis_invoke R call (cc_redis c))"
    using IH first.hyps(4) by (auto intro: redis_runs.invoke)
  with IH after_reply_task show ?case
    by (auto simp: send_first_def split: prod.splits sum.splits) (metis prod.sel(2) subsetD)+
next
  case (resume c n ks)
  note IH = resume.IH [OF resume.prems]
  have "redis_runs R kv (server (cc_redis c0)) (redis_resume R ks n (cc_redis c))"
    using IH resume.hyps by (auto intro: redis_runs.resume)
  with IH after_reply_task show ?case
    by (auto simp: send_next_def Let_def split: prod.splits sum.splits) (metis prod.sel(2) subsetD)+
next
  case (other c t)
  note IH = other.IH [OF other.prems]
  obtain ls g where r: "run_phase D [] () t (as_cluster c) = (ls, g)" by fastforce
  then show ?case
  proof (rule run_phaseE)
    fix i k k' v' ls'
    assume p: "c_task (as_cluster c) t = (i, k)" "phase D [] () k (view (as_cluster c) i) = (k', v', ls')" "ls = map (Pair i) ls'"
      "c_fast g = fastBackend v'" "c_long g = longBackend v'" "c_task g = (c_task (as_cluster c))(t := (i, k'))"
    have k: "snd (cc_task c t) = k" using p(1) by (simp add: as_cluster_def)
    with IH have ids: "\<And>x. x \<in> task_ids k \<Longrightarrow> True \<and> in_int32 x" and vo: "voting_ok k" by auto
    have "backend_trace (long D) in_int32 (\<lambda>_ _ _. True) (cc_long c0) (cc_calls c @ calls False ls) (c_long g)"
      unfolding p(3,5)
      by (rule conjunct2 [OF phase_traces [where okF = "\<lambda>_. True" and okOF = "\<lambda>_ _ _. True", OF p(2) ids vo _ backend_trace.init]])
        (use IH in \<open>simp_all add: as_cluster_def\<close>)
    moreover have "\<forall>x \<in> task_ids k'. in_int64 x \<and> in_int32 x" "voting_ok k'"
      using phase_task [OF p(2) vo] IH k by blast+
    ultimately show ?case using IH r p(6) by (auto simp: other_phase_def as_cluster_def)
  qed
qed simp_all

text \<open>
  C1. One vote for each user when requests overlap: any number of instances with any number of goroutines
  share a Redis and a Postgres server, and the commands that they send to Redis interleave in any
  way, as long as no poll is cleared while it is being started or stopped, and not started while it
  is being cleared. Then on both servers every vote and every finished stop has the result that the
  calls before it demand, a call of Redis taken at its first command, and no user has two accepted votes
  in a poll between two clears. The calls of Postgres are single steps.
\<close>
theorem interleaved_votes_are_legal:
  assumes prod: "production R kv X tables conflicts ctx_done D on_fast" and fresh: "fresh_commands kv tables c0"
    and run: "command_run R kv D c0 c"
  shows "(\<forall>i<length (history (cc_redis c)). i \<in> set (open_stops (open_calls (cc_redis c))) \<or>
      legal_event (take i (history (cc_redis c))) (history (cc_redis c) ! i)) \<and> legal (cc_calls c) \<and>
    distinct (map fst (accepted p (history (cc_redis c)))) \<and> distinct (map fst (accepted p (cc_calls c)))"
proof -
  note tr = command_run_traces [OF run fresh]
  have "redis_server R kv" using prod by (simp add: production_def)
  from redis_server.runs_ok [OF this conjunct1 [OF tr]] fresh have "run_ok kv (cc_redis c)" by (simp add: fresh_commands_def)
  moreover have "legal (cc_calls c)"
    by (rule backend_contract.trace_legal [OF vote_service.axioms(2) [OF production.service [OF prod]]])
      (use tr fresh empty_tables_inv [of tables "cc_long c0"] in \<open>auto simp: fresh_commands_def\<close>)
  ultimately show ?thesis using legal_distinct [of "cc_calls c"]
    by (simp add: run_ok_def run_inv_def settled_def poll_tracks_def)
qed

subsection \<open>A concrete run\<close>

datatype command_action = TakeRequest nat nat service_request | SendFirst nat | SendNext nat | OtherPhase nat

fun command_step :: "'r redis \<Rightarrow> ('r, string list, 'l, unit, 'w, 'd) deps \<Rightarrow> command_action \<Rightarrow> ('r, 'l, 'w) commands
    \<Rightarrow> ('r, 'l, 'w) commands option" where
  "command_step R D (TakeRequest t i rq) c =
     (if is_idle (snd (cc_task c t)) \<and> (\<forall>x \<in> task_ids (accept_request D (cc_flow c i) rq). in_int64 x \<and> in_int32 x)
      then Some (start_task D t i rq c) else None)"
| "command_step R D (SendFirst t) c =
     (case fast_call (snd (cc_task c t)) of
        None \<Rightarrow> None
      | Some call \<Rightarrow> if t \<notin> set (cc_waiting c) \<and> apart call (open_calls (cc_redis c))
                     then Some (send_first R call t c) else None)"
| "command_step R D (SendNext n) c =
     (if n < length (open_calls (cc_redis c)) \<and> (case rest (open_calls (cc_redis c) ! n) of ReadVotes _ \<Rightarrow> False | _ \<Rightarrow> True)
      then Some (send_next R [] n c) else None)"
| "command_step R D (OtherPhase t) c =
     (case fast_call (snd (cc_task c t)) of None \<Rightarrow> Some (other_phase D () t c) | Some _ \<Rightarrow> None)"

fun command_exec :: "'r redis \<Rightarrow> ('r, string list, 'l, unit, 'w, 'd) deps \<Rightarrow> command_action list \<Rightarrow> ('r, 'l, 'w) commands
    \<Rightarrow> ('r, 'l, 'w) commands option" where
  "command_exec R D [] c = Some c"
| "command_exec R D (a # as) c = (case command_step R D a c of None \<Rightarrow> None | Some c' \<Rightarrow> command_exec R D as c')"

lemma command_step_run:
  assumes "command_step R D a c = Some c'" "command_run R kv D c0 c"
  shows "command_run R kv D c0 c'"
  using assms
  by (cases a) (auto split: if_splits option.splits redis_rest.splits
      intro!: command_run.request command_run.first command_run.resume command_run.other)

lemma command_exec_run:
  assumes "command_exec R D as c = Some c'" "command_run R kv D c0 c"
  shows "command_run R kv D c0 c'"
  using assms by (induction R D as c rule: command_exec.induct) (auto split: option.splits intro: command_step_run)

definition demo_commands :: "(ref_redis, ref_db, string) commands" where
  "demo_commands = \<lparr>cc_redis = demo_start, cc_waiting = [], cc_long = demo_db0, cc_calls = [], cc_flow = (\<lambda>_. ''named''),
     cc_live = (\<lambda>_. Map.empty), cc_task = (\<lambda>_. (0, Idle))\<rparr>"

text \<open>
  Instance 0 starts poll 1; between the two commands of \<^verbatim>\<open>Start\<close> the vote of user 2 arrives at both instances
  and is sent by instance 0. Then \<^verbatim>\<open>Start\<close> ends, instance 1 sends the same vote, sends the first command
  of \<^verbatim>\<open>Stop\<close>, and starts poll 2 on Postgres.
\<close>

definition overlap_actions :: "command_action list" where
  "overlap_actions = [TakeRequest 0 0 (RStart 1), SendFirst 0, TakeRequest 1 0 (RVote [1] 1 1 demo_ballot),
     TakeRequest 2 1 (RVote [1] 1 1 demo_ballot), SendFirst 1, SendNext 0, SendFirst 2,
     TakeRequest 3 1 (RStop 1), SendFirst 3, TakeRequest 4 1 (RStart 2), OtherPhase 4]"

lemma overlap_history:
  "map_option (\<lambda>c. (history (cc_redis c), open_stops (open_calls (cc_redis c)), cc_waiting c, cc_calls c))
     (command_exec ref_redis demo_deps overlap_actions demo_commands) =
   Some ([EvStart 1, EvVote 1 2 demo_object None, EvVote 1 2 demo_object (Some (doubleVoteError ''user has voted'')),
     EvStop 1 (Inr ([], []))], [3], [3], [EvStart 2])"
  by code_simp

theorem interleaved_votes_are_legal_witness:
  "\<exists>c. command_run ref_redis ref_kv demo_deps demo_commands c \<and> open_stops (open_calls (cc_redis c)) = [3] \<and>
     legal_event [EvStart 1, EvVote 1 2 demo_object None] (history (cc_redis c) ! 2) \<and> legal (cc_calls c) \<and>
     cc_calls c = [EvStart 2] \<and> distinct (map fst (accepted 1 (history (cc_redis c))))"
proof -
  from overlap_history obtain c where x: "command_exec ref_redis demo_deps overlap_actions demo_commands = Some c"
    and c: "history (cc_redis c) = [EvStart 1, EvVote 1 2 demo_object None,
        EvVote 1 2 demo_object (Some (doubleVoteError ''user has voted'')), EvStop 1 (Inr ([], []))]"
      "open_stops (open_calls (cc_redis c)) = [3]" "cc_calls c = [EvStart 2]" by auto
  have run: "command_run ref_redis ref_kv demo_deps demo_commands c" by (rule command_exec_run [OF x command_run.init])
  have "fresh_commands ref_kv ref_tables demo_commands"
    using demo_redis_fresh demo_db0_tables by (simp add: fresh_commands_def demo_commands_def demo_start_def)
  note legal = interleaved_votes_are_legal [OF refprod.production_axioms this run, of 1]
  have "2 < length (history (cc_redis c))" "2 \<notin> set (open_stops (open_calls (cc_redis c)))" by (simp_all add: c)
  with legal have "legal_event (take 2 (history (cc_redis c))) (history (cc_redis c) ! 2)" by blast
  with legal run c show ?thesis by (intro exI [of _ c]) (simp add: numeral_2_eq_2)
qed

end
