(* ===== verification/Http_Request.thy ===== *)
theory Http_Request
  imports Go_Errors Json
begin

text \<open>
  Reading the arguments of a request (\<^verbatim>\<open>vote/http/http.go\<close>: \<^verbatim>\<open>pollID\<close>, \<^verbatim>\<open>pollsID\<close>) with what it uses of
  \<^verbatim>\<open>net/url\<close> and \<^verbatim>\<open>strings\<close>: the raw query is split into pairs, keys and values are unescaped, and a
  pair that cannot be unescaped or that contains a semicolon is dropped.
\<close>

record request =
  req_Path :: string
  req_RawQuery :: string
  req_Body :: string

text \<open>\<^verbatim>\<open>strings.Split\<close> with a separator of one character; the result is never empty.\<close>

fun Split :: "char \<Rightarrow> string \<Rightarrow> string list" where
  "Split sep [] = [[]]"
| "Split sep (c # cs) =
     (if c = sep then [] # Split sep cs
      else case Split sep cs of [] \<Rightarrow> [[c]] | w # ws \<Rightarrow> (c # w) # ws)"

text \<open>\<^verbatim>\<open>url.QueryUnescape\<close>\<close>

fun QueryUnescape :: "string \<Rightarrow> string option" where
  "QueryUnescape [] = Some []"
| "QueryUnescape (c # cs) =
     (if c = CHR ''%'' then
        (case cs of
           a # b # r \<Rightarrow> if is_hex a \<and> is_hex b
             then map_option (Cons (char_of (hex_val a * 16 + hex_val b))) (QueryUnescape r) else None
         | _ \<Rightarrow> None)
      else if c = CHR ''+'' then map_option (Cons CHR '' '') (QueryUnescape cs)
      else map_option (Cons c) (QueryUnescape cs))"

text \<open>\<^verbatim>\<open>strings.Cut\<close> at the first equals sign.\<close>

definition Cut :: "char \<Rightarrow> string \<Rightarrow> string \<times> string" where
  "Cut c s = (takeWhile (\<lambda>x. x \<noteq> c) s, drop 1 (dropWhile (\<lambda>x. x \<noteq> c) s))"

definition parse_pair :: "string \<Rightarrow> (string \<times> string) option" where
  "parse_pair part =
     (if part = [] \<or> CHR '';'' \<in> set part then None
      else case Cut CHR ''='' part of (k, v) \<Rightarrow>
        (case (QueryUnescape k, QueryUnescape v) of
           (Some k', Some v') \<Rightarrow> Some (k', v')
         | _ \<Rightarrow> None))"

text \<open>\<^verbatim>\<open>r.URL.Query()\<close> and \<^verbatim>\<open>Values.Get\<close>: the first value of the key, the empty string if there is none.\<close>

definition Query :: "string \<Rightarrow> (string \<times> string) list" where
  "Query raw = List.map_filter parse_pair (Split CHR ''&'' raw)"

definition Get :: "(string \<times> string) list \<Rightarrow> string \<Rightarrow> string" where
  "Get values key = (case map_of values key of None \<Rightarrow> [] | Some v \<Rightarrow> v)"

definition pollID :: "request \<Rightarrow> err + int" where
  "pollID r =
     (let rawID = Get (Query (req_RawQuery r)) ''id'' in
      if rawID = [] then Inl (plainError ''no id argument provided'')
      else case Atoi rawID of
        None \<Rightarrow> Inl (plainError (''id invalid. Expected int, got '' @ rawID))
      | Some i \<Rightarrow> Inr i)"

fun parse_ids :: "nat \<Rightarrow> string list \<Rightarrow> err + int list" where
  "parse_ids i [] = Inr []"
| "parse_ids i (rawID # rawIDs) =
     (case Atoi rawID of
        None \<Rightarrow> Inl (plainError (Itoa (int i) @ ''th id invalid. Expected int, got '' @ rawID))
      | Some x \<Rightarrow> (case parse_ids (Suc i) rawIDs of Inl e \<Rightarrow> Inl e | Inr xs \<Rightarrow> Inr (x # xs)))"

definition pollsID :: "request \<Rightarrow> err + int list" where
  "pollsID r =
     (let rawIDs = Split CHR '','' (Get (Query (req_RawQuery r)) ''ids'') in
      if rawIDs = [] then Inl (plainError ''no ids argument provided'') else parse_ids 0 rawIDs)"

text \<open>What a client sends: the ids joined by commas, as a query.\<close>

fun join :: "char \<Rightarrow> string list \<Rightarrow> string" where
  "join sep [] = []"
| "join sep [w] = w"
| "join sep (w # ws) = w @ [sep] @ join sep ws"

definition ids_query :: "int list \<Rightarrow> string" where
  "ids_query ids = ''ids='' @ join CHR '','' (map Itoa ids)"

definition id_query :: "int \<Rightarrow> string" where
  "id_query i = ''id='' @ Itoa i"

lemma Split_not_Nil [simp]: "Split sep s \<noteq> []"
  by (induction s) (auto split: list.splits)

lemma Split_no_sep: "sep \<notin> set w \<Longrightarrow> Split sep w = [w]"
  by (induction w) auto

lemma Split_append: "sep \<notin> set w \<Longrightarrow> Split sep (w @ sep # r) = w # Split sep r"
  by (induction w) (auto split: list.splits)

lemma Split_join: "ws \<noteq> [] \<Longrightarrow> (\<And>w. w \<in> set ws \<Longrightarrow> sep \<notin> set w) \<Longrightarrow> Split sep (join sep ws) = ws"
  by (induction sep ws rule: join.induct) (auto simp: Split_no_sep Split_append)

lemma QueryUnescape_plain: "CHR ''%'' \<notin> set s \<Longrightarrow> CHR ''+'' \<notin> set s \<Longrightarrow> QueryUnescape s = Some s"
  by (induction s) auto

lemma set_join: "set (join sep ws) \<subseteq> {sep} \<union> (\<Union>w\<in>set ws. set w)"
  by (induction sep ws rule: join.induct) auto

text \<open>The characters of a number have no meaning in a query.\<close>

lemma Itoa_no_special:
  "x \<in> {CHR '','', CHR ''&'', CHR ''='', CHR '';'', CHR ''%'', CHR ''+''} \<Longrightarrow> x \<notin> set (Itoa i)"
  using Itoa_chars [of x i] by (auto simp: is_digit_def)

lemma join_no_special:
  assumes "x \<in> {CHR ''&'', CHR ''='', CHR '';'', CHR ''%'', CHR ''+''}"
  shows "x \<notin> set (join CHR '','' (map Itoa ids))"
  using set_join [of "CHR '',''" "map Itoa ids"] Itoa_no_special [of x] assms by auto

lemma Query_single:
  assumes k: "set k \<inter> {CHR ''&'', CHR ''='', CHR '';'', CHR ''%'', CHR ''+''} = {}" "k \<noteq> []"
    and v: "set v \<inter> {CHR ''&'', CHR '';'', CHR ''%'', CHR ''+''} = {}"
  shows "Get (Query (k @ CHR ''='' # v)) k = v"
proof -
  have "Cut CHR ''='' (k @ CHR ''='' # v) = (k, v)"
    using k by (auto simp: Cut_def takeWhile_append dropWhile_append)
  moreover have "Split CHR ''&'' (k @ CHR ''='' # v) = [k @ CHR ''='' # v]"
    by (rule Split_no_sep) (use k v in auto)
  ultimately show ?thesis
    using k v by (auto simp: Query_def List.map_filter_simps parse_pair_def QueryUnescape_plain Get_def)
qed

lemma parse_ids_Itoa: "(\<And>i. i \<in> set ids \<Longrightarrow> in_int64 i) \<Longrightarrow> parse_ids n (map Itoa ids) = Inr ids"
  by (induction ids arbitrary: n) auto

lemma parse_ids_Inl: "parse_ids n rs = Inl e \<Longrightarrow> \<exists>r\<in>set rs. Atoi r = None"
  by (induction rs arbitrary: n) (auto split: option.splits sum.splits)

lemma parse_ids_Inr: "parse_ids n rs = Inr ids \<Longrightarrow> map Some ids = map Atoi rs"
  by (induction rs arbitrary: n ids) (auto split: option.splits sum.splits)

text \<open>
  C31. The ids a client puts into a query are the ids the handlers read: a poll id, and a list of
  poll ids joined by commas, for all ids that fit into an \<^verbatim>\<open>int\<close>.
\<close>
theorem query_ids_roundtrip:
  assumes "in_int64 i" and "ids \<noteq> []" "\<And>j. j \<in> set ids \<Longrightarrow> in_int64 j"
  shows "pollID \<lparr>req_Path = p, req_RawQuery = id_query i, req_Body = b\<rparr> = Inr i \<and>
    pollsID \<lparr>req_Path = p, req_RawQuery = ids_query ids, req_Body = b\<rparr> = Inr ids"
proof
  have "Get (Query (''id'' @ CHR ''='' # Itoa i)) ''id'' = Itoa i"
    by (rule Query_single) (use Itoa_no_special [of _ i] in auto)
  moreover have "Itoa i \<noteq> []" using utoa_parse by (simp add: Itoa_def)
  ultimately show "pollID \<lparr>req_Path = p, req_RawQuery = id_query i, req_Body = b\<rparr> = Inr i"
    using assms(1) by (simp add: pollID_def id_query_def)
  have "Get (Query (''ids'' @ CHR ''='' # join CHR '','' (map Itoa ids))) ''ids'' = join CHR '','' (map Itoa ids)"
    by (rule Query_single) (use join_no_special [of _ ids] in auto)
  moreover have "Split CHR '','' (join CHR '','' (map Itoa ids)) = map Itoa ids"
    by (rule Split_join) (use assms(2) Itoa_no_special in auto)
  ultimately show "pollsID \<lparr>req_Path = p, req_RawQuery = ids_query ids, req_Body = b\<rparr> = Inr ids"
    using parse_ids_Itoa assms(2,3) by (simp add: pollsID_def ids_query_def Let_def)
qed

theorem query_ids_roundtrip_witness:
  "pollID \<lparr>req_Path = ''/system/vote'', req_RawQuery = ''id=-42'', req_Body = []\<rparr> = Inr (-42) \<and>
   pollsID \<lparr>req_Path = ''/system/vote/voted'', req_RawQuery = ''ids=1,23,-4'', req_Body = []\<rparr> = Inr [1, 23, -4]"
proof -
  have i: "in_int64 (-42)" "[1, 23, -4 :: int] \<noteq> []" "\<And>j. j \<in> set [1, 23, -4] \<Longrightarrow> in_int64 j"
    by (auto simp: in_int64_def)
  have "id_query (-42) = ''id=-42''" "ids_query [1, 23, -4] = ''ids=1,23,-4''" by code_simp+
  with query_ids_roundtrip [OF i] show ?thesis by simp
qed

text \<open>
  The check for an empty list of ids is never taken: \<^verbatim>\<open>strings.Split\<close> gives at least one part, and a
  missing argument is reported as the invalid id number 0.
\<close>

lemma pollsID_missing:
  "Get (Query (req_RawQuery r)) ''ids'' = [] \<Longrightarrow> pollsID r = Inl (plainError (''0th id invalid. Expected int, got ''))"
proof -
  have "Atoi [] = None" "Itoa 0 = ''0''" by code_simp+
  then show "Get (Query (req_RawQuery r)) ''ids'' = [] \<Longrightarrow> ?thesis" by (simp add: pollsID_def)
qed

end
