(* ===== verification/Http_Server.thy ===== *)
theory Http_Server
  imports Http_Request Prelude "HOL-Library.Char_ord" "HOL-Library.List_Lexorder"
begin

text \<open>
  The HTTP layer of \<^verbatim>\<open>vote/http\<close>: the handlers of \<^verbatim>\<open>http.go\<close>, their registration, and the resolution of
  errors of \<^verbatim>\<open>error.go\<close>. The long-lived stream \<^verbatim>\<open>live_votes\<close> has its own theory.

  The interface \<^verbatim>\<open>voteService\<close> is the record \<open>voteService\<close>, a method table over the state of the
  service; the choices the language leaves open inside a method are an argument, as for backends.
  Authentication is another repository: it is the parameter \<open>auth\<close>, which gives an error or the id
  of the user (0 is anonymous). A handler gives its error, the body it has written and the new state
  of the service. Writing to the connection does not fail here, and requests whose path the router
  of \<^verbatim>\<open>net/http\<close> would clean are left out.
\<close>

record ('s, 'c) voteService =
  sStart :: "int \<Rightarrow> 's \<Rightarrow> err option \<times> 's"
  sStop :: "'c \<Rightarrow> int \<Rightarrow> 's \<Rightarrow> (err + bytes list \<times> int list) \<times> 's"
  sClear :: "int \<Rightarrow> 's \<Rightarrow> err option \<times> 's"
  sClearAll :: "'s \<Rightarrow> err option \<times> 's"
  sVote :: "'c \<Rightarrow> int \<Rightarrow> int \<Rightarrow> string \<Rightarrow> 's \<Rightarrow> err option \<times> 's"
  sVoted :: "'c \<Rightarrow> int list \<Rightarrow> int \<Rightarrow> 's \<Rightarrow> err + (int \<rightharpoonup> int list option)"

record response =
  resp_Status :: int
  resp_ContentType :: string
  resp_Body :: string

type_synonym 's handler = "'s \<Rightarrow> (err option \<times> string) \<times> 's"

abbreviation newline :: string where "newline \<equiv> [CHR 0x0A]"

subsection \<open>Errors\<close>

definition statusCode :: "int \<Rightarrow> err \<Rightarrow> err" where
  "statusCode code e = statusCodeError e code"

fun own_code :: "err \<Rightarrow> int option" where
  "own_code (statusCodeError e code) = Some code"
| "own_code e = None"

definition writeStatusCode :: "err \<Rightarrow> int" where
  "writeStatusCode e =
     (let code = (case err_find (\<lambda>x. own_code x \<noteq> None) e of None \<Rightarrow> 400 | Some x \<Rightarrow> the (own_code x)) in
      if err_Type e = None \<or> err_Type e = Some ''internal'' then 500 else code)"

definition error_json :: "string \<Rightarrow> string \<Rightarrow> string" where
  "error_json typ msg = ''{\"error\":'' @ string_Marshal typ @ '',\"message\":'' @ string_Marshal msg @ ''}'' @ newline"

definition writeFormattedError :: "err \<Rightarrow> bool \<Rightarrow> string" where
  "writeFormattedError e internalRoute =
     (let errType = (case err_Type e of None \<Rightarrow> ''internal'' | Some t \<Rightarrow> t);
          msg = (if errType = ''internal'' \<and> \<not> internalRoute then TypeError_Error ErrInternal else err_Error e)
      in error_json errType msg)"

text \<open>
  \<^verbatim>\<open>resolveError\<close>. A body that was written fixes the status 200; the header \<^verbatim>\<open>Content-Type\<close> is set by
  every handler.
\<close>

definition resolveError :: "'s handler \<Rightarrow> bool \<Rightarrow> 's \<Rightarrow> response \<times> 's" where
  "resolveError handler internalRoute s =
     (case handler s of ((e, body), s') \<Rightarrow>
        (case e of
           None \<Rightarrow> (\<lparr>resp_Status = 200, resp_ContentType = ''application/json'', resp_Body = body\<rparr>, s')
         | Some e \<Rightarrow>
             if is_context_done e
             then (\<lparr>resp_Status = 200, resp_ContentType = ''application/json'', resp_Body = body\<rparr>, s')
             else (\<lparr>resp_Status = (if body = [] then writeStatusCode e else 200),
                    resp_ContentType = ''application/json'',
                    resp_Body = body @ writeFormattedError e internalRoute\<rparr>, s')))"

definition handleInternal :: "'s handler \<Rightarrow> 's \<Rightarrow> response \<times> 's" where
  "handleInternal handler = resolveError handler True"

definition handleExternal :: "'s handler \<Rightarrow> 's \<Rightarrow> response \<times> 's" where
  "handleExternal handler = resolveError handler False"

subsection \<open>Bodies\<close>

text \<open>\<^verbatim>\<open>json.Marshal\<close> of a raw message: the text has to be one JSON value; it is printed in compact form.\<close>

definition raw_encode :: "bytes \<Rightarrow> string option" where
  "raw_encode obj =
     (case parse_value (Suc (2 * length obj)) obj of
        None \<Rightarrow> None
      | Some (j, rest) \<Rightarrow> if skip_ws rest = [] then Some (compact_escape (json_print j)) else None)"

fun raw_encode_all :: "bytes list \<Rightarrow> string list option" where
  "raw_encode_all [] = Some []"
| "raw_encode_all (obj # objs) =
     (case raw_encode obj of
        None \<Rightarrow> None
      | Some t \<Rightarrow> map_option (Cons t) (raw_encode_all objs))"

definition json_array :: "string list \<Rightarrow> string" where
  "json_array ts = ''['' @ join CHR '','' ts @ '']''"

definition json_object :: "(string \<times> string) list \<Rightarrow> string" where
  "json_object kvs = ''{'' @ join CHR '','' (map (\<lambda>(k, t). string_Marshal k @ '':'' @ t) kvs) @ ''}''"

definition stop_body :: "bytes list \<Rightarrow> int list \<Rightarrow> string option" where
  "stop_body objs users =
     map_option (\<lambda>ts. json_object [(''votes'', json_array ts), (''user_ids'', json_array (map Itoa users))] @ newline)
       (raw_encode_all objs)"

text \<open>The keys of a Go map are printed sorted by their text.\<close>

definition sorted_keys :: "int list \<Rightarrow> int list" where
  "sorted_keys ks = sort_key Itoa ks"

definition ids_json :: "int list option \<Rightarrow> string" where
  "ids_json us = (case us of None \<Rightarrow> ''null'' | Some xs \<Rightarrow> json_array (map Itoa xs))"

definition voted_body :: "int list \<Rightarrow> (int \<rightharpoonup> int list option) \<Rightarrow> string" where
  "voted_body pollIDs out =
     json_object (List.map_filter (\<lambda>pid. map_option (\<lambda>us. (Itoa pid, ids_json us)) (out pid))
       (sorted_keys (remdups pollIDs))) @ newline"

subsection \<open>Handlers\<close>

definition handleStart :: "('s, 'c) voteService \<Rightarrow> request \<Rightarrow> 's handler" where
  "handleStart S r s =
     (case pollID r of
        Inl e \<Rightarrow> ((Some (WrapError ErrInvalid e), []), s)
      | Inr i \<Rightarrow> (case sStart S i s of (e, s') \<Rightarrow> ((e, []), s')))"

definition handleStop :: "('s, 'c) voteService \<Rightarrow> 'c \<Rightarrow> request \<Rightarrow> 's handler" where
  "handleStop S c r s =
     (case pollID r of
        Inl e \<Rightarrow> ((Some (WrapError ErrInvalid e), []), s)
      | Inr i \<Rightarrow>
        (case sStop S c i s of
           (Inl e, s') \<Rightarrow> ((Some e, []), s')
         | (Inr (objs, users), s') \<Rightarrow>
             (case stop_body objs users of
                None \<Rightarrow> ((Some (Wrapped ''encoding and sending objects''
                           (plainError ''json: error calling MarshalJSON for type json.RawMessage'')), []), s')
              | Some body \<Rightarrow> ((None, body), s'))))"

definition handleClear :: "('s, 'c) voteService \<Rightarrow> request \<Rightarrow> 's handler" where
  "handleClear S r s =
     (case pollID r of
        Inl e \<Rightarrow> ((Some (WrapError ErrInvalid e), []), s)
      | Inr i \<Rightarrow> (case sClear S i s of (e, s') \<Rightarrow> ((e, []), s')))"

definition handleClearAll :: "('s, 'c) voteService \<Rightarrow> request \<Rightarrow> 's handler" where
  "handleClearAll S r s = (case sClearAll S s of (e, s') \<Rightarrow> ((e, []), s'))"

definition handleVote :: "('s, 'c) voteService \<Rightarrow> (request \<Rightarrow> err + int) \<Rightarrow> 'c \<Rightarrow> request \<Rightarrow> 's handler" where
  "handleVote S auth c r s =
     (case auth r of
        Inl e \<Rightarrow> ((Some e, []), s)
      | Inr uid \<Rightarrow>
      if uid = 0 then ((Some (statusCode 401 (MessageError ErrNotAllowed ''Anonymous user can not vote'')), []), s)
      else case pollID r of
        Inl e \<Rightarrow> ((Some (WrapError ErrInvalid e), []), s)
      | Inr i \<Rightarrow> (case sVote S c i uid (req_Body r) s of (e, s') \<Rightarrow> ((e, []), s')))"

definition handleVoted :: "('s, 'c) voteService \<Rightarrow> (request \<Rightarrow> err + int) \<Rightarrow> 'c \<Rightarrow> request \<Rightarrow> 's handler" where
  "handleVoted S auth c r s =
     (case auth r of
        Inl e \<Rightarrow> ((Some e, []), s)
      | Inr uid \<Rightarrow>
      if uid = 0 then ((Some (statusCode 401 (MessageError ErrNotAllowed ''Anonymous user can not vote'')), []), s)
      else case pollsID r of
        Inl e \<Rightarrow> ((Some (WrapError ErrInvalid e), []), s)
      | Inr pollIDs \<Rightarrow>
        (case sVoted S c pollIDs uid s of
           Inl e \<Rightarrow> ((Some e, []), s)
         | Inr voted \<Rightarrow> ((None, voted_body pollIDs voted), s)))"

definition handleHealth :: "request \<Rightarrow> 's handler" where
  "handleHealth r s = ((None, ''{\"healthy\": true, \"service\":\"vote\"}''), s)"

text \<open>The routes with an answer that ends; no route looks at the method of the request.\<close>

definition registerHandlers :: "('s, 'c) voteService \<Rightarrow> (request \<Rightarrow> err + int) \<Rightarrow> 'c \<Rightarrow> request \<Rightarrow> ('s \<Rightarrow> response \<times> 's) option" where
  "registerHandlers S auth c r =
     (if req_Path r = ''/internal/vote/start'' then Some (handleInternal (handleStart S r))
      else if req_Path r = ''/internal/vote/stop'' then Some (handleInternal (handleStop S c r))
      else if req_Path r = ''/internal/vote/clear'' then Some (handleInternal (handleClear S r))
      else if req_Path r = ''/internal/vote/clear_all'' then Some (handleInternal (handleClearAll S r))
      else if req_Path r = ''/system/vote'' then Some (handleExternal (handleVote S auth c r))
      else if req_Path r = ''/system/vote/voted'' then Some (handleExternal (handleVoted S auth c r))
      else if req_Path r = ''/system/vote/health'' then Some (handleExternal (handleHealth r))
      else None)"

definition serve :: "('s, 'c) voteService \<Rightarrow> (request \<Rightarrow> err + int) \<Rightarrow> 'c \<Rightarrow> request \<Rightarrow> 's \<Rightarrow> response \<times> 's" where
  "serve S auth c r s =
     (case registerHandlers S auth c r of
        None \<Rightarrow> (\<lparr>resp_Status = 404, resp_ContentType = ''text/plain; charset=utf-8'', resp_Body = ''404 page not found'' @ newline\<rparr>, s)
      | Some h \<Rightarrow> h s)"

subsection \<open>The health client\<close>

text \<open>
  Decoding the body of the health check: the struct with the fields \<^verbatim>\<open>healthy\<close> and \<^verbatim>\<open>service\<close>.
\<close>

fun health_fields :: "(string \<times> json) list \<Rightarrow> bool \<times> string \<Rightarrow> (bool \<times> string) option" where
  "health_fields [] b = Some b"
| "health_fields ((k, j) # ms) (healthy, service) =
     (let key = unquote k in
      if field_matches ''healthy'' key then
        (case j of JBool b \<Rightarrow> health_fields ms (b, service) | JNull \<Rightarrow> health_fields ms (healthy, service) | _ \<Rightarrow> None)
      else if field_matches ''service'' key then
        (case unmarshal_string j service of None \<Rightarrow> None | Some t \<Rightarrow> health_fields ms (healthy, t))
      else health_fields ms (healthy, service))"

definition decode_health :: "string \<Rightarrow> (bool \<times> string) option" where
  "decode_health body =
     (case Decoder_Decode body of
        Some (JObject ms) \<Rightarrow> health_fields ms (False, [])
      | Some JNull \<Rightarrow> Some (False, [])
      | _ \<Rightarrow> None)"

text \<open>
  \<open>create\<close> is the check of the url by \<^verbatim>\<open>http.NewRequest\<close>, \<open>send\<close> the round trip through the network: it
  gives an error or a status and a body.
\<close>

definition health_url :: "bool \<Rightarrow> string \<Rightarrow> string \<Rightarrow> string" where
  "health_url useHTTPS host port =
     (if useHTTPS then ''https'' else ''http'') @ ''://'' @ host @ '':'' @ port @ ''/system/vote/health''"

definition HealthClient :: "(string \<Rightarrow> err option) \<Rightarrow> (string \<Rightarrow> err + int \<times> string) \<Rightarrow> bool \<Rightarrow> string \<Rightarrow> string \<Rightarrow> err option" where
  "HealthClient create send useHTTPS host port =
     (case create (health_url useHTTPS host port) of
        Some e \<Rightarrow> Some (Wrapped ''creating request'' e)
      | None \<Rightarrow>
      case send (health_url useHTTPS host port) of
        Inl e \<Rightarrow> Some (Wrapped ''sending request'' e)
      | Inr (status, body) \<Rightarrow>
      if status \<noteq> 200 then Some (plainError (''health returned status '' @ Itoa status))
      else case decode_health body of
        None \<Rightarrow> Some (Wrapped ''reading and parsing response body'' (plainError ''invalid JSON''))
      | Some (healthy, service) \<Rightarrow>
          if \<not> healthy \<or> service \<noteq> ''vote'' then Some (plainError ''Server returned unhealthy response'') else None)"

end
