(* ===== verification/Http_Properties.thy ===== *)
theory Http_Properties
  imports Http_Server Vote_Properties
begin

text \<open>
  The HTTP layer put on top of the service: the answers of the routes, what they hide, and that
  every request is a step of a history of the service.
\<close>

record ('fo, 'lo) choices =
  ch_ballot :: "int list"
  ch_fast :: 'fo
  ch_long :: 'lo
  ch_users :: "int \<Rightarrow> int list"

text \<open>The service as the handlers see it.\<close>

definition service_of :: "('f, 'fo, 'l, 'lo, 'w, 'd) deps \<Rightarrow> (('f, 'l, 'w) Vote, ('fo, 'lo) choices) voteService" where
  "service_of D = \<lparr>sStart = vote_Start D, sStop = (\<lambda>c. vote_Stop D (ch_fast c) (ch_long c)),
     sClear = vote_Clear D, sClearAll = vote_ClearAll D,
     sVote = (\<lambda>c. vote_Vote D (ch_ballot c)), sVoted = (\<lambda>c. vote_Voted D (ch_users c))\<rparr>"

lemma service_of_sel [simp]:
  "sStart (service_of D) = vote_Start D" "sStop (service_of D) c = vote_Stop D (ch_fast c) (ch_long c)"
  "sClear (service_of D) = vote_Clear D" "sClearAll (service_of D) = vote_ClearAll D"
  "sVote (service_of D) c = vote_Vote D (ch_ballot c)" "sVoted (service_of D) c = vote_Voted D (ch_users c)"
  by (simp_all add: service_of_def)

definition ok_response :: "string \<Rightarrow> response" where
  "ok_response body = \<lparr>resp_Status = 200, resp_ContentType = ''application/json'', resp_Body = body\<rparr>"

definition error_response :: "int \<Rightarrow> string \<Rightarrow> string \<Rightarrow> response" where
  "error_response status typ msg =
     \<lparr>resp_Status = status, resp_ContentType = ''application/json'', resp_Body = error_json typ msg\<rparr>"

text \<open>What the client of a vote request is told, by the fate of the vote.\<close>

primrec verdict_response :: "verdict \<Rightarrow> response" where
  "verdict_response Accepted = ok_response []"
| "verdict_response NotStarted = error_response 400 ''not-exist'' (TypeError_Error ErrNotExists)"
| "verdict_response AlreadyVoted = error_response 400 ''double-vote'' (TypeError_Error ErrDoubleVote)"
| "verdict_response AlreadyStopped = error_response 400 ''stopped'' (TypeError_Error ErrStopped)"

lemma resolve_ok: "handler s = ((None, body), s') \<Longrightarrow> resolveError handler i s = (ok_response body, s')"
  by (simp add: resolveError_def ok_response_def)

lemma resolve_error:
  assumes "handler s = ((Some e, []), s')" "\<not> is_context_done e"
  shows "resolveError handler i s =
    (\<lparr>resp_Status = writeStatusCode e, resp_ContentType = ''application/json'', resp_Body = writeFormattedError e i\<rparr>, s')"
  using assms by (simp add: resolveError_def)

lemma TypeErr_response:
  assumes "handler s = ((Some (TypeErr t), []), s')" "t \<noteq> ErrInternal"
  shows "resolveError handler i s = (error_response 400 (TypeError_Type t) (TypeError_Error t), s')"
proof -
  have "TypeError_Type t \<noteq> ''internal''" using assms(2) by (cases t) auto
  moreover have "\<not> is_context_done (TypeErr t)" by (simp add: is_context_done_def)
  ultimately show ?thesis
    using resolve_error [of handler s "TypeErr t" s' i, OF assms(1)]
    by (simp add: writeStatusCode_def writeFormattedError_def error_response_def Let_def err_find_def)
qed

lemma answer_response:
  assumes "handler s = ((vote_answer vd, []), s')"
  shows "resolveError handler i s = (verdict_response vd, s')"
  using assms resolve_ok [of handler s "[]" s' i] TypeErr_response [of handler s _ s' i] by (cases vd) auto

text \<open>
  C9. From the request to the response: after any history of requests that one instance has served one after
  the other on the production backends, an authenticated user who may cast the vote gets an empty 200 when the vote is accepted, and a 400 with
  the type \<^verbatim>\<open>not-exist\<close>, \<^verbatim>\<open>double-vote\<close> or \<^verbatim>\<open>stopped\<close> when the history says so.
\<close>
theorem http_vote_response:
  assumes prod: "production R kv X tables conflicts ctx_done D on_fast"
    and new: "ks_fresh (kv r0)" "tables d0 = Some empty_tables" "vote_New D r0 d0 w0 = Inr v0"
    and tr: "service_trace D (\<lambda>p. in_int64 p \<and> in_int32 p) (\<lambda>ks p r. ks_order ks p (kv r)) (\<lambda>_ _ _. True) v0 es v"
    and ids: "in_int32 p" "in_int32 (vote_user b uid)"
    and req: "req_Path r = ''/system/vote''" "auth r = Inr uid" "uid \<noteq> 0" "pollID r = Inr p"
    and vote: "authorized_vote D (ch_ballot c) p uid (req_Body r) b v"
  shows "fst (serve (service_of D) auth c r v) = verdict_response (history_verdict p (vote_user b uid) es)"
proof -
  obtain e v' where v': "vote_Vote D (ch_ballot c) p uid (req_Body r) v = (e, v')" by fastforce
  with production.authorized_answer [OF prod new tr ids vote]
  have "handleVote (service_of D) auth c r v = ((vote_answer (history_verdict p (vote_user b uid) es), []), v')"
    using req by (simp add: handleVote_def)
  from answer_response [of "handleVote (service_of D) auth c r", OF this] req(1) show ?thesis
    by (simp add: serve_def registerHandlers_def handleExternal_def)
qed

definition demo_auth :: "request \<Rightarrow> err + int" where
  "demo_auth r = Inr 1"

definition demo_choices :: "(string list, unit) choices" where
  "demo_choices = \<lparr>ch_ballot = [1], ch_fast = [''2''], ch_long = (), ch_users = (\<lambda>_. [2])\<rparr>"

definition demo_request :: request where
  "demo_request = \<lparr>req_Path = ''/system/vote'', req_RawQuery = ''id=1'', req_Body = demo_ballot\<rparr>"

lemma demo_authorized: "authorized_vote demo_deps [1] 1 1 demo_ballot demo_ballot_value demo_v2"
  unfolding authorized_vote_def Let_def demo_deps_sel demo_flow
  by (intro conjI demo_readable demo_decode demo_order_ballot [OF demo_decode] demo_small demo_may_cast demo_fits) simp

theorem http_vote_response_witness:
  "fst (serve (service_of demo_deps) demo_auth demo_choices demo_request demo_v2) =
     error_response 400 ''double-vote'' ''{\"error\":\"double-vote\",\"message\":\"Not the first vote\"}''"
proof -
  have ids: "in_int32 1" "in_int32 (vote_user demo_ballot_value 1)"
    by (simp_all add: in_int32_def vote_user_def demo_ballot_value_def)
  have "pollID demo_request = Inr 1" by code_simp
  moreover have "history_verdict 1 (vote_user demo_ballot_value 1) demo_history = AlreadyVoted"
    by (simp add: history_verdict_def demo_history_def started_def closed_def accepted_def vote_user_def demo_ballot_value_def)
  moreover have "TypeError_Error ErrDoubleVote = ''{\"error\":\"double-vote\",\"message\":\"Not the first vote\"}''" by code_simp
  ultimately show ?thesis
    using http_vote_response [OF refprod.production_axioms demo_redis_fresh demo_db0_tables demo_New
        demo_service_trace ids, of demo_request demo_auth demo_choices] demo_authorized
    by (simp add: demo_request_def demo_auth_def demo_choices_def)
qed

text \<open>
  C27. Anonymous users neither vote nor ask for votes: without a user id both external routes answer
  401 with the type \<^verbatim>\<open>not-allowed\<close> and leave the service as it is, whatever the service does.
\<close>
theorem http_anonymous_rejected:
  assumes "auth r = Inr 0" and "req_Path r \<in> {''/system/vote'', ''/system/vote/voted''}"
  shows "serve S auth c r s = (error_response 401 ''not-allowed'' ''401 - Anonymous user can not vote'', s)"
proof -
  have "Itoa 401 = ''401''" by code_simp
  then have "writeStatusCode (statusCode 401 (MessageError ErrNotAllowed ''Anonymous user can not vote'')) = 401"
    "writeFormattedError (statusCode 401 (MessageError ErrNotAllowed ''Anonymous user can not vote'')) False
     = error_json ''not-allowed'' ''401 - Anonymous user can not vote''"
    "\<not> is_context_done (statusCode 401 (MessageError ErrNotAllowed ''Anonymous user can not vote''))"
    by (simp_all add: writeStatusCode_def writeFormattedError_def statusCode_def MessageError_def Let_def err_find_def
        is_context_done_def)
  with assms show ?thesis
    by (auto simp: serve_def registerHandlers_def handleExternal_def handleVote_def handleVoted_def
        resolveError_def error_response_def)
qed

theorem http_anonymous_rejected_witness:
  "serve (service_of demo_deps) (\<lambda>_. Inr 0) demo_choices demo_request demo_v2 =
     (error_response 401 ''not-allowed'' ''401 - Anonymous user can not vote'', demo_v2)"
  by (rule http_anonymous_rejected) (simp_all add: demo_request_def)

text \<open>
  C28. External routes do not leak internal errors: when a handler that has written nothing yet returns an
  error without a type, or with the type \<^verbatim>\<open>internal\<close>, the response is the same 500 for all of them, except
  that an error that comes from a canceled or expired context is answered by an empty 200. Nothing else
  about the error can be read from the response.
\<close>
theorem external_errors_hide_details:
  assumes "handler s = ((Some e, []), s')" "err_Type e = None \<or> err_Type e = Some ''internal''"
  shows "handleExternal handler s =
    (if is_context_done e then ok_response [] else error_response 500 ''internal'' (TypeError_Error ErrInternal), s')"
  using assms
  by (auto simp: handleExternal_def resolveError_def writeStatusCode_def writeFormattedError_def error_response_def
      ok_response_def Let_def)

theorem external_errors_hide_details_witness:
  "handleExternal (\<lambda>s. ((Some (Wrapped ''save vote'' (plainError ''password=secret'')), []), s)) () =
     (error_response 500 ''internal'' (TypeError_Error ErrInternal), ()) \<and>
   handleExternal (\<lambda>s. ((Some (Wrapped ''loading poll'' ContextCanceled), []), s)) () = (ok_response [], ())"
proof
  have "\<not> is_context_done (Wrapped ''save vote'' (plainError ''password=secret''))" by (simp add: is_context_done_def)
  then show "handleExternal (\<lambda>s. ((Some (Wrapped ''save vote'' (plainError ''password=secret'')), []), s)) () =
     (error_response 500 ''internal'' (TypeError_Error ErrInternal), ())"
    using external_errors_hide_details [of "\<lambda>s. ((Some (Wrapped ''save vote'' (plainError ''password=secret'')), []), s)" "()"]
    by simp
  have "is_context_done (Wrapped ''loading poll'' ContextCanceled)" "err_Type (Wrapped ''loading poll'' ContextCanceled) = None"
    by code_simp+
  then show "handleExternal (\<lambda>s. ((Some (Wrapped ''loading poll'' ContextCanceled), []), s)) () = (ok_response [], ())"
    using external_errors_hide_details [of "\<lambda>s. ((Some (Wrapped ''loading poll'' ContextCanceled), []), s)" "()"]
    by simp
qed

text \<open>
  The health check fits the service: the client asks for the route \<^verbatim>\<open>/system/vote/health\<close>, and it
  accepts what the service answers there, in every state of the service.
\<close>
theorem health_client_accepts_server:
  "\<exists>prefix. health_url useHTTPS host port = prefix @ ''/system/vote/health'' \<and>
    (let resp = fst (serve S auth c \<lparr>req_Path = ''/system/vote/health'', req_RawQuery = q, req_Body = b\<rparr> s)
     in HealthClient (\<lambda>_. None) (\<lambda>_. Inr (resp_Status resp, resp_Body resp)) useHTTPS host port = None)"
proof -
  have "decode_health ''{\"healthy\": true, \"service\":\"vote\"}'' = Some (True, ''vote'')" by code_simp
  then show ?thesis
    by (simp add: serve_def registerHandlers_def handleExternal_def handleHealth_def resolveError_def
        HealthClient_def health_url_def)
qed

subsection \<open>Histories of requests\<close>

text \<open>
  The states the service reaches by any sequence of requests, loads from the backends and changes of
  the datastore. The ids in the requests fit into 32 bits, and the choices are orders the language
  allows.
\<close>

definition admissible :: "(int \<Rightarrow> bool) \<Rightarrow> ('fo \<Rightarrow> int \<Rightarrow> 'f \<Rightarrow> bool) \<Rightarrow> ('lo \<Rightarrow> int \<Rightarrow> 'l \<Rightarrow> bool) \<Rightarrow>
    (request \<Rightarrow> err + int) \<Rightarrow> ('fo, 'lo) choices \<Rightarrow> request \<Rightarrow> ('f, 'l, 'w) Vote \<Rightarrow> bool" where
  "admissible ok okOF okOL auth c r v \<longleftrightarrow>
     (\<forall>p. pollID r = Inr p \<longrightarrow> ok p \<and> okOF (ch_fast c) p (fastBackend v) \<and> okOL (ch_long c) p (longBackend v)) \<and>
     (\<forall>uid b. auth r = Inr uid \<longrightarrow> decode_ballot (req_Body r) = Inr b \<longrightarrow> ok (vote_user b uid))"

inductive http_reach ::
  "('f, 'fo, 'l, 'lo, 'w, 'd) deps \<Rightarrow> (request \<Rightarrow> err + int) \<Rightarrow> (int \<Rightarrow> bool) \<Rightarrow> ('fo \<Rightarrow> int \<Rightarrow> 'f \<Rightarrow> bool)
   \<Rightarrow> ('lo \<Rightarrow> int \<Rightarrow> 'l \<Rightarrow> bool) \<Rightarrow> ('f, 'l, 'w) Vote \<Rightarrow> ('f, 'l, 'w) Vote \<Rightarrow> bool"
  for D :: "('f, 'fo, 'l, 'lo, 'w, 'd) deps" and auth :: "request \<Rightarrow> err + int" and ok :: "int \<Rightarrow> bool"
    and okOF :: "'fo \<Rightarrow> int \<Rightarrow> 'f \<Rightarrow> bool" and okOL :: "'lo \<Rightarrow> int \<Rightarrow> 'l \<Rightarrow> bool" and v0 :: "('f, 'l, 'w) Vote"
where
  start: "http_reach D auth ok okOF okOL v0 v0"
| request: "http_reach D auth ok okOF okOL v0 v \<Longrightarrow> admissible ok okOF okOL auth c r v \<Longrightarrow>
    serve (service_of D) auth c r v = (resp, v') \<Longrightarrow> http_reach D auth ok okOF okOL v0 v'"
| load: "http_reach D auth ok okOF okOL v0 v \<Longrightarrow> loadVoted D v = (e, v') \<Longrightarrow> http_reach D auth ok okOF okOL v0 v'"
| update: "http_reach D auth ok okOF okOL v0 v \<Longrightarrow> http_reach D auth ok okOF okOL v0 (v\<lparr>flow := w\<rparr>)"

lemma resolveError_state: "snd (resolveError handler i s) = snd (handler s)"
  by (auto simp: resolveError_def split: prod.splits option.splits)

lemma handleVote_step:
  assumes tr: "service_trace D ok okOF okOL v0 es v" and adm: "admissible ok okOF okOL auth c r v"
  shows "\<exists>es'. service_trace D ok okOF okOL v0 es' (snd (handleVote (service_of D) auth c r v))"
proof (cases "\<exists>uid p. auth r = Inr uid \<and> uid \<noteq> 0 \<and> pollID r = Inr p")
  case False
  with tr show ?thesis by (auto simp: handleVote_def split: sum.splits)
next
  case True
  then obtain uid p where r: "auth r = Inr uid" "uid \<noteq> 0" "pollID r = Inr p" by auto
  obtain e v' where v': "vote_Vote D (ch_ballot c) p uid (req_Body r) v = (e, v')" by fastforce
  with r have s: "snd (handleVote (service_of D) auth c r v) = v'" by (simp add: handleVote_def)
  show ?thesis
  proof (cases "vote_prepare (decimal D) (ds D (flow v)) (ch_ballot c) p uid (req_Body r)")
    case (Inl x)
    from service_trace.vote_rejected [OF tr Inl v'] s show ?thesis by auto
  next
    case (Inr x)
    then obtain poll u bs where prep: "vote_prepare (decimal D) (ds D (flow v)) (ch_ballot c) p uid (req_Body r) = Inr (poll, u, bs)"
      by (cases x) auto
    then have "ok p" "ok u" using adm r by (auto simp: admissible_def elim!: vote_prepare_Inr)
    from service_trace.vote [OF tr prep this v'] s show ?thesis by auto
  qed
qed

text \<open>Every request is at most one step of a history of the service.\<close>

lemma serve_step:
  assumes tr: "service_trace D ok okOF okOL v0 es v" and adm: "admissible ok okOF okOL auth c r v"
    and srv: "serve (service_of D) auth c r v = (resp, v')"
  shows "\<exists>es'. service_trace D ok okOF okOL v0 es' v'"
proof -
  have Start: "\<exists>es'. service_trace D ok okOF okOL v0 es' (snd (handleStart (service_of D) r v))"
  proof (cases "pollID r")
    case (Inr p)
    with adm have "ok p" by (simp add: admissible_def)
    from service_trace.start [OF tr this] Inr show ?thesis
      by (cases "vote_Start D p v") (auto simp: handleStart_def)
  qed (use tr in \<open>auto simp: handleStart_def\<close>)
  have Stop: "\<exists>es'. service_trace D ok okOF okOL v0 es' (snd (handleStop (service_of D) c r v))"
  proof (cases "pollID r")
    case (Inr p)
    with adm have "ok p" "okOF (ch_fast c) p (fastBackend v)" "okOL (ch_long c) p (longBackend v)"
      by (simp_all add: admissible_def)
    from service_trace.stop [OF tr this] Inr show ?thesis
      by (cases "vote_Stop D (ch_fast c) (ch_long c) p v") (auto simp: handleStop_def split: sum.splits option.splits)
  qed (use tr in \<open>auto simp: handleStop_def\<close>)
  have Clear: "\<exists>es'. service_trace D ok okOF okOL v0 es' (snd (handleClear (service_of D) r v))"
  proof (cases "pollID r")
    case (Inr p)
    with adm have "ok p" by (simp add: admissible_def)
    from service_trace.clear [OF tr this] Inr show ?thesis
      by (cases "vote_Clear D p v") (auto simp: handleClear_def)
  qed (use tr in \<open>auto simp: handleClear_def\<close>)
  have ClearAll: "\<exists>es'. service_trace D ok okOF okOL v0 es' (snd (handleClearAll (service_of D) r v))"
    using service_trace.clear_all [OF tr] by (cases "vote_ClearAll D v") (auto simp: handleClearAll_def)
  have Vote: "\<exists>es'. service_trace D ok okOF okOL v0 es' (snd (handleVote (service_of D) auth c r v))"
    by (rule handleVote_step [OF tr adm])
  have Voted: "snd (handleVoted (service_of D) auth c r v) = v"
    by (auto simp: handleVoted_def split: sum.splits)
  have "v' = snd (serve (service_of D) auth c r v)" using srv by simp
  then show ?thesis using Start Stop Clear ClearAll Vote Voted tr
    by (auto simp: serve_def registerHandlers_def handleInternal_def handleExternal_def resolveError_state handleHealth_def
        split: if_splits)
qed

lemma reach_trace: "http_reach D auth ok okOF okOL v0 v \<Longrightarrow> \<exists>es. service_trace D ok okOF okOL v0 es v"
proof (induction rule: http_reach.induct)
  case start
  show ?case using service_trace.init by blast
next
  case (request v c r resp v')
  then show ?case using serve_step by blast
next
  case (load v e v')
  then show ?case using service_trace.load by blast
next
  case (update v w)
  then show ?case by (auto intro: service_trace.update)
qed

text \<open>
  C12. One user, one vote, whatever requests arrive: in every state that a single instance reaches on the
  production backends by serving requests and reloading one after the other, each poll holds as many
  ballots as it has voters, and the live votes of the instance name exactly these voters. Requests that
  overlap and other instances on the same backends are not covered.
\<close>
theorem http_one_vote_per_user:
  assumes prod: "production R kv X tables conflicts ctx_done D on_fast"
    and new: "ks_fresh (kv r0)" "tables d0 = Some empty_tables" "vote_New D r0 d0 w0 = Inr v0"
    and reach: "http_reach D auth (\<lambda>p. in_int64 p \<and> in_int32 p) (\<lambda>ks p r. ks_order ks p (kv r)) (\<lambda>_ _ _. True) v0 v"
    and poll: "svc_abs (\<lambda>r. ks_abs (kv r)) (pg_abs tables) on_fast v p = Some a"
  shows "size (ballots a) = card (voters a) \<and> dom (sub_map (liveVotes v) p) = voters a"
proof -
  from reach_trace [OF reach] obtain es where
    tr: "service_trace D (\<lambda>p. in_int64 p \<and> in_int32 p) (\<lambda>ks p r. ks_order ks p (kv r)) (\<lambda>_ _ _. True) v0 es v" ..
  note inv = vote_service.trace_inv [OF production.service [OF prod] tr production.fresh_start [OF prod new]]
  then have "matches (Some a) (accepted p es) (started p es) (closed p es)" using poll by (metis)
  then have "size (ballots a) = length (accepted p es)" "card (voters a) = length (accepted p es)"
    "voters a = set (map fst (accepted p es))"
    using distinct_card [of "map fst (accepted p es)"] by (auto simp: matches_def)
  with vote_service.trace_live [OF production.service [OF prod] tr production.fresh_start [OF prod new], of p]
  show ?thesis by simp
qed

text \<open>Poll 1 is started and user 1 casts the vote of user 2, both by requests.\<close>

definition demo_start_request :: request where
  "demo_start_request = \<lparr>req_Path = ''/internal/vote/start'', req_RawQuery = ''id=1'', req_Body = []\<rparr>"

lemma demo_admissible:
  "admissible (\<lambda>p. in_int64 p \<and> in_int32 p) (\<lambda>ks p r. ks_order ks p (ref_kv r)) (\<lambda>_ _ _. True) demo_auth
     (demo_choices\<lparr>ch_fast := []\<rparr>) demo_start_request demo_v0"
  "admissible (\<lambda>p. in_int64 p \<and> in_int32 p) (\<lambda>ks p r. ks_order ks p (ref_kv r)) (\<lambda>_ _ _. True) demo_auth
     (demo_choices\<lparr>ch_fast := []\<rparr>) demo_request demo_v1"
proof -
  have p: "pollID demo_start_request = Inr 1" "pollID demo_request = Inr 1" by code_simp+
  have "isl (decode_ballot []) = True" by code_simp
  then have no: "\<exists>e. decode_ballot [] = Inl e" by (cases "decode_ballot []") auto
  have f: "fastBackend demo_v0 = []" "fastBackend demo_v1 = [(''vote_polls'', FSet [''1'']), (''vote_state_1'', FStr ''1'')]"
    and k: "keyVote 1 = ''vote_data_1''" by code_simp+
  then have o: "ks_order [] 1 (ref_kv (fastBackend demo_v0))" "ks_order [] 1 (ref_kv (fastBackend demo_v1))"
    by (simp_all add: ks_order_def hash_at_def is_order_def ref_kv_def)
  show "admissible (\<lambda>p. in_int64 p \<and> in_int32 p) (\<lambda>ks p r. ks_order ks p (ref_kv r)) (\<lambda>_ _ _. True) demo_auth
     (demo_choices\<lparr>ch_fast := []\<rparr>) demo_start_request demo_v0"
    using p(1) no o(1) by (auto simp: admissible_def in_int64_def in_int32_def demo_start_request_def)
  show "admissible (\<lambda>p. in_int64 p \<and> in_int32 p) (\<lambda>ks p r. ks_order ks p (ref_kv r)) (\<lambda>_ _ _. True) demo_auth
     (demo_choices\<lparr>ch_fast := []\<rparr>) demo_request demo_v1"
    using p(2) o(2) by (auto simp: admissible_def in_int64_def in_int32_def demo_request_def demo_decode demo_auth_def
        vote_user_def demo_ballot_value_def)
qed

lemma demo_serve:
  "serve (service_of demo_deps) demo_auth c demo_start_request demo_v0 = (ok_response [], demo_v1)"
  "serve (service_of demo_deps) demo_auth (demo_choices\<lparr>ch_fast := fc\<rparr>) demo_request demo_v1 = (ok_response [], demo_v2)"
proof -
  have p: "pollID demo_start_request = Inr 1" "pollID demo_request = Inr 1" by code_simp+
  show "serve (service_of demo_deps) demo_auth c demo_start_request demo_v0 = (ok_response [], demo_v1)"
    using p(1) demo_Start by (simp add: serve_def registerHandlers_def handleInternal_def handleStart_def resolveError_def
        ok_response_def demo_start_request_def)
  show "serve (service_of demo_deps) demo_auth (demo_choices\<lparr>ch_fast := fc\<rparr>) demo_request demo_v1 = (ok_response [], demo_v2)"
    using p(2) demo_Vote by (simp add: serve_def registerHandlers_def handleExternal_def handleVote_def resolveError_def
        ok_response_def demo_request_def demo_auth_def demo_choices_def)
qed

theorem http_one_vote_per_user_witness:
  "\<exists>v a. http_reach demo_deps demo_auth (\<lambda>p. in_int64 p \<and> in_int32 p) (\<lambda>ks p r. ks_order ks p (ref_kv r)) (\<lambda>_ _ _. True) demo_v0 v \<and>
     svc_abs (\<lambda>r. ks_abs (ref_kv r)) (pg_abs ref_tables) (\<lambda>p. p = 1) v 1 = Some a \<and>
     size (ballots a) = 1 \<and> voters a = {2} \<and> dom (sub_map (liveVotes v) 1) = {2}"
proof -
  let ?ok = "\<lambda>p. in_int64 p \<and> in_int32 p"
  have reach: "http_reach demo_deps demo_auth ?ok (\<lambda>ks p r. ks_order ks p (ref_kv r)) (\<lambda>_ _ _. True) demo_v0 demo_v2"
    by (rule http_reach.request [OF http_reach.request [OF http_reach.start demo_admissible(1) demo_serve(1)] demo_admissible(2) demo_serve(2)])
  note fresh = refprod.fresh_start [OF demo_redis_fresh demo_db0_tables demo_New]
  have live: "dom (sub_map (liveVotes demo_v2) 1) = {2}"
    using refprod.svc.trace_live [OF demo_service_trace fresh, of 1] by (simp add: demo_history_def accepted_def)
  have "matches (refprod.svc.cstate demo_v2 1) (accepted 1 demo_history) (started 1 demo_history) (closed 1 demo_history)"
    using refprod.svc.trace_inv [OF demo_service_trace fresh] by blast
  then obtain a where a: "refprod.svc.cstate demo_v2 1 = Some a"
    by (cases "refprod.svc.cstate demo_v2 1") (auto simp: matches_def demo_history_def started_def)
  note one = http_one_vote_per_user [OF refprod.production_axioms demo_redis_fresh demo_db0_tables demo_New reach a]
  with live have "voters a = {2}" by simp
  moreover from one this have "size (ballots a) = 1" by simp
  ultimately show ?thesis using reach a live by blast
qed

end
