(* ===== verification/Json_Roundtrip.thy ===== *)
theory Json_Roundtrip
  imports Json
begin

text \<open>
  Reading back what was printed. A JSON value is well formed (\<open>json_ok\<close>) when its literals are; the
  parser gives only well-formed values, and the text of a well-formed value is read as the same
  value, in any context and with fuel of at most twice the length of the text. The same holds for the
  text with the escapes that \<^verbatim>\<open>json.Marshal\<close> adds for HTML.
\<close>

inductive lit_ok :: "string \<Rightarrow> bool" where
  empty: "lit_ok []"
| plain: "lit_ok l \<Longrightarrow> c \<noteq> quote_char \<Longrightarrow> c \<noteq> backslash \<Longrightarrow> 32 \<le> (of_char c :: nat) \<Longrightarrow> lit_ok (c # l)"
| escape: "lit_ok l \<Longrightarrow> e \<in> set [quote_char, backslash, CHR ''/'', CHR ''b'', CHR ''f'', CHR ''n'', CHR ''r'', CHR ''t''] \<Longrightarrow>
    lit_ok (backslash # e # l)"
| unicode: "lit_ok l \<Longrightarrow> is_hex h1 \<Longrightarrow> is_hex h2 \<Longrightarrow> is_hex h3 \<Longrightarrow> is_hex h4 \<Longrightarrow>
    lit_ok (backslash # CHR ''u'' # h1 # h2 # h3 # h4 # l)"

definition num_ok :: "string \<Rightarrow> bool" where
  "num_ok l \<longleftrightarrow> scan_number l = Some (l, [])"

fun json_ok :: "json \<Rightarrow> bool" and json_ok_list :: "json list \<Rightarrow> bool" and json_ok_members :: "(string \<times> json) list \<Rightarrow> bool" where
  "json_ok JNull \<longleftrightarrow> True"
| "json_ok (JBool b) \<longleftrightarrow> True"
| "json_ok (JNumber l) \<longleftrightarrow> num_ok l"
| "json_ok (JString l) \<longleftrightarrow> lit_ok l"
| "json_ok (JArray js) \<longleftrightarrow> json_ok_list js"
| "json_ok (JObject ms) \<longleftrightarrow> json_ok_members ms"
| "json_ok_list [] \<longleftrightarrow> True"
| "json_ok_list (j # js) \<longleftrightarrow> json_ok j \<and> json_ok_list js"
| "json_ok_members [] \<longleftrightarrow> True"
| "json_ok_members ((k, j) # ms) \<longleftrightarrow> lit_ok k \<and> json_ok j \<and> json_ok_members ms"

text \<open>The fuel the parser needs for a value.\<close>

fun need :: "json \<Rightarrow> nat" and need_list :: "json list \<Rightarrow> nat" and need_members :: "(string \<times> json) list \<Rightarrow> nat" where
  "need (JArray js) = Suc (need_list js)"
| "need (JObject ms) = Suc (need_members ms)"
| "need j = 1"
| "need_list [] = 0"
| "need_list (j # js) = Suc (max (need j) (need_list js))"
| "need_members [] = 0"
| "need_members ((k, j) # ms) = Suc (max (need j) (need_members ms))"

text \<open>What may follow a value: a number ends there.\<close>

definition stops :: "string \<Rightarrow> bool" where
  "stops s \<longleftrightarrow> (case s of [] \<Rightarrow> True | c # r \<Rightarrow> c = CHR '','' \<or> c = CHR '']'' \<or> c = CHR ''}'')"

lemma prepend_Some [simp]: "prepend p r = Some (l, s) \<longleftrightarrow> (\<exists>l'. r = Some (l', s) \<and> l = p @ l')"
  by (auto simp: prepend_def)

lemma scan_string_lit: "lit_ok l \<Longrightarrow> scan_string (l @ quote_char # r) = Some (l, r)"
  by (induction l rule: lit_ok.induct) (auto simp: scan_string.simps(2) [of backslash])

declare scan_string.simps(2) [simp del]

abbreviation escapes :: "char set" where
  "escapes \<equiv> set [quote_char, backslash, CHR ''/'', CHR ''b'', CHR ''f'', CHR ''n'', CHR ''r'', CHR ''t'']"

lemma scan_backslash:
  assumes "scan_string (backslash # cs) = Some (l, r)"
  obtains (escape) e cs' l' where "cs = e # cs'" "e \<in> escapes" "scan_string cs' = Some (l', r)" "l = backslash # e # l'"
    | (unicode) h1 h2 h3 h4 cs' l' where "cs = CHR ''u'' # h1 # h2 # h3 # h4 # cs'" "is_hex h1" "is_hex h2" "is_hex h3" "is_hex h4"
      "scan_string cs' = Some (l', r)" "l = backslash # CHR ''u'' # h1 # h2 # h3 # h4 # l'"
proof (cases cs)
  case Nil
  with assms show ?thesis by (simp add: scan_string.simps(2) [of backslash])
next
  case (Cons e cs')
  show ?thesis
  proof (cases "e \<in> escapes")
    case True
    with assms Cons have "prepend [backslash, e] (scan_string cs') = Some (l, r)"
      unfolding scan_string.simps(2) [of backslash] by (simp only: if_True list.case char.inject simp_thms if_False)
    with True Cons escape show ?thesis by auto
  next
    case False
    with assms Cons obtain h1 h2 h3 h4 cs'' where u: "e = CHR ''u''" "cs' = h1 # h2 # h3 # h4 # cs''"
        "is_hex h1 \<and> is_hex h2 \<and> is_hex h3 \<and> is_hex h4" "prepend [backslash, e, h1, h2, h3, h4] (scan_string cs'') = Some (l, r)"
      unfolding scan_string.simps(2) [of backslash] by (simp only: if_True list.case char.inject simp_thms if_False) 
        (auto split: if_splits list.splits)
    with Cons unicode show ?thesis by auto
  qed
qed

lemma scan_string_ok: "scan_string s = Some (l, r) \<Longrightarrow> lit_ok l \<and> s = l @ quote_char # r"
proof (induction s arbitrary: l rule: length_induct)
  case (1 s)
  show ?case
  proof (cases s)
    case Nil
    with 1(2) show ?thesis by simp
  next
    case (Cons c cs)
    consider "c = quote_char" | "c = backslash" | "c \<noteq> quote_char" "c \<noteq> backslash" by blast
    then show ?thesis
    proof cases
      case 1
      with \<open>scan_string s = Some (l, r)\<close> Cons show ?thesis by (simp add: scan_string.simps(2) lit_ok.empty)
    next
      case 2
      from 1(2) have "scan_string (backslash # cs) = Some (l, r)" by (simp add: Cons 2)
      then show ?thesis
      proof (cases rule: scan_backslash)
        case (escape e cs' l')
        with 1(1) [rule_format, of cs' l'] Cons have "lit_ok l'" "cs' = l' @ quote_char # r" by simp_all
        with lit_ok.escape [OF _ escape(2)] escape Cons 2 show ?thesis by simp
      next
        case (unicode h1 h2 h3 h4 cs' l')
        with 1(1) [rule_format, of cs' l'] Cons have "lit_ok l'" "cs' = l' @ quote_char # r" by simp_all
        with lit_ok.unicode unicode Cons 2 show ?thesis by simp
      qed
    next
      case 3
      with 1(2) Cons obtain l' where l': "32 \<le> (of_char c :: nat)" "scan_string cs = Some (l', r)" "l = c # l'"
        by (auto simp: scan_string.simps(2) split: if_splits)
      with 1(1) Cons 3 show ?thesis by (auto intro: lit_ok.plain)
    qed
  qed
qed

subsection \<open>Numbers\<close>

lemma stops_simps [simp]: "stops []" "stops (c # r) \<longleftrightarrow> c = CHR '','' \<or> c = CHR '']'' \<or> c = CHR ''}''"
  by (simp_all add: stops_def)

abbreviation no_digit :: "string \<Rightarrow> bool" where
  "no_digit t \<equiv> takeWhile is_digit t = []"

lemma stops_no_digit: "stops t \<Longrightarrow> no_digit t"
  by (cases t) (auto simp: is_digit_def)

lemma no_digit_dropWhile: "no_digit t \<Longrightarrow> dropWhile is_digit t = t"
  by (cases t) (auto split: if_splits)

lemma scan_digits_append:
  assumes "scan_digits s = Some (d, r)" "no_digit t"
  shows "scan_digits (s @ t) = Some (d, r @ t)"
proof (cases "\<forall>c \<in> set s. is_digit c")
  case True
  then have "takeWhile is_digit s = s" "dropWhile is_digit s = []" by (auto simp: takeWhile_eq_all_conv)
  with assms True no_digit_dropWhile [OF assms(2)] show ?thesis
    by (auto simp: scan_digits_def Let_def split: if_splits)
next
  case False
  then obtain c where "c \<in> set s" "\<not> is_digit c" by blast
  with assms(1) show ?thesis
    by (auto simp: scan_digits_def Let_def takeWhile_append1 dropWhile_append1 split: if_splits)
qed

lemma scan_digits_ok:
  "scan_digits s = Some (d, r) \<Longrightarrow> s = d @ r \<and> scan_digits d = Some (d, []) \<and> (\<exists>c d'. d = c # d' \<and> is_digit c)"
  using takeWhile_dropWhile_id [of is_digit s] set_takeWhileD [of _ is_digit s]
  by (cases "takeWhile is_digit s") (auto simp: scan_digits_def Let_def takeWhile_eq_all_conv split: if_splits)

lemma scan_int_append: "scan_int s = Some (d, r) \<Longrightarrow> no_digit t \<Longrightarrow> scan_int (s @ t) = Some (d, r @ t)"
  using scan_digits_append [of s d r t] by (cases s) (auto simp: scan_int_def split: if_splits)

lemma scan_int_ok:
  "scan_int s = Some (d, r) \<Longrightarrow> s = d @ r \<and> scan_int d = Some (d, []) \<and> (\<exists>c d'. d = c # d' \<and> is_digit c)"
  using scan_digits_ok [of s d r]
  by (cases s; cases "hd s = CHR ''0''"; cases d) (simp_all add: scan_int_def is_digit_def)

lemma scan_frac_append:
  assumes "scan_frac s = Some (d, r)" "no_digit t" "t = [] \<or> hd t \<noteq> CHR ''.''"
  shows "scan_frac (s @ t) = Some (d, r @ t)"
proof (cases s)
  case Nil
  with assms show ?thesis by (cases t) (auto simp: scan_frac_def)
next
  case (Cons c cs)
  with assms scan_digits_append [OF _ assms(2), of cs] show ?thesis by (auto simp: scan_frac_def split: if_splits)
qed

lemma scan_frac_ok: "scan_frac s = Some (d, r) \<Longrightarrow> s = d @ r \<and> scan_frac d = Some (d, []) \<and>
    (d = [] \<or> (\<exists>d'. d = CHR ''.'' # d'))"
  using scan_digits_ok [of "tl s" "tl d" r] by (cases s) (auto simp: scan_frac_def split: if_splits)

lemma scan_exp_append:
  assumes "scan_exp s = Some (d, r)" "stops t"
  shows "scan_exp (s @ t) = Some (d, r @ t)"
proof (cases s)
  case Nil
  with assms show ?thesis by (cases t) (auto simp: scan_exp_def)
next
  case (Cons c cs)
  show ?thesis
  proof (cases cs)
    case Nil
    with assms Cons show ?thesis by (cases t) (auto simp: scan_exp_def split: if_splits)
  next
    case (Cons e cs')
    with \<open>s = c # cs\<close> assms scan_digits_append [OF _ stops_no_digit [OF assms(2)], of cs]
      scan_digits_append [OF _ stops_no_digit [OF assms(2)], of cs']
    show ?thesis by (auto simp: scan_exp_def split: if_splits)
  qed
qed

lemma scan_exp_ok: "scan_exp s = Some (d, r) \<Longrightarrow> s = d @ r \<and> scan_exp d = Some (d, []) \<and>
    (d = [] \<or> (\<exists>c d'. d = c # d' \<and> (c = CHR ''e'' \<or> c = CHR ''E'')))"
  using scan_digits_ok [of "tl s" "tl d" r] scan_digits_ok [of "tl (tl s)" "tl (tl d)" r]
  by (cases s) (auto simp: scan_exp_def is_digit_def split: if_splits list.splits)

definition sign_of :: "string \<Rightarrow> string \<times> string" where
  "sign_of s = (case s of c # r \<Rightarrow> if c = CHR ''-'' then ([c], r) else ([], s) | [] \<Rightarrow> ([], []))"

lemma scan_number_iff: "scan_number s = Some (l, r) \<longleftrightarrow>
    (\<exists>sign s0 i s1 f s2 e. sign_of s = (sign, s0) \<and> scan_int s0 = Some (i, s1) \<and> scan_frac s1 = Some (f, s2) \<and>
      scan_exp s2 = Some (e, r) \<and> l = sign @ i @ f @ e)"
  by (auto simp: scan_number_def sign_of_def [symmetric] split: prod.splits option.splits)

lemma sign_of_append: "sign_of s = (sign, s0) \<Longrightarrow> s0 \<noteq> [] \<Longrightarrow> sign_of (s @ t) = (sign, s0 @ t)"
  by (auto simp: sign_of_def split: list.splits if_splits)

lemma scan_number_append:
  assumes "scan_number s = Some (l, r)" "stops t"
  shows "scan_number (s @ t) = Some (l, r @ t)"
proof -
  from assms(1) obtain sign s0 i s1 f s2 e where s: "sign_of s = (sign, s0)" "scan_int s0 = Some (i, s1)"
    "scan_frac s1 = Some (f, s2)" "scan_exp s2 = Some (e, r)" "l = sign @ i @ f @ e" unfolding scan_number_iff by blast
  from s(2) have "s0 \<noteq> []" by (auto simp: scan_int_def)
  moreover have "t = [] \<or> hd t \<noteq> CHR ''.''" using assms(2) by (cases t) auto
  ultimately show ?thesis unfolding scan_number_iff
    using sign_of_append [OF s(1)] scan_int_append [OF s(2) stops_no_digit [OF assms(2)]]
      scan_frac_append [OF s(3) stops_no_digit [OF assms(2)]] scan_exp_append [OF s(4) assms(2)] s(5) by metis
qed

lemma num_ok_append: "num_ok l \<Longrightarrow> stops t \<Longrightarrow> scan_number (l @ t) = Some (l, t)"
  unfolding num_ok_def using scan_number_append [of l l "[]" t] by simp

lemma scan_number_ok:
  assumes "scan_number s = Some (l, r)"
  shows "num_ok l \<and> s = l @ r \<and> (\<exists>c l'. l = c # l' \<and> (c = CHR ''-'' \<or> is_digit c))"
proof -
  from assms obtain sign s0 i s1 f s2 e where s: "sign_of s = (sign, s0)" "scan_int s0 = Some (i, s1)"
    "scan_frac s1 = Some (f, s2)" "scan_exp s2 = Some (e, r)" "l = sign @ i @ f @ e" unfolding scan_number_iff by blast
  note i = scan_int_ok [OF s(2)] and f = scan_frac_ok [OF s(3)] and e = scan_exp_ok [OF s(4)]
  have e_start: "no_digit e \<and> (e = [] \<or> hd e \<noteq> CHR ''.'')" using e by (auto simp: is_digit_def)
  then have f_start: "no_digit (f @ e)" using f by (cases f) (auto simp: is_digit_def)
  have "scan_int (i @ f @ e) = Some (i, f @ e)" using scan_int_append [OF _ f_start, of i i "[]"] i by simp
  moreover have "scan_frac (f @ e) = Some (f, e)" using scan_frac_append [of f f "[]" e] e_start f by simp
  moreover have "sign_of l = (sign, i @ f @ e)"
    using s(1,5) i by (auto simp: sign_of_def is_digit_def split: list.splits if_splits)
  ultimately have "num_ok l" unfolding num_ok_def scan_number_iff using e s(5) by blast
  moreover have "s = sign @ s0" "sign = [] \<or> sign = ''-''" using s(1) by (auto simp: sign_of_def split: list.splits if_splits)
  ultimately show ?thesis using i f e s(5) by auto
qed

subsection \<open>Values\<close>

lemma skip_ws_Cons [simp]: "\<not> is_ws c \<Longrightarrow> skip_ws (c # r) = c # r"
  by (simp add: skip_ws_def)

lemma not_ws [simp]:
  "\<not> is_ws quote_char" "\<not> is_ws CHR ''{''" "\<not> is_ws CHR ''}''" "\<not> is_ws CHR ''[''" "\<not> is_ws CHR '']''"
  "\<not> is_ws CHR '',''" "\<not> is_ws CHR '':''" "\<not> is_ws CHR ''n''" "\<not> is_ws CHR ''t''" "\<not> is_ws CHR ''f''" "\<not> is_ws CHR ''-''"
  "is_digit c \<Longrightarrow> \<not> is_ws c"
  by (auto simp: is_ws_def is_digit_def)

lemma print_first:
  assumes "json_ok j"
  obtains c r where "json_print j = c # r" "\<not> is_ws c" "c \<noteq> CHR '']''"
proof (cases j)
  case (JNumber l)
  with assms obtain c l' where "l = c # l'" "c = CHR ''-'' \<or> is_digit c"
    using scan_number_ok [of l l "[]"] by (auto simp: num_ok_def)
  moreover from this have "\<not> is_ws c" "c \<noteq> CHR '']''" by (auto simp: is_digit_def)
  ultimately show thesis using JNumber that [of c l'] by simp
next
  case (JBool b)
  with that show thesis by (cases b) auto
qed (use that in auto)

lemma parse_number:
  assumes "num_ok l" "stops t"
  shows "parse_value (Suc n) (l @ t) = Some (JNumber l, t)"
proof -
  from assms(1) obtain c l' where l: "l = c # l'" and c: "c = CHR ''-'' \<or> is_digit c"
    using scan_number_ok [of l l "[]"] by (auto simp: num_ok_def)
  from c have "c \<noteq> quote_char" "c \<noteq> CHR ''{''" "c \<noteq> CHR ''[''" "c \<noteq> CHR ''n''" "c \<noteq> CHR ''t''" "c \<noteq> CHR ''f''" "\<not> is_ws c"
    by (auto simp: is_digit_def)
  moreover from this have "strip_prefix ''null'' (c # r) = None" "strip_prefix ''true'' (c # r) = None"
    "strip_prefix ''false'' (c # r) = None" for r by (simp_all add: strip_prefix_def)
  ultimately show ?thesis using num_ok_append [OF assms] l by simp
qed

lemma print_list_first:
  assumes "json_ok_list js" "js \<noteq> []"
  obtains c r where "json_print_list js = c # r" "\<not> is_ws c" "c \<noteq> CHR '']''"
  using assms by (cases js) (auto elim: print_first)

lemma parse_print:
  "json_ok j \<Longrightarrow> stops t \<Longrightarrow> need j \<le> n \<Longrightarrow> parse_value n (json_print j @ t) = Some (j, t)"
  "json_ok_list js \<Longrightarrow> js \<noteq> [] \<Longrightarrow> need_list js \<le> n \<Longrightarrow>
     parse_elems n (json_print_list js @ CHR '']'' # t) = Some (js, t)"
  "json_ok_members ms \<Longrightarrow> ms \<noteq> [] \<Longrightarrow> need_members ms \<le> n \<Longrightarrow>
     parse_members n (json_print_members ms @ CHR ''}'' # t) = Some (ms, t)"
proof (induction j and js and ms arbitrary: t n and t n and t n rule: json_print_json_print_list_json_print_members.induct)
  case 1
  then show ?case by (cases n) (simp_all add: strip_prefix_def)
next
  case (2 b)
  then show ?case by (cases n; cases b) (simp_all add: strip_prefix_def)
next
  case (3 l)
  then show ?case using parse_number [of l t] by (cases n) simp_all
next
  case (4 l)
  then show ?case by (cases n) (simp_all add: scan_string_lit)
next
  case (5 js)
  then obtain m where n: "n = Suc m" "need_list js \<le> m" by (cases n) auto
  show ?case
  proof (cases "js = []")
    case False
    with 5(2) obtain c r where c: "json_print_list js = c # r" "\<not> is_ws c" "c \<noteq> CHR '']''"
      by (auto elim: print_list_first)
    with 5(1) [of m t] 5(2) False n show ?thesis by simp
  qed (simp add: n)
next
  case (6 ms)
  then obtain m where n: "n = Suc m" "need_members ms \<le> m" by (cases n) auto
  show ?case
  proof (cases ms)
    case (Cons km ms')
    then obtain r where c: "json_print_members ms = quote_char # r" by (cases km) auto
    with 6(1) [of m t] 6(2) Cons n show ?thesis by simp
  qed (simp add: n)
next
  case 7
  then show ?case by simp
next
  case (8 j js)
  then obtain m where n: "n = Suc m" "need j \<le> m" "need_list js \<le> m" by (cases n) auto
  show ?case
  proof (cases "js = []")
    case True
    with 8(1) [of "CHR '']'' # t" m] 8(3) n show ?thesis by simp
  next
    case False
    with 8(1) [of "CHR '','' # json_print_list js @ CHR '']'' # t" m] 8(2) [of m t] 8(3) n show ?thesis by simp
  qed
next
  case 9
  then show ?case by simp
next
  case (10 k j ms)
  then obtain m where n: "n = Suc m" "need j \<le> m" "need_members ms \<le> m" by (cases n) auto
  show ?case
  proof (cases "ms = []")
    case True
    with 10(1) [of "CHR ''}'' # t" m] 10(3) n show ?thesis by (simp add: scan_string_lit)
  next
    case False
    with 10(1) [of "CHR '','' # json_print_members ms @ CHR ''}'' # t" m] 10(2) [of m t] 10(3) n
    show ?thesis by (simp add: scan_string_lit)
  qed
qed

lemma print_nonempty: "json_ok j \<Longrightarrow> json_print j \<noteq> []"
  by (auto elim: print_first)

lemma need_bound:
  "json_ok j \<Longrightarrow> need j \<le> 2 * length (json_print j)"
  "json_ok_list js \<Longrightarrow> need_list js \<le> Suc (2 * length (json_print_list js))"
  "json_ok_members ms \<Longrightarrow> need_members ms \<le> Suc (2 * length (json_print_members ms))"
proof (induction j and js and ms rule: json_print_json_print_list_json_print_members.induct)
  case (3 l)
  then have "l \<noteq> []" using print_nonempty [of "JNumber l"] by simp
  then show ?case by (cases l) auto
qed auto

text \<open>Printing and reading is the identity on well-formed values.\<close>

lemma decode_print: "json_ok j \<Longrightarrow> parse_value (Suc (2 * length (json_print j))) (json_print j) = Some (j, [])"
  using parse_print(1) [of j "[]" "Suc (2 * length (json_print j))"] need_bound(1) [of j] by simp

text \<open>The parser gives well-formed values.\<close>

lemma parse_ok:
  "parse_value n s = Some (j, r) \<Longrightarrow> json_ok j"
  "parse_elems n s = Some (js, r) \<Longrightarrow> json_ok_list js"
  "parse_members n s = Some (ms, r) \<Longrightarrow> json_ok_members ms"
proof (induction n s and n s and n s arbitrary: j r and js r and ms r rule: parse_value_parse_elems_parse_members.induct)
  case (2 n s)
  then show ?case by (auto split: list.splits if_splits option.splits dest: scan_string_ok scan_number_ok)
next
  case (4 n s)
  then show ?case by (auto split: list.splits if_splits option.splits)
next
  case (6 n s)
  then show ?case by (auto split: list.splits if_splits option.splits dest!: scan_string_ok [THEN conjunct1])
qed simp_all

subsection \<open>The escapes for HTML\<close>

abbreviation specials :: "char set" where
  "specials \<equiv> {CHR ''<'', CHR ''>'', CHR ''&'', CHR 0xE2}"

text \<open>The rest of a line separator after its first byte.\<close>

definition separator_rest :: "string \<Rightarrow> bool" where
  "separator_rest s \<longleftrightarrow> take 2 s = [CHR 0x80, CHR 0xA8] \<or> take 2 s = [CHR 0x80, CHR 0xA9]"

declare compact_escape.simps(2) [simp del]

lemma compact_escape_plain: "c \<notin> specials \<Longrightarrow> compact_escape (c # s) = c # compact_escape s"
  by (simp add: compact_escape.simps(2) [of c])

lemma compact_escape_E2: "\<not> separator_rest s \<Longrightarrow> compact_escape (CHR 0xE2 # s) = CHR 0xE2 # compact_escape s"
  by (cases s; cases "tl s") (auto simp: separator_rest_def compact_escape.simps(2) [of "CHR 0xE2"])

lemma compact_escape_html:
  "compact_escape (CHR ''<'' # s) = [backslash] @ ''u003c'' @ compact_escape s"
  "compact_escape (CHR ''>'' # s) = [backslash] @ ''u003e'' @ compact_escape s"
  "compact_escape (CHR ''&'' # s) = [backslash] @ ''u0026'' @ compact_escape s"
  "compact_escape (CHR 0xE2 # CHR 0x80 # CHR 0xA8 # s) = [backslash] @ ''u2028'' @ compact_escape s"
  "compact_escape (CHR 0xE2 # CHR 0x80 # CHR 0xA9 # s) = [backslash] @ ''u2029'' @ compact_escape s"
  by (simp_all add: compact_escape.simps(2) [of "CHR ''<''"] compact_escape.simps(2) [of "CHR ''>''"]
      compact_escape.simps(2) [of "CHR ''&''"] compact_escape.simps(2) [of "CHR 0xE2"])

lemma compact_escape_cases [case_names empty plain html E2 separator]:
  assumes "s = [] \<Longrightarrow> P"
    and "\<And>c r. s = c # r \<Longrightarrow> c \<notin> specials \<Longrightarrow> P"
    and "\<And>c r. s = c # r \<Longrightarrow> c \<in> {CHR ''<'', CHR ''>'', CHR ''&''} \<Longrightarrow> P"
    and "\<And>r. s = CHR 0xE2 # r \<Longrightarrow> \<not> separator_rest r \<Longrightarrow> P"
    and "\<And>e r. s = CHR 0xE2 # CHR 0x80 # e # r \<Longrightarrow> e = CHR 0xA8 \<or> e = CHR 0xA9 \<Longrightarrow> P"
  shows P
proof (cases s)
  case (Cons c r)
  consider "c \<notin> specials" | "c \<in> {CHR ''<'', CHR ''>'', CHR ''&''}" | "c = CHR 0xE2" "\<not> separator_rest r"
    | "c = CHR 0xE2" "separator_rest r" by blast
  then show P
  proof cases
    case 4
    then obtain e r' where "r = CHR 0x80 # e # r'" "e = CHR 0xA8 \<or> e = CHR 0xA9"
      by (cases r; cases "tl r") (auto simp: separator_rest_def)
    with 4 Cons assms(5) show P by blast
  qed (use Cons assms in blast)+
qed (use assms in blast)

lemmas compact_simps = compact_escape_plain compact_escape_E2 compact_escape_html

lemma compact_append:
  assumes "c \<noteq> CHR 0x80" "c \<noteq> CHR 0xA8" "c \<noteq> CHR 0xA9"
  shows "compact_escape (a @ c # b) = compact_escape a @ compact_escape (c # b)"
proof (induction a rule: length_induct)
  case (1 a)
  then have IH: "compact_escape (r @ c # b) = compact_escape r @ compact_escape (c # b)" if "length r < length a" for r
    using that by blast
  show ?case
  proof (cases a rule: compact_escape_cases)
    case (plain d r)
    with IH [of r] show ?thesis by (simp add: compact_escape_plain)
  next
    case (html d r)
    with IH [of r] show ?thesis by (auto simp: compact_escape_html)
  next
    case (E2 r)
    with assms have "\<not> separator_rest (r @ c # b)"
      by (cases r; cases "tl r") (auto simp: separator_rest_def)
    with IH [of r] E2 show ?thesis by (simp add: compact_escape_E2)
  next
    case (separator e r)
    with IH [of r] show ?thesis by (auto simp: compact_escape_html)
  qed simp
qed

text \<open>An escaped text has no separator at its front that the text did not have.\<close>

lemma separator_rest_compact: "separator_rest (compact_escape s) \<Longrightarrow> separator_rest s"
proof (cases s rule: compact_escape_cases)
  case (plain c r)
  assume "separator_rest (compact_escape s)"
  with plain have *: "c = CHR 0x80" "take 1 (compact_escape r) \<in> {[CHR 0xA8], [CHR 0xA9]}"
    by (auto simp: separator_rest_def compact_escape_plain numeral_2_eq_2)
  then show ?thesis using plain
    by (cases r rule: compact_escape_cases) (auto simp: separator_rest_def compact_simps numeral_2_eq_2)
qed (auto simp: separator_rest_def compact_simps numeral_2_eq_2)

lemma compact_idem: "compact_escape (compact_escape s) = compact_escape s"
proof (induction s rule: length_induct)
  case (1 s)
  then have IH: "compact_escape (compact_escape r) = compact_escape r" if "length r < length s" for r using that by blast
  show ?case
  proof (cases s rule: compact_escape_cases)
    case (E2 r)
    with separator_rest_compact [of r] have "\<not> separator_rest (compact_escape r)" by blast
    with IH [of r] E2 show ?thesis by (simp add: compact_escape_E2)
  qed (use IH in \<open>auto simp: compact_simps\<close>)
qed

inductive_cases lit_ok_ConsE: "lit_ok (c # l)"

lemma lit_ok_tail: "lit_ok (c # l) \<Longrightarrow> c \<noteq> backslash \<Longrightarrow> lit_ok l"
  by (auto elim: lit_ok_ConsE)

lemma hex_chars [simp]: "is_hex CHR ''0''" "is_hex CHR ''2''" "is_hex CHR ''3''" "is_hex CHR ''6''" "is_hex CHR ''8''"
  "is_hex CHR ''9''" "is_hex CHR ''c''" "is_hex CHR ''e''"
  by (simp_all add: is_hex_def is_digit_def)

lemma escape_not_special: "e \<in> escapes \<Longrightarrow> e \<notin> specials"
  by auto

lemma hex_not_special: "is_hex h \<Longrightarrow> h \<notin> specials"
  by (auto simp: is_hex_def is_digit_def)

lemma lit_ok_compact: "lit_ok l \<Longrightarrow> lit_ok (compact_escape l)"
proof (induction l rule: lit_ok.induct)
  case empty
  then show ?case by (simp add: lit_ok.empty)
next
  case (plain l c)
  show ?case
  proof (cases "c # l" rule: compact_escape_cases)
    case (html d r)
    with plain.IH show ?thesis by (auto simp: compact_escape_html intro!: lit_ok.unicode)
  next
    case (separator e r)
    with plain.IH have "lit_ok (CHR 0x80 # e # compact_escape r)" by (auto simp: compact_escape_plain)
    then have "lit_ok (compact_escape r)" using separator(2) by (auto dest!: lit_ok_tail)
    with separator show ?thesis by (auto simp: compact_escape_html intro!: lit_ok.unicode)
  qed (use plain in \<open>auto simp: compact_simps intro: lit_ok.plain\<close>)
next
  case (escape l e)
  with lit_ok.escape [OF escape.IH escape.hyps(2)] show ?case
    using escape_not_special [OF escape.hyps(2)] by (simp add: compact_escape_plain)
next
  case (unicode l h1 h2 h3 h4)
  then show ?case using hex_not_special lit_ok.unicode by (simp add: compact_escape_plain)
qed

text \<open>The value with its string literals escaped, which is what the escaped text says.\<close>

fun html_escape :: "json \<Rightarrow> json" and html_escape_list :: "json list \<Rightarrow> json list"
  and html_escape_members :: "(string \<times> json) list \<Rightarrow> (string \<times> json) list" where
  "html_escape (JString l) = JString (compact_escape l)"
| "html_escape (JArray js) = JArray (html_escape_list js)"
| "html_escape (JObject ms) = JObject (html_escape_members ms)"
| "html_escape j = j"
| "html_escape_list [] = []"
| "html_escape_list (j # js) = html_escape j # html_escape_list js"
| "html_escape_members [] = []"
| "html_escape_members ((k, j) # ms) = (compact_escape k, html_escape j) # html_escape_members ms"

lemma html_escape_ok:
  "json_ok j \<Longrightarrow> json_ok (html_escape j)" "json_ok_list js \<Longrightarrow> json_ok_list (html_escape_list js)"
  "json_ok_members ms \<Longrightarrow> json_ok_members (html_escape_members ms)"
  by (induction j and js and ms rule: html_escape_html_escape_list_html_escape_members.induct) (simp_all add: lit_ok_compact)

lemma html_escape_empty [simp]: "html_escape_list js = [] \<longleftrightarrow> js = []" "html_escape_members ms = [] \<longleftrightarrow> ms = []"
  by (cases js, simp_all) (cases ms rule: html_escape_members.cases, auto)

lemma html_escape_idem:
  "html_escape (html_escape j) = html_escape j" "html_escape_list (html_escape_list js) = html_escape_list js"
  "html_escape_members (html_escape_members ms) = html_escape_members ms"
  by (induction j and js and ms rule: html_escape_html_escape_list_html_escape_members.induct) (simp_all add: compact_idem)

abbreviation num_char :: "char \<Rightarrow> bool" where
  "num_char c \<equiv> is_digit c \<or> c = CHR ''-'' \<or> c = CHR ''+'' \<or> c = CHR ''.'' \<or> c = CHR ''e'' \<or> c = CHR ''E''"

lemma scan_digits_chars: "scan_digits s = Some (d, r) \<Longrightarrow> list_all num_char d"
  by (auto simp: scan_digits_def Let_def list_all_iff dest: set_takeWhileD split: if_splits)

lemma scan_number_chars: "num_ok l \<Longrightarrow> list_all num_char l"
proof -
  assume "num_ok l"
  then obtain sign s0 i s1 f s2 e where s: "sign_of l = (sign, s0)" "scan_int s0 = Some (i, s1)"
    "scan_frac s1 = Some (f, s2)" "scan_exp s2 = Some (e, [])" "l = sign @ i @ f @ e"
    unfolding num_ok_def scan_number_iff by blast
  have "list_all num_char sign" using s(1) by (auto simp: sign_of_def split: list.splits if_splits)
  moreover have "list_all num_char i"
    using s(2) scan_digits_chars by (auto simp: scan_int_def is_digit_def split: list.splits if_splits)
  moreover have "list_all num_char f"
    using s(3) scan_digits_chars by (auto simp: scan_frac_def split: list.splits if_splits)
  moreover have "list_all num_char e"
    using s(4) scan_digits_chars by (auto simp: scan_exp_def split: list.splits if_splits)
  ultimately show ?thesis using s(5) by simp
qed

lemma num_char_not_special: "num_char c \<Longrightarrow> c \<notin> specials"
  by (auto simp: is_digit_def)

lemma compact_chars: "(\<And>c. c \<in> set s \<Longrightarrow> c \<notin> specials) \<Longrightarrow> compact_escape s = s"
  by (induction s) (simp_all add: compact_escape_plain)

lemma compact_number: "num_ok l \<Longrightarrow> compact_escape l = l"
  using scan_number_chars num_char_not_special by (intro compact_chars) (auto simp: list_all_iff)

lemma compact_print:
  "json_ok j \<Longrightarrow> compact_escape (json_print j) = json_print (html_escape j)"
  "json_ok_list js \<Longrightarrow> compact_escape (json_print_list js) = json_print_list (html_escape_list js)"
  "json_ok_members ms \<Longrightarrow> compact_escape (json_print_members ms) = json_print_members (html_escape_members ms)"
  by (induction j and js and ms rule: json_print_json_print_list_json_print_members.induct)
    (auto simp: compact_number compact_escape_plain compact_append)

text \<open>Text that has been printed with the escapes is read as itself, and printing it again gives the same text.\<close>

lemma raw_roundtrip:
  assumes "json_ok j"
  defines "t \<equiv> compact_escape (json_print j)"
  shows "parse_value (Suc (2 * length t)) t = Some (html_escape j, [])" and "compact_escape (json_print (html_escape j)) = t"
  using decode_print [OF html_escape_ok(1) [OF assms(1)]] compact_print(1) [OF assms(1)] compact_idem [of "json_print j"]
  by (simp_all add: t_def)

subsection \<open>Integers and strings\<close>

lemma utoa_no_leading_zero: "0 < n \<Longrightarrow> hd (utoa n) \<noteq> CHR ''0''"
proof (induction n rule: utoa.induct)
  case (1 n)
  show ?case
  proof (cases "n < 10")
    case True
    then have "(of_char (digit_char n) :: nat) = 48 + n" by (simp add: digit_char_def)
    with 1(2) True show ?thesis by (auto simp: utoa.simps [of n])
  next
    case False
    with 1 utoa_parse [of "n div 10"] show ?thesis by (simp add: utoa.simps [of n] hd_append)
  qed
qed

lemma scan_int_utoa: "scan_int (utoa n) = Some (utoa n, [])"
proof (cases "n = 0")
  case True
  moreover have "char_of (48 :: nat) = CHR ''0''" by code_simp
  ultimately show ?thesis by (simp add: utoa.simps [of 0] scan_int_def digit_char_def)
next
  case False
  then have "hd (utoa n) \<noteq> CHR ''0''" by (simp add: utoa_no_leading_zero)
  moreover have "takeWhile is_digit (utoa n) = utoa n" "dropWhile is_digit (utoa n) = []" "utoa n \<noteq> []"
    using utoa_parse [of n] by (simp_all add: list_all_iff)
  ultimately show ?thesis by (cases "utoa n") (auto simp: scan_int_def scan_digits_def Let_def split: if_splits)
qed

lemma num_ok_Itoa: "num_ok (Itoa i)"
proof -
  obtain c r where c: "utoa (nat \<bar>i\<bar>) = c # r" "c \<noteq> CHR ''-''" using utoa_Cons by blast
  have "sign_of (Itoa i) = (if i < 0 then ''-'' else [], utoa (nat \<bar>i\<bar>))"
    using c by (cases "i < 0") (simp_all add: Itoa_def sign_of_def)
  moreover have "scan_frac [] = Some ([], [])" "scan_exp [] = Some ([], [])" by (simp_all add: scan_frac_def scan_exp_def)
  moreover have "Itoa i = (if i < 0 then ''-'' else []) @ utoa (nat \<bar>i\<bar>) @ [] @ []" by (auto simp: Itoa_def)
  ultimately show ?thesis unfolding num_ok_def scan_number_iff using scan_int_utoa by blast
qed

subsection \<open>Go strings as literals\<close>

text \<open>A rune of more than one byte consists of a first byte above 127 and continuation bytes.\<close>

lemma rune_bytes:
  assumes "rune_length (c # cs) = n" "n \<noteq> 0" "\<not> byte_in 0 127 c"
  shows "\<exists>r. take n (c # cs) = c # r \<and> list_all continuation r \<and> 128 \<le> (of_char c :: nat) \<and> (c = CHR 0xE2 \<longrightarrow> length r = 2)"
  using assms by (auto simp: rune_length_def accept_second_def byte_in_def split: if_splits list.splits)

lemma is_hex_hex_digit: "n < 16 \<Longrightarrow> is_hex (hex_digit n)"
  by (auto simp: hex_digit_def is_hex_def is_digit_def Let_def)

lemma lit_ok_append: "lit_ok a \<Longrightarrow> lit_ok b \<Longrightarrow> lit_ok (a @ b)"
  by (induction a rule: lit_ok.induct) (auto intro: lit_ok.intros)

lemma lit_ok_high: "list_all (\<lambda>c. 128 \<le> (of_char c :: nat)) r \<Longrightarrow> lit_ok r"
  by (induction r) (auto intro!: lit_ok.intros)

lemma compact_prefix: "list_all (\<lambda>c. c \<notin> specials) a \<Longrightarrow> compact_escape (a @ b) = a @ compact_escape b"
  by (induction a) (simp_all add: compact_escape_plain)

text \<open>A piece of an escaped string: a literal of its own that escaping for HTML does not change.\<close>

definition escaped :: "string \<Rightarrow> bool" where
  "escaped a \<longleftrightarrow> lit_ok a \<and> (\<forall>b. compact_escape (a @ b) = a @ compact_escape b)"

lemma escaped_append: "escaped a \<Longrightarrow> escaped b \<Longrightarrow> escaped (a @ b)"
  by (simp add: escaped_def lit_ok_append)

lemma escaped_plain: "lit_ok a \<Longrightarrow> list_all (\<lambda>c. c \<notin> specials) a \<Longrightarrow> escaped a"
  by (simp add: escaped_def compact_prefix)

lemma escaped_unicode: "is_hex a \<Longrightarrow> is_hex b \<Longrightarrow> is_hex c \<Longrightarrow> is_hex d \<Longrightarrow> escaped [backslash, CHR ''u'', a, b, c, d]"
  using hex_not_special by (intro escaped_plain lit_ok.unicode lit_ok.empty) simp_all

lemma escaped_char: "byte_in 0 127 c \<Longrightarrow> escaped (escape_char c)"
proof -
  assume c: "byte_in 0 127 c"
  have esc: "escaped [backslash, e]" if "e \<in> escapes" for e
    using lit_ok.escape [OF lit_ok.empty that] escape_not_special [OF that] by (simp add: escaped_plain)
  have "escaped [backslash, CHR ''u'', CHR ''0'', CHR ''0'', hex_digit (of_char c div 16), hex_digit (of_char c mod 16)]"
    using c is_hex_hex_digit by (intro escaped_unicode) (simp_all add: byte_in_def)
  moreover have "escaped [c]" if "c \<noteq> quote_char" "c \<noteq> backslash" "\<not> (of_char c :: nat) < 32" "c \<notin> {CHR ''<'', CHR ''>'', CHR ''&''}"
  proof -
    have "c \<noteq> CHR 0xE2" using c by (auto simp: byte_in_def)
    with that lit_ok.plain [OF lit_ok.empty, of c] show ?thesis by (intro escaped_plain) simp_all
  qed
  ultimately show ?thesis using esc by (simp add: escape_char_def Let_def)
qed

lemma escaped_rune:
  assumes "list_all continuation r" "128 \<le> (of_char c :: nat)" "c = CHR 0xE2 \<longrightarrow> length r = 2"
  shows "escaped (escape_rune (c # r))"
proof -
  have ok: "lit_ok (c # r)" using assms by (intro lit_ok_high) (auto simp: list_all_iff byte_in_def)
  have r: "list_all (\<lambda>c. c \<notin> specials) r" using assms(1) by (auto simp: list_all_iff byte_in_def)
  have hex: "is_hex CHR ''8''" "is_hex CHR ''9''" "is_hex CHR ''0''" "is_hex CHR ''2''" by simp_all
  show ?thesis
  proof (cases "c = CHR 0xE2")
    case False
    with r assms(2) have "list_all (\<lambda>c. c \<notin> specials) (c # r)" by auto
    with False ok show ?thesis by (simp add: escape_rune_def escaped_plain)
  next
    case True
    with assms(3) have two: "length r = 2" by simp
    show ?thesis
    proof (cases "separator_rest r")
      case True
      with \<open>c = _\<close> assms(3) show ?thesis
        using escaped_unicode [OF hex(4,3,4,1)] escaped_unicode [OF hex(4,3,4,2)]
        by (auto simp: escape_rune_def separator_rest_def)
    next
      case False
      then have "\<not> separator_rest (r @ b)" for b by (simp add: separator_rest_def two)
      with r have "compact_escape (c # r @ b) = c # r @ compact_escape b" for b
        by (simp add: \<open>c = _\<close> compact_escape_E2 compact_prefix)
      moreover have "escape_rune (c # r) = c # r" using False by (auto simp: escape_rune_def separator_rest_def)
      ultimately show ?thesis using ok by (simp add: escaped_def)
    qed
  qed
qed

lemma escape_string_ascii: "byte_in 0 127 c \<Longrightarrow> escape_string (c # s) = escape_char c @ escape_string s"
  by (simp add: escape_string.simps(2) [of c])

text \<open>The first rune of a text, as the loops of the encoder and the decoder see it.\<close>

lemma rune_cases [case_names empty ascii invalid rune]:
  assumes "s = [] \<Longrightarrow> P"
    and "\<And>c r. s = c # r \<Longrightarrow> byte_in 0 127 c \<Longrightarrow> P"
    and "\<And>c r. s = c # r \<Longrightarrow> \<not> byte_in 0 127 c \<Longrightarrow> rune_length (c # r) = 0 \<Longrightarrow> P"
    and "\<And>c a r. s = c # a @ r \<Longrightarrow> \<not> byte_in 0 127 c \<Longrightarrow> rune_length (c # a @ r) = Suc (length a) \<Longrightarrow>
      list_all continuation a \<Longrightarrow> 128 \<le> (of_char c :: nat) \<Longrightarrow> c = CHR 0xE2 \<longrightarrow> length a = 2 \<Longrightarrow> P"
  shows P
proof (cases s)
  case (Cons c r)
  show P
  proof (cases "byte_in 0 127 c \<or> rune_length (c # r) = 0")
    case False
    then obtain n where n: "rune_length (c # r) = Suc n" by (cases "rune_length (c # r)") auto
    with False rune_bytes [of c r] have a: "list_all continuation (take n r)" "128 \<le> (of_char c :: nat)"
      "c = CHR 0xE2 \<longrightarrow> length (take n r) = 2" by auto
    have "n \<le> length r" using n False by (auto simp: rune_length_def split: if_splits list.splits)
    with assms(4) [of c "take n r" "drop n r"] a n Cons False show P by simp
  qed (use Cons assms(2,3) in blast)
qed (use assms(1) in blast)

lemma escape_string_invalid:
  "\<not> byte_in 0 127 c \<Longrightarrow> rune_length (c # r) = 0 \<Longrightarrow> escape_string (c # r) = [backslash] @ ''ufffd'' @ escape_string r"
  by (simp add: escape_string.simps(2) [of c])

lemma escape_string_rune:
  "\<not> byte_in 0 127 c \<Longrightarrow> rune_length (c # a @ r) = Suc (length a) \<Longrightarrow>
   escape_string (c # a @ r) = escape_rune (c # a) @ escape_string r"
  by (simp add: escape_string.simps(2) [of c])

lemmas escape_string_simps = escape_string_ascii escape_string_invalid escape_string_rune

lemma escaped_string: "escaped (escape_string s)"
proof (induction s rule: length_induct)
  case (1 s)
  then have IH: "length r < length s \<Longrightarrow> escaped (escape_string r)" for r by blast
  show ?case
  proof (cases s rule: rune_cases)
    case (ascii c r)
    then show ?thesis using IH [of r] escaped_append [OF escaped_char] by (simp add: escape_string_ascii)
  next
    case (invalid c r)
    moreover have "escaped ([backslash] @ ''ufffd'')" by (simp add: escaped_unicode is_hex_def is_digit_def)
    ultimately show ?thesis using IH [of r] escaped_append by (fastforce simp: escape_string_invalid)
  next
    case (rune c a r)
    then show ?thesis using IH [of r] escaped_append [OF escaped_rune] by (simp add: escape_string_rune)
  qed (simp add: escaped_def lit_ok.empty)
qed

lemma escape_string_lit: "lit_ok (escape_string s)" "compact_escape (escape_string s) = escape_string s"
proof -
  from escaped_string [of s] have e: "lit_ok (escape_string s)" "\<And>b. compact_escape (escape_string s @ b) = escape_string s @ compact_escape b"
    by (simp_all add: escaped_def)
  show "lit_ok (escape_string s)" by (rule e)
  show "compact_escape (escape_string s) = escape_string s" using e(2) [of "[]"] by simp
qed

end
