(* ===== verification/Json_Strings.thy ===== *)
theory Json_Strings
  imports Json_Roundtrip
begin

text \<open>
  A Go string survives the way through JSON: \<^verbatim>\<open>Unmarshal\<close> gives back the string that \<^verbatim>\<open>Marshal\<close> wrote,
  with all its quotes, control characters, HTML characters and line separators, as long as it is
  valid UTF-8. The same for maps with integer keys.
\<close>

lemma unquote_rune:
  "\<not> byte_in 0 127 c \<Longrightarrow> rune_length (c # a @ r) = Suc (length a) \<Longrightarrow> unquote (c # a @ r) = c # a @ unquote r"
proof -
  assume c: "\<not> byte_in 0 127 c" "rune_length (c # a @ r) = Suc (length a)"
  then have "c \<noteq> backslash" by (auto simp: byte_in_def)
  with c show ?thesis by (simp add: unquote.simps(2) [of c])
qed

lemma unquote_escape:
  "unquote (backslash # quote_char # r) = quote_char # unquote r"
  "unquote (backslash # backslash # r) = backslash # unquote r"
  "unquote (backslash # CHR ''b'' # r) = CHR 0x08 # unquote r"
  "unquote (backslash # CHR ''f'' # r) = CHR 0x0C # unquote r"
  "unquote (backslash # CHR ''n'' # r) = CHR 0x0A # unquote r"
  "unquote (backslash # CHR ''r'' # r) = CHR 0x0D # unquote r"
  "unquote (backslash # CHR ''t'' # r) = CHR 0x09 # unquote r"
  by (simp_all add: unquote.simps(2) [of backslash])

lemma unquote_unicode:
  assumes "hex4 a b c d = x" "x < 55296 \<or> 57344 \<le> x"
  shows "unquote (backslash # CHR ''u'' # a # b # c # d # r) = utf8 x @ unquote r"
  using assms by (auto simp: unquote.simps(2) [of backslash])

text \<open>Whether a text begins with a rune depends on the bytes of the rune only.\<close>

lemma rune_length_prefix: "rune_length (c # a @ r) = Suc (length a) \<Longrightarrow> rune_length (c # a @ r') = Suc (length a)"
proof -
  assume l: "rune_length (c # a @ r) = Suc (length a)"
  then have "length a \<le> 3" by (simp add: rune_length_def split: if_splits list.splits)
  then consider "a = []" | x where "a = [x]" | x y where "a = [x, y]" | x y z where "a = [x, y, z]"
    by (cases a; cases "tl a"; cases "tl (tl a)"; cases "tl (tl (tl a))") auto
  then show ?thesis
    by cases (use l in \<open>simp_all add: rune_length_def split: if_splits list.splits\<close>)
qed

lemma hex_val_digit: "n < 16 \<Longrightarrow> hex_val (hex_digit n) = n"
  by (simp add: hex_val_def hex_digit_def Let_def)

lemma unquote_escape_char: "byte_in 0 127 c \<Longrightarrow> unquote (escape_char c @ r) = c # unquote r"
proof -
  assume c: "byte_in 0 127 c"
  let ?n = "of_char c :: nat"
  have n: "?n < 128" using c by (simp add: byte_in_def)
  then have "hex4 CHR ''0'' CHR ''0'' (hex_digit (?n div 16)) (hex_digit (?n mod 16)) = ?n"
    by (simp add: hex4_def hex_val_digit) (simp add: hex_val_def)
  from unquote_unicode [OF this] n
  have "unquote (backslash # CHR ''u'' # CHR ''0'' # CHR ''0'' # hex_digit (?n div 16) # hex_digit (?n mod 16) # r) = c # unquote r"
    by (simp add: utf8_def)
  moreover have "?n = of_char d \<Longrightarrow> c = d" for d by simp
  from this [of "CHR 0x08"] this [of "CHR 0x0C"] this [of "CHR 0x0A"] this [of "CHR 0x0D"] this [of "CHR 0x09"]
  have "?n = 8 \<Longrightarrow> c = CHR 0x08" "?n = 12 \<Longrightarrow> c = CHR 0x0C" "?n = 10 \<Longrightarrow> c = CHR 0x0A" "?n = 13 \<Longrightarrow> c = CHR 0x0D"
    "?n = 9 \<Longrightarrow> c = CHR 0x09" by simp_all
  ultimately show ?thesis using c
    by (auto simp: escape_char_def Let_def unquote_escape n)
qed

lemma unquote_escape_rune:
  assumes "\<not> byte_in 0 127 c" "rune_length (c # a @ r) = Suc (length a)"
  shows "unquote (escape_rune (c # a) @ t) = c # a @ unquote t"
proof -
  have "hex4 CHR ''2'' CHR ''0'' CHR ''2'' CHR ''8'' = 8232" "hex4 CHR ''2'' CHR ''0'' CHR ''2'' CHR ''9'' = 8233"
    "utf8 8232 = [CHR 0xE2, CHR 0x80, CHR 0xA8]" "utf8 8233 = [CHR 0xE2, CHR 0x80, CHR 0xA9]"
    by (simp_all add: hex4_def hex_val_def utf8_def char_of_eq_iff)
  moreover have "unquote (c # a @ t) = c # a @ unquote t"
    using unquote_rune [OF assms(1) rune_length_prefix [OF assms(2)]] .
  ultimately show ?thesis by (auto simp: escape_rune_def unquote_unicode)
qed

text \<open>
  Every Go string that is valid UTF-8 is decoded to itself.
\<close>

theorem unquote_escape_string: "valid_utf8 s \<Longrightarrow> unquote (escape_string s) = s"
proof (induction s rule: length_induct)
  case (1 s)
  then have IH: "unquote (escape_string r) = r" if "length r < length s" "valid_utf8 r" for r using that by blast
  show ?case
  proof (cases s rule: rune_cases)
    case (ascii c r)
    then have "rune_length (c # r) = 1" by (simp add: rune_length_def)
    with ascii IH [of r] "1.prems" show ?thesis by (simp add: escape_string_ascii unquote_escape_char)
  next
    case (invalid c r)
    with "1.prems" show ?thesis by simp
  next
    case (rune c a r)
    with IH [of r] "1.prems" show ?thesis by (simp add: escape_string_rune unquote_escape_rune [OF rune(2,3)])
  qed simp
qed

subsection \<open>Maps with integer keys\<close>

lemma number_char: "c \<in> set (Itoa i) \<Longrightarrow> (of_char c :: nat) < 128 \<and> c \<noteq> backslash \<and> escape_char c = [c]"
proof -
  assume "c \<in> set (Itoa i)"
  then have "is_digit c \<or> c = CHR ''-''" by (rule Itoa_chars)
  then have "c \<noteq> quote_char" "c \<noteq> backslash" "c \<notin> {CHR ''<'', CHR ''>'', CHR ''&''}" "32 \<le> (of_char c :: nat)" "(of_char c :: nat) < 128"
    by (auto simp: is_digit_def)
  then show ?thesis by (simp add: escape_char_def Let_def)
qed

lemma plain_text:
  assumes "\<And>c. c \<in> set s \<Longrightarrow> (of_char c :: nat) < 128 \<and> c \<noteq> backslash \<and> escape_char c = [c]"
  shows "escape_string s = s" "unquote s = s"
proof -
  have "escape_string s = s \<and> unquote s = s"
    using assms
  proof (induction s)
    case (Cons c s)
    from Cons.prems [of c] have c: "(of_char c :: nat) < 128" "c \<noteq> backslash" "escape_char c = [c]" by simp_all
    then have "byte_in 0 127 c" by (simp add: byte_in_def)
    with Cons c show ?case by (simp add: escape_string_ascii)
  qed simp
  then show "escape_string s = s" "unquote s = s" by simp_all
qed

lemmas escape_Itoa = plain_text(1) [OF number_char] and unquote_Itoa = plain_text(2) [OF number_char]

text \<open>The members that \<^verbatim>\<open>Marshal\<close> writes for a map, in any order of the keys.\<close>

definition int_members :: "(int \<Rightarrow> 'v \<Rightarrow> 'a) \<Rightarrow> (int \<rightharpoonup> 'v) \<Rightarrow> int list \<Rightarrow> (string \<times> 'a) list" where
  "int_members g m ks = List.map_filter (\<lambda>k. map_option (\<lambda>v. (Itoa k, g k v)) (m k)) ks"

lemma int_members_simps [simp]:
  "int_members g m [] = []"
  "int_members g m (k # ks) = (case m k of None \<Rightarrow> int_members g m ks | Some v \<Rightarrow> (Itoa k, g k v) # int_members g m ks)"
  by (auto simp: int_members_def List.map_filter_def split: option.split)

lemma unmarshal_int_members:
  assumes "\<And>k v. m k = Some v \<Longrightarrow> in_int64 k \<and> elem (g k v) = Some v"
  shows "unmarshal_members elem (int_members g m ks) m0 = Some (m0 ++ (m |` set ks))"
proof (induction ks arbitrary: m0)
  case (Cons k ks)
  show ?case
  proof (cases "m k")
    case None
    then have "m |` insert k (set ks) = m |` set ks" by (auto simp: restrict_map_def)
    with None Cons show ?thesis by simp
  next
    case (Some v)
    have "m0(k \<mapsto> v) ++ (m |` set ks) = m0 ++ (m |` insert k (set ks))"
      using Some by (auto simp: map_add_def restrict_map_def fun_eq_iff split: option.split)
    with Some assms [OF Some] Cons show ?thesis by (simp add: unquote_Itoa fun_upd_def)
  qed
qed simp

text \<open>A map whose keys are all listed is decoded to itself.\<close>

lemma unmarshal_int_map:
  assumes "\<And>k v. m k = Some v \<Longrightarrow> in_int64 k \<and> elem (g k v) = Some v" "dom m \<subseteq> set ks"
  shows "unmarshal_map elem (JObject (int_members g m ks)) None = Some (Some m)"
proof -
  have "(m |` set ks) k = m k" for k using assms(2) by (cases "m k") (auto simp: restrict_map_def)
  then have "m |` set ks = m" by (rule ext)
  with unmarshal_int_members [of m elem g ks Map.empty] assms(1) show ?thesis by simp
qed

end
