(* ===== verification/Http_Bodies.thy ===== *)
theory Http_Bodies
  imports Http_Properties Json_Strings
begin

text \<open>
  The types of the response bodies. \<open>jtype\<close> names the shapes that \<^verbatim>\<open>encoding/json\<close> gives to the Go
  types the handlers encode, \<open>has_type\<close> checks a JSON value against one, and \<open>route_type\<close> is the type
  of the result of each route (\<^verbatim>\<open>None\<close>: the route answers without a body).
\<close>

datatype jtype =
    TAny | TBool | TString | TInt | TNullable jtype | TArray jtype | TIntMap jtype | TStruct "(string \<times> jtype) list"

definition int_literal :: "string \<Rightarrow> bool" where
  "int_literal l \<longleftrightarrow> l \<noteq> [] \<and> list_all (\<lambda>c. is_digit c \<or> c = CHR ''-'') l"

fun has_type :: "json \<Rightarrow> jtype \<Rightarrow> bool" and struct_type :: "(string \<times> json) list \<Rightarrow> (string \<times> jtype) list \<Rightarrow> bool" where
  "has_type j TAny \<longleftrightarrow> True"
| "has_type (JBool b) TBool \<longleftrightarrow> True"
| "has_type (JString l) TString \<longleftrightarrow> True"
| "has_type (JNumber l) TInt \<longleftrightarrow> int_literal l"
| "has_type j (TNullable t) \<longleftrightarrow> j = JNull \<or> has_type j t"
| "has_type (JArray js) (TArray t) \<longleftrightarrow> list_all (\<lambda>j. has_type j t) js"
| "has_type (JObject ms) (TIntMap t) \<longleftrightarrow> list_all (\<lambda>m. int_literal (fst m) \<and> has_type (snd m) t) ms"
| "has_type (JObject ms) (TStruct fs) \<longleftrightarrow> struct_type ms fs"
| "has_type j t \<longleftrightarrow> False"
| "struct_type [] [] \<longleftrightarrow> True"
| "struct_type ((k, j) # ms) ((n, t) # fs) \<longleftrightarrow> k = n \<and> has_type j t \<and> struct_type ms fs"
| "struct_type ms fs \<longleftrightarrow> False"

definition error_type :: jtype where
  "error_type = TStruct [(''error'', TString), (''message'', TString)]"

definition route_type :: "string \<Rightarrow> jtype option" where
  "route_type path =
     (if path = ''/internal/vote/stop'' then Some (TStruct [(''votes'', TArray TAny), (''user_ids'', TArray TInt)])
      else if path = ''/system/vote/voted'' then Some (TIntMap (TNullable (TArray TInt)))
      else if path = ''/system/vote/health'' then Some (TStruct [(''healthy'', TBool), (''service'', TString)])
      else None)"

text \<open>A text that is one JSON value, with white space around it at most.\<close>

definition json_text :: "string \<Rightarrow> json option" where
  "json_text s =
     (case parse_value (Suc (2 * length s)) s of
        None \<Rightarrow> None
      | Some (j, r) \<Rightarrow> if skip_ws r = [] then Some j else None)"

definition body_has_type :: "string \<Rightarrow> jtype \<Rightarrow> bool" where
  "body_has_type s t \<longleftrightarrow> (case json_text s of None \<Rightarrow> False | Some j \<Rightarrow> has_type j t)"

definition response_typed :: "string \<Rightarrow> response \<Rightarrow> bool" where
  "response_typed path r \<longleftrightarrow> resp_ContentType r = ''application/json'' \<and>
     (resp_Status r = 200 \<and> (resp_Body r = [] \<or> (case route_type path of None \<Rightarrow> False | Some t \<Rightarrow> body_has_type (resp_Body r) t)) \<or>
      body_has_type (resp_Body r) error_type)"

subsection \<open>Printed objects\<close>

declare scan_string.simps(2) [simp del]

lemma json_text_object:
  assumes "json_ok (JObject ms)" "skip_ws t = []"
  shows "json_text (json_print (JObject ms) @ t) = Some (JObject ms)"
proof -
  let ?s = "json_print (JObject ms) @ t"
  have "need_members ms \<le> 2 * length ?s" using need_bound(3) [of ms] assms(1) by simp
  then have "parse_value (Suc (2 * length ?s)) ?s = Some (JObject ms, t)"
  proof (cases ms)
    case (Cons km ms')
    then obtain r where "json_print_members ms = quote_char # r" by (cases km) auto
    moreover have "parse_members (2 * length ?s) (json_print_members ms @ CHR ''}'' # t) = Some (ms, t)"
      using parse_print(3) [of ms "2 * length ?s" t] assms(1) Cons \<open>need_members ms \<le> _\<close> by simp
    ultimately show ?thesis by simp
  qed simp
  with assms(2) show ?thesis by (simp add: json_text_def del: parse_value.simps)
qed

lemma join_print: "join CHR '','' (map json_print js) = json_print_list js"
proof (induction js)
  case (Cons j js)
  then show ?case by (cases js) auto
qed simp

lemma join_members: "join CHR '','' (map (\<lambda>(k, j). string_Marshal k @ '':'' @ json_print j) ms) =
    json_print_members (map (map_prod escape_string id) ms)"
proof (induction ms)
  case (Cons m ms)
  then show ?case by (cases ms; cases m) (auto simp: string_Marshal_def)
qed simp

lemma json_array_print: "json_array (map json_print js) = json_print (JArray js)"
  by (simp add: json_array_def join_print)

lemma json_object_print: "json_object (map (map_prod id json_print) ms) = json_print (JObject (map (map_prod escape_string id) ms))"
  using join_members [of ms] by (simp add: json_object_def comp_def case_prod_unfold)

lemma json_ok_list_iff: "json_ok_list js \<longleftrightarrow> (\<forall>j \<in> set js. json_ok j)"
  by (induction js) auto

lemma json_ok_members_iff: "json_ok_members ms \<longleftrightarrow> (\<forall>m \<in> set ms. lit_ok (fst m) \<and> json_ok (snd m))"
  by (induction ms) auto

text \<open>An object as \<^verbatim>\<open>Encode\<close> writes it, with a newline at the end, is read back as this object.\<close>

lemma encoded_object:
  assumes "\<And>m. m \<in> set ms \<Longrightarrow> json_ok (snd m)"
  shows "json_text (json_object (map (map_prod id json_print) ms) @ newline) = Some (JObject (map (map_prod escape_string id) ms))"
proof -
  have "json_ok (JObject (map (map_prod escape_string id) ms))"
    using assms by (auto simp: json_ok_members_iff escape_string_lit)
  moreover have "skip_ws newline = []" by (simp add: skip_ws_def is_ws_def)
  ultimately show ?thesis unfolding json_object_print by (rule json_text_object)
qed

lemma int_literal_Itoa: "int_literal (Itoa i)"
proof -
  have "Itoa i \<noteq> []" using utoa_parse by (simp add: Itoa_def)
  then show ?thesis using Itoa_chars by (simp add: int_literal_def list_all_iff)
qed

abbreviation ints_json :: "int list \<Rightarrow> json" where
  "ints_json is \<equiv> JArray (map (\<lambda>i. JNumber (Itoa i)) is)"

lemma ints_json:
  "json_array (map Itoa is) = json_print (ints_json is)" "json_ok (ints_json is)" "has_type (ints_json is) (TArray TInt)"
proof -
  show "json_array (map Itoa is) = json_print (ints_json is)"
    using json_array_print [of "map (\<lambda>i. JNumber (Itoa i)) is"] by (simp add: comp_def)
  show "json_ok (ints_json is)" by (auto simp: json_ok_list_iff num_ok_Itoa)
  show "has_type (ints_json is) (TArray TInt)" by (simp add: list_all_iff int_literal_Itoa)
qed

subsection \<open>The bodies\<close>

lemma error_json_typed: "body_has_type (error_json typ msg) error_type"
proof -
  let ?ms = "[(''error'', JString (escape_string typ)), (''message'', JString (escape_string msg))]"
  have n: "string_Marshal ''error'' = ''\"error\"''" "string_Marshal ''message'' = ''\"message\"''"
    "escape_string ''error'' = ''error''" "escape_string ''message'' = ''message''" by code_simp+
  have "error_json typ msg = json_object (map (map_prod id json_print) ?ms) @ newline"
    by (simp add: error_json_def json_object_def n) (simp add: string_Marshal_def)
  moreover have "json_text (json_object (map (map_prod id json_print) ?ms) @ newline) =
      Some (JObject (map (map_prod escape_string id) ?ms))"
    by (rule encoded_object) (auto simp: escape_string_lit)
  ultimately show ?thesis by (simp add: body_has_type_def error_type_def n)
qed

lemma raw_encode_ok: "raw_encode obj = Some t \<Longrightarrow> \<exists>j. json_ok j \<and> t = json_print j"
proof -
  assume "raw_encode obj = Some t"
  then obtain j r where j: "parse_value (Suc (2 * length obj)) obj = Some (j, r)" "t = compact_escape (json_print j)"
    by (auto simp: raw_encode_def simp del: parse_value.simps split: option.splits if_splits)
  from parse_ok(1) [OF j(1)] j(2) html_escape_ok(1) compact_print(1) show ?thesis by metis
qed

lemma raw_encode_all_ok: "raw_encode_all objs = Some ts \<Longrightarrow> \<exists>js. list_all json_ok js \<and> ts = map json_print js"
proof (induction objs arbitrary: ts)
  case (Cons obj objs)
  then obtain t ts' where t: "raw_encode obj = Some t" "raw_encode_all objs = Some ts'" "ts = t # ts'"
    by (auto split: option.splits)
  from raw_encode_ok [OF t(1)] Cons.IH [OF t(2)] obtain j js where "json_ok j" "t = json_print j"
    "list_all json_ok js" "ts' = map json_print js" by blast
  with t(3) show ?case by (intro exI [of _ "j # js"]) simp
qed simp

lemma stop_body_typed:
  assumes "stop_body objs users = Some body"
  shows "body_has_type body (TStruct [(''votes'', TArray TAny), (''user_ids'', TArray TInt)])"
proof -
  from assms obtain ts where ts: "raw_encode_all objs = Some ts"
    and body: "body = json_object [(''votes'', json_array ts), (''user_ids'', json_array (map Itoa users))] @ newline"
    by (auto simp: stop_body_def)
  from raw_encode_all_ok [OF ts] obtain js where js: "list_all json_ok js" "ts = map json_print js" by blast
  let ?ms = "[(''votes'', JArray js), (''user_ids'', ints_json users)]"
  have n: "escape_string ''votes'' = ''votes''" "escape_string ''user_ids'' = ''user_ids''" by code_simp+
  have "body = json_object (map (map_prod id json_print) ?ms) @ newline"
    by (simp add: body js json_array_print ints_json del: json_print.simps)
  moreover have "json_text (json_object (map (map_prod id json_print) ?ms) @ newline) =
      Some (JObject (map (map_prod escape_string id) ?ms))"
    by (rule encoded_object) (use js ints_json(2) in \<open>auto simp: json_ok_list_iff list_all_iff\<close>)
  ultimately show ?thesis using ints_json(3) [of users] by (simp add: body_has_type_def n list_all_iff)
qed

lemma int_map_typed:
  assumes "\<And>m. m \<in> set ms \<Longrightarrow> \<exists>i. fst m = Itoa i \<and> json_ok (snd m) \<and> has_type (snd m) t"
  shows "body_has_type (json_object (map (map_prod id json_print) ms) @ newline) (TIntMap t)"
proof -
  have "json_text (json_object (map (map_prod id json_print) ms) @ newline) =
      Some (JObject (map (map_prod escape_string id) ms))"
    by (rule encoded_object) (use assms in blast)
  moreover have "int_literal (escape_string (fst m)) \<and> has_type (snd m) t" if "m \<in> set ms" for m
    using assms [OF that] escape_Itoa int_literal_Itoa by auto
  ultimately show ?thesis by (simp add: body_has_type_def list_all_iff)
qed

lemma voted_body_typed: "body_has_type (voted_body pollIDs out) (TIntMap (TNullable (TArray TInt)))"
proof -
  define j where "j us = (case us of None \<Rightarrow> JNull | Some is \<Rightarrow> ints_json is)" for us
  define ms where "ms = List.map_filter (\<lambda>pid. map_option (\<lambda>us. (Itoa pid, j us)) (out pid)) (sorted_keys (remdups pollIDs))"
  have j: "ids_json us = json_print (j us)" "json_ok (j us)" "has_type (j us) (TNullable (TArray TInt))" for us
    using ints_json [of "the us"] by (cases us; simp add: j_def ids_json_def)+
  have "voted_body pollIDs out = json_object (map (map_prod id json_print) ms) @ newline"
    by (auto simp: voted_body_def ms_def List.map_filter_def j intro!: arg_cong [where f = json_object] map_cong)
  moreover have "\<exists>i. fst m = Itoa i \<and> json_ok (snd m) \<and> has_type (snd m) (TNullable (TArray TInt))" if "m \<in> set ms" for m
    using that j(2,3) by (auto simp: ms_def List.map_filter_def simp del: has_type.simps)
  ultimately show ?thesis using int_map_typed by simp
qed

text \<open>What a handler gives to \<^verbatim>\<open>resolveError\<close>: an error and nothing written, or a body of the type of its route.\<close>

definition output_typed :: "string \<Rightarrow> err option \<times> string \<Rightarrow> bool" where
  "output_typed path out \<longleftrightarrow> snd out = [] \<or>
     fst out = None \<and> (case route_type path of None \<Rightarrow> False | Some t \<Rightarrow> body_has_type (snd out) t)"

lemma resolve_typed: "output_typed path (fst (handler s)) \<Longrightarrow> response_typed path (fst (resolveError handler i s))"
  using error_json_typed
  by (auto simp: output_typed_def response_typed_def resolveError_def writeFormattedError_def Let_def
      split: prod.splits option.splits)

lemma handlers_typed:
  "output_typed path (fst (handleStart S r s))" "output_typed path (fst (handleClear S r s))"
  "output_typed path (fst (handleClearAll S r s))" "output_typed path (fst (handleVote S auth c r s))"
  by (auto simp: output_typed_def handleStart_def handleClear_def handleClearAll_def handleVote_def
      split: sum.splits prod.splits)

lemma handleStop_typed: "output_typed ''/internal/vote/stop'' (fst (handleStop S c r s))"
  using stop_body_typed
  by (auto simp: output_typed_def handleStop_def route_type_def split: sum.splits prod.splits option.splits)

lemma handleVoted_typed: "output_typed ''/system/vote/voted'' (fst (handleVoted S auth c r s))"
  using voted_body_typed
  by (auto simp: output_typed_def handleVoted_def route_type_def split: sum.splits)

lemma handleHealth_typed: "output_typed ''/system/vote/health'' (fst (handleHealth r s))"
proof -
  have "body_has_type ''{\"healthy\": true, \"service\":\"vote\"}'' (TStruct [(''healthy'', TBool), (''service'', TString)])"
    by code_simp
  then show ?thesis by (simp add: output_typed_def handleHealth_def route_type_def)
qed

definition routes :: "string list" where
  "routes = [''/internal/vote/start'', ''/internal/vote/stop'', ''/internal/vote/clear'', ''/internal/vote/clear_all'',
     ''/system/vote'', ''/system/vote/voted'', ''/system/vote/health'']"

lemma serve_typed:
  "req_Path r \<noteq> ''/internal/vote/live_votes'' \<Longrightarrow>
   (if req_Path r \<in> set routes then response_typed (req_Path r) (fst (serve S auth c r s))
    else resp_Status (fst (serve S auth c r s)) = 404 \<and> snd (serve S auth c r s) = s)"
  by (auto simp: routes_def serve_def registerHandlers_def handleInternal_def handleExternal_def
      intro!: resolve_typed handlers_typed handleStop_typed handleVoted_typed handleHealth_typed)

end
