(* ===== verification/Live_Stream.thy ===== *)
theory Live_Stream
  imports Http_Bodies
begin

text \<open>
  The stream \<^verbatim>\<open>/internal/vote/live_votes\<close> (\<^verbatim>\<open>handleAllVotedIDs\<close> of \<^verbatim>\<open>vote/http/http.go\<close>): at every tick it asks the
  service for all live votes and sends what has changed since the last tick. The ticks are the
  argument: for each the map that \<^verbatim>\<open>AllLiveVotes\<close> returned, and the orders in which the maps are
  visited. \<open>None\<close> is a panic; the handler returns when there is no further tick.

  A client that reads the texts of the stream one after the other sees exactly the live votes of the
  last tick, as long as polls only grow between the ticks.
\<close>

type_synonym live_map = "int \<rightharpoonup> (int \<rightharpoonup> string option) option"

record tick =
  tick_votes :: live_map
  tick_polls :: "int list"            \<comment> \<open>order of the polls of this tick\<close>
  tick_users :: "int \<Rightarrow> int list"     \<comment> \<open>order of the users of a poll\<close>
  tick_memory :: "int list"           \<comment> \<open>order of the remembered polls\<close>

text \<open>The loop over the users of a poll that is already known.\<close>

fun add_users :: "(int \<rightharpoonup> string option) \<Rightarrow> int list \<Rightarrow> (int \<rightharpoonup> string option) option \<Rightarrow> (int \<rightharpoonup> string option) option
    \<Rightarrow> ((int \<rightharpoonup> string option) option \<times> (int \<rightharpoonup> string option) option) option" where
  "add_users userID2Vote [] memory diff = Some (memory, diff)"
| "add_users userID2Vote (newUserID # us) memory diff =
     (case userID2Vote newUserID of
        None \<Rightarrow> add_users userID2Vote us memory diff
      | Some vote \<Rightarrow>
          if deref memory newUserID \<noteq> None then add_users userID2Vote us memory diff
          else (case memory of
                  None \<Rightarrow> None
                | Some m \<Rightarrow> add_users userID2Vote us (Some (m(newUserID \<mapsto> vote)))
                             (Some ((deref diff)(newUserID \<mapsto> vote)))))"

text \<open>The loop over the polls of this tick.\<close>

fun add_polls :: "live_map \<Rightarrow> (int \<Rightarrow> int list) \<Rightarrow> int list \<Rightarrow> live_map \<Rightarrow> live_map \<Rightarrow> (live_map \<times> live_map) option" where
  "add_polls new us [] memory diff = Some (memory, diff)"
| "add_polls new us (pid # ps) memory diff =
     (case new pid of
        None \<Rightarrow> add_polls new us ps memory diff
      | Some userID2Vote \<Rightarrow>
        (case memory pid of
           None \<Rightarrow> add_polls new us ps (memory(pid \<mapsto> userID2Vote)) (diff(pid \<mapsto> userID2Vote))
         | Some old \<Rightarrow>
           (case add_users (deref userID2Vote) (us pid) old None of
              None \<Rightarrow> None
            | Some (old', d) \<Rightarrow>
                add_polls new us ps (memory(pid \<mapsto> old'))
                  (case d of None \<Rightarrow> diff | Some x \<Rightarrow> diff(pid \<mapsto> Some x)))))"

text \<open>The loop over the remembered polls: those that are gone are announced by a null.\<close>

fun drop_polls :: "live_map \<Rightarrow> int list \<Rightarrow> live_map \<Rightarrow> live_map \<Rightarrow> live_map \<times> live_map" where
  "drop_polls new [] memory diff = (memory, diff)"
| "drop_polls new (pid # ps) memory diff =
     (if new pid = None then drop_polls new ps (memory(pid := None)) (diff(pid \<mapsto> None))
      else drop_polls new ps memory diff)"

definition stream_step :: "tick \<Rightarrow> live_map option \<Rightarrow> (live_map \<times> live_map) option" where
  "stream_step t voterMemory =
     (case voterMemory of
        None \<Rightarrow> Some (tick_votes t, tick_votes t)
      | Some memory \<Rightarrow>
        (case add_polls (tick_votes t) (tick_users t) (tick_polls t) memory Map.empty of
           None \<Rightarrow> None
         | Some (memory', diff) \<Rightarrow> Some (drop_polls (tick_votes t) (tick_memory t) memory' diff)))"

text \<open>The text of a message; the keys are sorted by their text.\<close>

definition vote_json :: "string option \<Rightarrow> string" where
  "vote_json v = (case v of None \<Rightarrow> ''null'' | Some t \<Rightarrow> string_Marshal t)"

definition poll_json :: "(int \<rightharpoonup> string option) option \<Rightarrow> int list \<Rightarrow> string" where
  "poll_json m us =
     (case m of None \<Rightarrow> ''null''
      | Some uv \<Rightarrow> json_object (List.map_filter (\<lambda>u. map_option (\<lambda>v. (Itoa u, vote_json v)) (uv u)) (sorted_keys us)))"

definition live_body :: "live_map \<Rightarrow> int list \<Rightarrow> (int \<Rightarrow> int list) \<Rightarrow> string" where
  "live_body m ps us =
     json_object (List.map_filter (\<lambda>p. map_option (\<lambda>uv. (Itoa p, poll_json uv (us p))) (m p)) (sorted_keys ps)) @ newline"

definition tick_keys :: "tick \<Rightarrow> int list" where
  "tick_keys t = remdups (tick_polls t @ tick_memory t)"

text \<open>The texts that are written to the connection, one for every \<^verbatim>\<open>Encode\<close>.\<close>

fun handleAllVotedIDs :: "tick list \<Rightarrow> live_map option \<Rightarrow> bool \<Rightarrow> string list option" where
  "handleAllVotedIDs [] voterMemory firstData = Some []"
| "handleAllVotedIDs (t # ts) voterMemory firstData =
     (case stream_step t voterMemory of
        None \<Rightarrow> None
      | Some (memory, diff) \<Rightarrow>
          if firstData \<or> list_ex (\<lambda>p. diff p \<noteq> None) (tick_keys t)
          then map_option (Cons (live_body diff (tick_keys t) (tick_users t))) (handleAllVotedIDs ts (Some memory) False)
          else handleAllVotedIDs ts (Some memory) firstData)"

text \<open>
  A client: it reads a text as \<^verbatim>\<open>map[int]map[int]*string\<close>; a null removes the poll, a map adds its users.
  \<open>None\<close> is a text that it cannot read.
\<close>

fun read_vote :: "json \<Rightarrow> string option option" where
  "read_vote JNull = Some None"
| "read_vote (JString l) = Some (Some (unquote l))"
| "read_vote j = None"

definition read_message :: "string \<Rightarrow> live_map option" where
  "read_message s =
     (case json_text s of
        None \<Rightarrow> None
      | Some j \<Rightarrow> map_option deref (unmarshal_map (\<lambda>j'. unmarshal_map read_vote j' None) j None))"

definition client_apply :: "live_map \<Rightarrow> live_map \<Rightarrow> live_map" where
  "client_apply c msg p =
     (case msg p of
        None \<Rightarrow> c p
      | Some None \<Rightarrow> None
      | Some (Some d) \<Rightarrow> Some (Some (sub_map c p ++ d)))"

fun client_stream :: "live_map \<Rightarrow> string list \<Rightarrow> live_map option" where
  "client_stream c [] = Some c"
| "client_stream c (s # ss) = (case read_message s of None \<Rightarrow> None | Some msg \<Rightarrow> client_stream (client_apply c msg) ss)"

text \<open>What can go through JSON: 64-bit keys and texts in UTF-8.\<close>

definition poll_wire_ok :: "(int \<rightharpoonup> string option) option \<Rightarrow> bool" where
  "poll_wire_ok uv \<longleftrightarrow> (\<forall>u v. deref uv u = Some v \<longrightarrow> in_int64 u \<and> (\<forall>x. v = Some x \<longrightarrow> valid_utf8 x))"

definition wire_ok :: "live_map \<Rightarrow> bool" where
  "wire_ok m \<longleftrightarrow> (\<forall>p uv. m p = Some uv \<longrightarrow> in_int64 p \<and> poll_wire_ok uv)"

definition grows :: "live_map \<Rightarrow> live_map \<Rightarrow> bool" where
  "grows old new \<longleftrightarrow> (\<forall>p uv uv'. old p = Some (Some uv) \<longrightarrow> new p = Some (Some uv') \<longrightarrow> uv \<subseteq>\<^sub>m uv')"

definition tick_ok :: "live_map \<Rightarrow> tick \<Rightarrow> bool" where
  "tick_ok old t \<longleftrightarrow> None \<notin> ran (tick_votes t) \<and> wire_ok (tick_votes t) \<and> is_order (tick_polls t) (tick_votes t) \<and>
     (\<forall>p. is_order (tick_users t p) (sub_map (tick_votes t) p)) \<and>
     set (tick_memory t) = dom old \<union> dom (tick_votes t) \<and> grows old (tick_votes t)"

fun ticks_ok :: "live_map \<Rightarrow> tick list \<Rightarrow> bool" where
  "ticks_ok old [] = True"
| "ticks_ok old (t # ts) = (tick_ok old t \<and> ticks_ok (tick_votes t) ts)"

subsection \<open>Reading a message\<close>

definition vote_value :: "string option \<Rightarrow> json" where
  "vote_value v = (case v of None \<Rightarrow> JNull | Some t \<Rightarrow> JString (escape_string t))"

definition poll_value :: "(int \<rightharpoonup> string option) option \<Rightarrow> int list \<Rightarrow> json" where
  "poll_value m us = (case m of None \<Rightarrow> JNull | Some uv \<Rightarrow> JObject (int_members (\<lambda>_. vote_value) uv (sorted_keys us)))"

lemma int_object: "json_object (int_members (\<lambda>k v. json_print (g k v)) m ks) = json_print (JObject (int_members g m ks))"
proof -
  have "int_members (\<lambda>k v. json_print (g k v)) m ks = map (map_prod id json_print) (int_members g m ks)"
    by (auto simp: int_members_def List.map_filter_def)
  moreover have "map (map_prod escape_string id) (int_members g m ks) = int_members g m ks"
    by (auto simp: int_members_def List.map_filter_def escape_Itoa)
  ultimately show ?thesis using json_object_print [of "int_members g m ks"] by simp
qed

text \<open>The text of a message is the printed form of a JSON object.\<close>

lemma vote_json_print: "vote_json v = json_print (vote_value v)" "json_ok (vote_value v)"
  by (auto simp: vote_json_def vote_value_def string_Marshal_def escape_string_lit split: option.split)

lemma int_members_ok: "(\<And>k v. json_ok (g k v)) \<Longrightarrow> json_ok (JObject (int_members g m ks))"
proof -
  assume "\<And>k v. json_ok (g k v)"
  moreover have "lit_ok (Itoa k)" for k using escape_string_lit(1) [of "Itoa k"] by (simp add: escape_Itoa)
  ultimately show ?thesis by (auto simp: json_ok_members_iff int_members_def List.map_filter_def)
qed

lemma poll_json_print: "poll_json m us = json_print (poll_value m us)" "json_ok (poll_value m us)"
proof -
  show "poll_json m us = json_print (poll_value m us)"
    using int_object [of "\<lambda>_. vote_value"]
    by (auto simp: poll_json_def poll_value_def vote_json_print int_members_def simp del: json_print.simps(6) split: option.split)
  show "json_ok (poll_value m us)"
    using int_members_ok [OF vote_json_print(2)] by (auto simp: poll_value_def simp del: json_ok.simps(6) split: option.split)
qed

lemma live_body_text:
  "json_text (live_body m ps us) = Some (JObject (int_members (\<lambda>p uv. poll_value uv (us p)) m (sorted_keys ps)))"
proof -
  let ?j = "JObject (int_members (\<lambda>p uv. poll_value uv (us p)) m (sorted_keys ps))"
  have "live_body m ps us = json_print ?j @ newline"
    using int_object [of "\<lambda>p uv. poll_value uv (us p)" m "sorted_keys ps"]
    by (simp add: live_body_def poll_json_print int_members_def del: json_print.simps(6))
  moreover have "json_text (json_print ?j @ newline) = Some ?j"
    by (intro json_text_object int_members_ok poll_json_print) (simp add: skip_ws_def is_ws_def)
  ultimately show ?thesis by (simp only:)
qed

lemma set_sorted_keys [simp]: "set (sorted_keys ks) = set ks"
  by (simp add: sorted_keys_def)

lemma read_vote_value: "(\<And>x. v = Some x \<Longrightarrow> valid_utf8 x) \<Longrightarrow> read_vote (vote_value v) = Some v"
  by (cases v) (simp_all add: vote_value_def unquote_escape_string)

lemma read_poll_value:
  assumes "poll_wire_ok uv" "dom (deref uv) \<subseteq> set us"
  shows "unmarshal_map read_vote (poll_value uv us) None = Some uv"
proof (cases uv)
  case (Some m)
  with assms have "in_int64 u \<and> read_vote (vote_value v) = Some v" if "m u = Some v" for u v
    using that read_vote_value [of v] by (simp add: poll_wire_ok_def)
  then show ?thesis using unmarshal_int_map [of m read_vote "\<lambda>_. vote_value" "sorted_keys us"] assms(2) Some
    by (simp add: poll_value_def del: unmarshal_map.simps)
qed (simp add: poll_value_def)

text \<open>A client reads the message that was sent.\<close>

lemma read_live_body:
  assumes "wire_ok m" "dom m \<subseteq> set ps" "\<And>p uv. m p = Some uv \<Longrightarrow> dom (deref uv) \<subseteq> set (us p)"
  shows "read_message (live_body m ps us) = Some m"
proof -
  let ?read = "\<lambda>j. unmarshal_map read_vote j None"
  have "in_int64 p \<and> ?read (poll_value uv (us p)) = Some uv" if "m p = Some uv" for p uv
    using that assms read_poll_value [of uv "us p"] by (auto simp: wire_ok_def)
  then have "unmarshal_map ?read (JObject (int_members (\<lambda>p uv. poll_value uv (us p)) m (sorted_keys ps))) None = Some (Some m)"
    using assms(2) by (intro unmarshal_int_map) simp_all
  then show ?thesis by (simp add: read_message_def live_body_text del: unmarshal_map.simps)
qed

subsection \<open>One step\<close>

text \<open>Adding the users of \<open>S\<close> that are not yet known, from \<open>new\<close>.\<close>

definition fill :: "('k \<rightharpoonup> 'v) \<Rightarrow> ('k \<rightharpoonup> 'v) \<Rightarrow> 'k set \<Rightarrow> ('k \<rightharpoonup> 'v) \<Rightarrow> ('k \<rightharpoonup> 'v)" where
  "fill m new S base k = (if k \<in> S \<and> m k = None then new k else base k)"

lemma fill_insert_known: "m u \<noteq> None \<Longrightarrow> fill m new (insert u S) base = fill m new S base"
  by (auto simp: fill_def fun_eq_iff)

lemma fill_insert_new:
  "m u = None \<Longrightarrow> u \<notin> S \<Longrightarrow> new u = Some v \<Longrightarrow>
   fill m new (insert u S) base = fill (m(u \<mapsto> v)) new S (base(u \<mapsto> v))"
  by (auto simp: fill_def fun_eq_iff)

lemma fill_empty [simp]: "fill m new {} base = base"
  by (auto simp: fill_def fun_eq_iff)

lemma add_users_eq:
  assumes "set us \<subseteq> dom new" "distinct us"
  shows "add_users new us (Some m) d =
    Some (Some (fill m new (set us) m), if set us \<subseteq> dom m then d else Some (fill m new (set us) (deref d)))"
  using assms
proof (induction us arbitrary: m d)
  case Nil
  then show ?case by simp
next
  case (Cons u us)
  then obtain v where v: "new u = Some v" by auto
  show ?case
  proof (cases "m u")
    case None
    have "fill (m(u \<mapsto> v)) new (set us) ((deref d)(u \<mapsto> v)) = (deref d)(u \<mapsto> v)" if "set us \<subseteq> dom (m(u \<mapsto> v))"
      using that Cons.prems(2) by (auto simp: fill_def fun_eq_iff split: if_splits)
    with Cons v None show ?thesis
      by (auto simp: fill_insert_new domIff)
  next
    case (Some x)
    with Cons v show ?thesis by (auto simp: fill_insert_known)
  qed
qed

text \<open>A poll that grows: memory becomes the new votes, and the difference leads there.\<close>

lemma add_users_grows:
  assumes "is_order us new" "m \<subseteq>\<^sub>m new"
  shows "\<exists>d. add_users new us (Some m) None = Some (Some new, d) \<and>
    (case d of None \<Rightarrow> m = new | Some x \<Rightarrow> m ++ x = new)"
proof -
  have us: "set us = dom new" "distinct us" using is_orderD [OF assms(1)] by auto
  have le: "m k = Some a \<Longrightarrow> new k = Some a" for k a using assms(2) by (metis domI map_le_def)
  have 1: "fill m new (set us) m = new"
    using assms(2) us by (fastforce simp: fill_def fun_eq_iff map_le_def)
  have 2: "m = new" if "set us \<subseteq> dom m" using that us assms(2) by (metis map_le_antisym map_le_def domD domIff subset_iff)
  have 3: "m ++ fill m new (set us) Map.empty = new"
  proof
    fix k
    show "(m ++ fill m new (set us) Map.empty) k = new k"
      using le [of k] us by (cases "m k"; cases "new k") (auto simp: fill_def map_add_def domIff)
  qed
  from add_users_eq [of us new m None] us 1 2 3 show ?thesis by (auto split: option.splits)
qed

definition no_nil :: "live_map \<Rightarrow> bool" where
  "no_nil m \<longleftrightarrow> None \<notin> ran m"

lemma no_nilD: "no_nil m \<Longrightarrow> m p = Some x \<Longrightarrow> \<exists>uv. x = Some uv"
  by (cases x) (auto simp: no_nil_def ran_def)

lemma client_apply_upd [simp]:
  "q \<noteq> p \<Longrightarrow> client_apply (c(p := x)) msg q = client_apply c msg q"
  "q \<noteq> p \<Longrightarrow> client_apply c (msg(p := x)) q = client_apply c msg q"
  by (auto simp: client_apply_def sub_map_def split: option.split)

lemma client_apply_at:
  "msg p = None \<Longrightarrow> client_apply c msg p = c p"
  "msg p = Some None \<Longrightarrow> client_apply c msg p = None"
  "msg p = Some (Some d) \<Longrightarrow> client_apply c msg p = Some (Some (sub_map c p ++ d))"
  by (simp_all add: client_apply_def)

lemma add_polls_grows:
  assumes "distinct ps" "no_nil new" "\<And>p. is_order (us p) (sub_map new p)"
    and "\<And>p. p \<in> set ps \<Longrightarrow> mem p \<noteq> Some None" "\<And>p uv uv'. p \<in> set ps \<Longrightarrow> mem p = Some (Some uv) \<Longrightarrow> new p = Some (Some uv') \<Longrightarrow> uv \<subseteq>\<^sub>m uv'"
    and "\<And>p. p \<in> set ps \<Longrightarrow> new p \<noteq> None \<and> diff p = None"
  shows "\<exists>mem' diff'. add_polls new us ps mem diff = Some (mem', diff') \<and>
    (\<forall>p. mem' p = (if p \<in> set ps then new p else mem p)) \<and>
    (\<forall>p. if p \<in> set ps then client_apply mem diff' p = new p else diff' p = diff p)"
  using assms
proof (induction ps arbitrary: mem diff)
  case Nil
  then show ?case by simp
next
  case (Cons p ps)
  from Cons.prems(6) [of p] obtain x where "new p = Some x" by auto
  with no_nilD [OF Cons.prems(2)] obtain uv where uv: "new p = Some (Some uv)" by blast
  then have ord: "is_order (us p) uv" using Cons.prems(3) [of p] by simp
  have dp: "diff p = None" "p \<notin> set ps" using Cons.prems(1,6) by auto
  show ?case
  proof (cases "mem p")
    case None
    from Cons.IH [of "mem(p \<mapsto> Some uv)" "diff(p \<mapsto> Some uv)"] Cons.prems dp
    obtain mem' diff' where IH: "add_polls new us ps (mem(p \<mapsto> Some uv)) (diff(p \<mapsto> Some uv)) = Some (mem', diff')"
      "\<And>q. mem' q = (if q \<in> set ps then new q else (mem(p \<mapsto> Some uv)) q)"
      "\<And>q. if q \<in> set ps then client_apply (mem(p \<mapsto> Some uv)) diff' q = new q else diff' q = (diff(p \<mapsto> Some uv)) q"
      by (fastforce split: if_splits)
    have "if q \<in> set (p # ps) then client_apply mem diff' q = new q else diff' q = diff q" for q
      using IH(3) [of q] dp None uv by (cases "q = p") (auto simp: client_apply_at sub_map_def split: if_splits)
    with IH(1,2) None uv show ?thesis by auto
  next
    case (Some y)
    with Cons.prems(4) [of p] obtain m where m: "mem p = Some (Some m)" by (cases y) auto
    with Cons.prems(5) uv have "m \<subseteq>\<^sub>m uv" by auto
    from add_users_grows [OF ord this] obtain d where
      d: "add_users uv (us p) (Some m) None = Some (Some uv, d)" "case d of None \<Rightarrow> m = uv | Some x \<Rightarrow> m ++ x = uv" by blast
    let ?diff = "case d of None \<Rightarrow> diff | Some x \<Rightarrow> diff(p \<mapsto> Some x)"
    have "q \<in> set ps \<Longrightarrow> ?diff q = None" for q using Cons.prems(6) [of q] dp by (auto split: option.split)
    with Cons.IH [of "mem(p \<mapsto> Some uv)" ?diff] Cons.prems dp
    obtain mem' diff' where IH: "add_polls new us ps (mem(p \<mapsto> Some uv)) ?diff = Some (mem', diff')"
      "\<And>q. mem' q = (if q \<in> set ps then new q else (mem(p \<mapsto> Some uv)) q)"
      "\<And>q. if q \<in> set ps then client_apply (mem(p \<mapsto> Some uv)) diff' q = new q else diff' q = ?diff q"
      by (fastforce split: if_splits)
    have "if q \<in> set (p # ps) then client_apply mem diff' q = new q else diff' q = diff q" for q
      using IH(3) [of q] dp m uv d(2) by (cases "q = p"; cases d) (auto simp: client_apply_at split: if_splits)
    with IH(1,2) d(1) m uv show ?thesis by auto
  qed
qed

lemma drop_polls_eq:
  "drop_polls new ms mem diff =
     (\<lambda>p. if p \<in> set ms \<and> new p = None then None else mem p,
      \<lambda>p. if p \<in> set ms \<and> new p = None then Some None else diff p)"
proof (induction ms arbitrary: mem diff)
  case (Cons p ms)
  then show ?case by (cases "new p") (auto intro!: ext)
qed simp

lemma stream_step_grows:
  assumes "no_nil old" "tick_ok old t"
  shows "\<exists>diff. stream_step t (Some old) = Some (tick_votes t, diff) \<and> client_apply old diff = tick_votes t \<and>
    dom diff \<subseteq> set (tick_keys t)"
proof -
  let ?new = "tick_votes t"
  from assms(2) have t: "no_nil ?new" "distinct (tick_polls t)" "set (tick_polls t) = dom ?new"
    "\<And>p. is_order (tick_users t p) (sub_map ?new p)" "set (tick_memory t) = dom old \<union> dom ?new" "grows old ?new"
    by (auto simp: tick_ok_def no_nil_def is_order_def)
  have n: "old p \<noteq> Some None" for p using no_nilD [OF assms(1), of p None] by auto
  have g: "uv \<subseteq>\<^sub>m uv'" if "old p = Some (Some uv)" "?new p = Some (Some uv')" for p uv uv'
    using t(6) that unfolding grows_def by blast
  have e: "?new p \<noteq> None \<and> (Map.empty :: live_map) p = None" if "p \<in> set (tick_polls t)" for p using that t(3) by auto
  have "\<exists>mem' diff'. add_polls ?new (tick_users t) (tick_polls t) old Map.empty = Some (mem', diff') \<and>
    (\<forall>p. mem' p = (if p \<in> set (tick_polls t) then ?new p else old p)) \<and>
    (\<forall>p. if p \<in> set (tick_polls t) then client_apply old diff' p = ?new p else diff' p = Map.empty p)"
    by (rule add_polls_grows [OF t(2,1,4)]) (rule n | erule (1) g | erule e)+
  then obtain mem' diff' where a: "add_polls ?new (tick_users t) (tick_polls t) old Map.empty = Some (mem', diff')"
    "\<And>p. mem' p = (if p \<in> set (tick_polls t) then ?new p else old p)"
    "\<And>p. if p \<in> set (tick_polls t) then client_apply old diff' p = ?new p else diff' p = None"
    by blast
  define mem'' where "mem'' = (\<lambda>p. if p \<in> set (tick_memory t) \<and> ?new p = None then None else mem' p)"
  define diff where "diff = (\<lambda>p. if p \<in> set (tick_memory t) \<and> ?new p = None then Some None else diff' p)"
  have step: "stream_step t (Some old) = Some (mem'', diff)"
    using a(1) by (simp add: stream_step_def drop_polls_eq mem''_def diff_def)
  have "mem'' p = ?new p \<and> client_apply old diff p = ?new p \<and> (diff p \<noteq> None \<longrightarrow> p \<in> set (tick_polls t @ tick_memory t))" for p
  proof (cases "?new p")
    case None
    then have "p \<notin> set (tick_polls t)" using t(3) by (simp add: domIff)
    with None a(2,3) [of p] t(5) show ?thesis
      by (auto simp: mem''_def diff_def client_apply_def split: if_splits)
  next
    case (Some x)
    then have "p \<in> set (tick_polls t)" using t(3) by (simp add: domIff)
    with Some a(2,3) [of p] show ?thesis by (simp add: mem''_def diff_def client_apply_def sub_map_def)
  qed
  then have "mem'' = ?new" "client_apply old diff = ?new" "dom diff \<subseteq> set (tick_keys t)"
    by (auto simp: fun_eq_iff dom_def tick_keys_def)
  with step show ?thesis by blast
qed

lemma client_apply_empty: "(\<And>p. msg p = None) \<Longrightarrow> client_apply c msg = c"
  by (simp add: fun_eq_iff client_apply_def)

text \<open>A difference that leads from what went through JSON to what can go through can go through itself.\<close>

lemma diff_wire_ok:
  assumes "client_apply old diff = new" "wire_ok new" "\<And>p. p \<in> dom diff \<Longrightarrow> in_int64 p"
  shows "wire_ok diff"
proof -
  have "poll_wire_ok uv" if d: "diff p = Some uv" for p uv
  proof (cases uv)
    case (Some x)
    with d client_apply_at(3) [of diff p x old] assms(1) have "new p = Some (Some (sub_map old p ++ x))" by simp
    with assms(2) have "poll_wire_ok (Some (sub_map old p ++ x))" by (auto simp: wire_ok_def)
    with Some show ?thesis unfolding poll_wire_ok_def by (metis deref_simps(2) map_add_find_right)
  qed (simp add: poll_wire_ok_def)
  with assms(3) show ?thesis by (auto simp: wire_ok_def)
qed

lemma read_diff:
  assumes "client_apply old diff = tick_votes t" "dom diff \<subseteq> set (tick_keys t)" "wire_ok old" "tick_ok old t"
  shows "read_message (live_body diff (tick_keys t) (tick_users t)) = Some diff"
proof (rule read_live_body)
  have t: "wire_ok (tick_votes t)" "set (tick_keys t) = dom old \<union> dom (tick_votes t)"
    "\<And>p. is_order (tick_users t p) (sub_map (tick_votes t) p)"
    using assms(4) by (auto simp: tick_ok_def tick_keys_def is_order_def)
  show "wire_ok diff"
    by (rule diff_wire_ok [OF assms(1) t(1)]) (use assms(2,3) t in \<open>auto simp: wire_ok_def\<close>)
  show "dom diff \<subseteq> set (tick_keys t)" by (rule assms(2))
  fix p uv
  assume d: "diff p = Some uv"
  show "dom (deref uv) \<subseteq> set (tick_users t p)"
  proof (cases uv)
    case (Some x)
    with d client_apply_at(3) [of diff p x old] assms(1) have "tick_votes t p = Some (Some (sub_map old p ++ x))" by simp
    with t(3) [of p] Some show ?thesis by (auto simp: is_order_def)
  qed simp
qed

lemma stream_grows:
  assumes "no_nil old" "wire_ok old" "ticks_ok old ts"
  shows "\<exists>texts. handleAllVotedIDs ts (Some old) False = Some texts \<and>
    client_stream old texts = Some (if ts = [] then old else tick_votes (last ts))"
  using assms
proof (induction ts arbitrary: old)
  case Nil
  then show ?case by simp
next
  case (Cons t ts)
  then have ok: "tick_ok old t" "ticks_ok (tick_votes t) ts" "no_nil (tick_votes t)" "wire_ok (tick_votes t)"
    by (auto simp: tick_ok_def no_nil_def)
  from stream_step_grows [OF Cons.prems(1) ok(1)] obtain diff where
    d: "stream_step t (Some old) = Some (tick_votes t, diff)" "client_apply old diff = tick_votes t"
      "dom diff \<subseteq> set (tick_keys t)" by blast
  from Cons.IH [OF ok(3,4,2)] obtain texts where
    m: "handleAllVotedIDs ts (Some (tick_votes t)) False = Some texts"
      "client_stream (tick_votes t) texts = Some (if ts = [] then tick_votes t else tick_votes (last ts))" by blast
  show ?case
  proof (cases "list_ex (\<lambda>p. diff p \<noteq> None) (tick_keys t)")
    case True
    with d m read_diff [OF d(2,3) Cons.prems(2) ok(1)] show ?thesis by simp
  next
    case False
    with d(3) have "diff p = None" for p unfolding list_ex_iff by (metis domI not_Some_eq subset_iff)
    with client_apply_empty [of diff old] d(2) have "tick_votes t = old" by simp
    with False d(1) m show ?thesis by simp
  qed
qed

text \<open>
  C25. A client of the stream that decodes every text as JSON and applies it, a null removing a poll and
  a map adding its users, holds exactly the live votes of the last tick: it can read all texts, and
  nothing is lost in the escapes of the votes or in the keys. The assumption is what the comment of the
  handler says, that between two ticks the votes of a poll only grow; further, no poll is a nil map,
  and the votes are valid UTF-8. The orders in which the maps are visited do not matter, and the stream does
  not panic.
\<close>
theorem live_stream_reconstructs:
  assumes "ts \<noteq> []" "ticks_ok Map.empty ts"
  shows "\<exists>texts. handleAllVotedIDs ts None True = Some texts \<and>
    client_stream Map.empty texts = Some (tick_votes (last ts))"
proof (cases ts)
  case (Cons t ts')
  with assms have ok: "tick_ok Map.empty t" "ticks_ok (tick_votes t) ts'" "no_nil (tick_votes t)" "wire_ok (tick_votes t)"
    by (auto simp: tick_ok_def no_nil_def)
  have first: "client_apply Map.empty (tick_votes t) p = tick_votes t p" for p
    using no_nilD [OF ok(3), of p] by (cases "tick_votes t p") (auto simp: client_apply_def)
  then have a: "client_apply Map.empty (tick_votes t) = tick_votes t" by (rule ext)
  have "dom (tick_votes t) \<subseteq> set (tick_keys t)" using ok(1) by (auto simp: tick_ok_def tick_keys_def)
  from read_diff [OF a this _ ok(1)] have "read_message (live_body (tick_votes t) (tick_keys t) (tick_users t)) = Some (tick_votes t)"
    by (simp add: wire_ok_def)
  with stream_grows [OF ok(3,4,2)] Cons a show ?thesis by (auto simp: stream_step_def)
qed (use assms in simp)

definition demo_ticks :: "tick list" where
  "demo_ticks =
     [\<lparr>tick_votes = [1 \<mapsto> Some [5 \<mapsto> Some ''Y'']], tick_polls = [1], tick_users = (\<lambda>p. if p = 1 then [5] else []), tick_memory = [1]\<rparr>,
      \<lparr>tick_votes = [1 \<mapsto> Some [5 \<mapsto> Some ''Y'', 6 \<mapsto> Some ''N'']], tick_polls = [1],
       tick_users = (\<lambda>p. if p = 1 then [6, 5] else []), tick_memory = [1]\<rparr>]"

theorem live_stream_reconstructs_witness:
  "\<exists>texts. handleAllVotedIDs demo_ticks None True = Some texts \<and>
    client_stream Map.empty texts = Some [1 \<mapsto> Some [5 \<mapsto> Some ''Y'', 6 \<mapsto> Some ''N'']]"
proof -
  have "valid_utf8 ''Y''" "valid_utf8 ''N''" by (simp_all add: rune_length_def byte_in_def)
  then have "ticks_ok Map.empty demo_ticks"
    by (auto simp: demo_ticks_def tick_ok_def is_order_def sub_map_def grows_def map_le_def wire_ok_def poll_wire_ok_def in_int64_def split: if_splits)
  from live_stream_reconstructs [OF _ this] show ?thesis by (simp add: demo_ticks_def)
qed

text \<open>The texts of the two messages of this stream.\<close>

lemma demo_stream_texts:
  "handleAllVotedIDs demo_ticks None True =
     Some [''{\"1\":{\"5\":\"Y\"}}'' @ newline, ''{\"1\":{\"6\":\"N\"}}'' @ newline]"
  by code_simp

text \<open>
  Without growth the client goes wrong for good. When a poll is cleared and remains in the live
  votes as an empty map, the stream says nothing, and when the same user votes again, the new vote is
  not sent either: the client keeps the vote of the cleared poll.
\<close>
theorem live_stream_keeps_cleared_vote:
  "handleAllVotedIDs
     [\<lparr>tick_votes = [p \<mapsto> Some [u \<mapsto> Some x]], tick_polls = [p], tick_users = (\<lambda>_. [u]), tick_memory = [p]\<rparr>,
      \<lparr>tick_votes = [p \<mapsto> Some Map.empty], tick_polls = [p], tick_users = (\<lambda>_. []), tick_memory = [p]\<rparr>,
      \<lparr>tick_votes = [p \<mapsto> Some [u \<mapsto> Some y]], tick_polls = [p], tick_users = (\<lambda>_. [u]), tick_memory = [p]\<rparr>] None True
   = Some [live_body [p \<mapsto> Some [u \<mapsto> Some x]] [p] (\<lambda>_. [u])]"
  by (simp add: stream_step_def tick_keys_def)

text \<open>
  A poll that the service reports as a nil map is announced to the client as a null, as if it
  were not active, and the first vote that is reported for it afterwards makes the stream panic.
\<close>
theorem live_stream_nil_poll_panics:
  assumes "tick_votes t p = Some None" "tick_votes t' p = Some (Some uv)" "uv u \<noteq> None"
    and "is_order (tick_polls t') (tick_votes t')" "is_order (tick_users t' p) uv"
  shows "client_apply c (tick_votes t) p = None \<and> handleAllVotedIDs (t # t' # ts) None True = None"
proof
  show "client_apply c (tick_votes t) p = None" using assms(1) by (simp add: client_apply_def)
  have nil: "add_users uv us None d = None" if "u \<in> set us" for us d
    using that assms(3) by (induction us) (auto split: option.splits)
  have "add_polls (tick_votes t') (tick_users t') ps mem d = None" if "p \<in> set ps" "mem p = Some None" "distinct ps" for ps mem d
    using that
  proof (induction ps arbitrary: mem d)
    case (Cons q ps)
    show ?case
    proof (cases "q = p")
      case True
      have "u \<in> set (tick_users t' p)" using assms(3,5) by (auto simp: is_order_def)
      with True Cons.prems assms(2) nil [of "tick_users t' p" None] show ?thesis by simp
    next
      case False
      then show ?thesis using Cons by (auto split: option.splits)
    qed
  qed simp
  moreover have "p \<in> set (tick_polls t')" "distinct (tick_polls t')" using assms(2,4) by (auto simp: is_order_def)
  ultimately have "stream_step t' (Some (tick_votes t)) = None" using assms(1) by (simp add: stream_step_def)
  then show "handleAllVotedIDs (t # t' # ts) None True = None" by (simp add: stream_step_def [of t])
qed

theorem live_stream_nil_poll_panics_witness:
  "handleAllVotedIDs
     [\<lparr>tick_votes = [1 \<mapsto> None], tick_polls = [1], tick_users = (\<lambda>_. []), tick_memory = [1]\<rparr>,
      \<lparr>tick_votes = [1 \<mapsto> Some [5 \<mapsto> Some ''Y'']], tick_polls = [1], tick_users = (\<lambda>_. [5]), tick_memory = [1]\<rparr>] None True = None"
  using live_stream_nil_poll_panics
    [of "\<lparr>tick_votes = [1 \<mapsto> None], tick_polls = [1], tick_users = (\<lambda>_. []), tick_memory = [1]\<rparr>" 1
        "\<lparr>tick_votes = [1 \<mapsto> Some [5 \<mapsto> Some ''Y'']], tick_polls = [1], tick_users = (\<lambda>_. [5]), tick_memory = [1]\<rparr>"
        "[5 \<mapsto> Some ''Y'']" 5 Map.empty "[]"]
  by (simp add: is_order_def)

end
