(* ===== verification/Http_Types.thy ===== *)
theory Http_Types
  imports Live_Stream
begin

text \<open>
  The responses of all routes are well typed, the stream of live votes included. The stream is a
  sequence of texts on one connection; \<open>serve_stream\<close> is what the client has received when the connection
  ends after some ticks.
\<close>

definition stream_type :: jtype where
  "stream_type = TIntMap (TNullable (TIntMap (TNullable TString)))"

text \<open>The route \<^verbatim>\<open>/internal/vote/live_votes\<close>, with the ticks as argument; \<open>None\<close> is a panic of the handler.\<close>

definition serve_stream :: "tick list \<Rightarrow> 's \<Rightarrow> (response \<times> 's) option" where
  "serve_stream ts s =
     map_option (\<lambda>texts. handleInternal (\<lambda>s. ((None, concat texts), s)) s) (handleAllVotedIDs ts None True)"

definition serve_all :: "('s, 'c) voteService \<Rightarrow> (request \<Rightarrow> err + int) \<Rightarrow> 'c \<Rightarrow> tick list \<Rightarrow> request \<Rightarrow> 's \<Rightarrow> (response \<times> 's) option" where
  "serve_all S auth c ts r s =
     (if req_Path r = ''/internal/vote/live_votes'' then serve_stream ts s else Some (serve S auth c r s))"

text \<open>A response of the stream: messages of the type of the stream, one after the other.\<close>

definition stream_typed :: "response \<Rightarrow> bool" where
  "stream_typed resp \<longleftrightarrow> resp_Status resp = 200 \<and> resp_ContentType resp = ''application/json'' \<and>
     (\<exists>texts. resp_Body resp = concat texts \<and> list_all (\<lambda>t. body_has_type t stream_type) texts)"

lemma members_typed:
  assumes "\<And>k v. has_type (g k v) t"
  shows "has_type (JObject (int_members g m ks)) (TIntMap t)"
  using assms by (auto simp: int_members_def List.map_filter_def list_all_iff int_literal_Itoa simp del: has_type.simps(5))

lemma live_body_typed: "body_has_type (live_body m ps us) stream_type"
proof -
  have vote: "has_type (vote_value v) (TNullable TString)" for v by (cases v) (simp_all add: vote_value_def)
  have poll: "has_type (poll_value uv us) (TNullable (TIntMap (TNullable TString)))" for uv us
    using members_typed [of "\<lambda>_. vote_value", OF vote]
    by (cases uv) (simp_all add: poll_value_def del: has_type.simps(7))
  show ?thesis unfolding body_has_type_def live_body_text stream_type_def
    using members_typed [OF poll] by simp
qed

lemma stream_texts_typed:
  "handleAllVotedIDs ts memory first = Some texts \<Longrightarrow> list_all (\<lambda>t. body_has_type t stream_type) texts"
  by (induction ts memory first arbitrary: texts rule: handleAllVotedIDs.induct)
    (auto simp: live_body_typed split: option.splits if_splits)

lemma serve_stream_typed:
  assumes "serve_stream ts s = Some (resp, s')"
  shows "s' = s \<and> stream_typed resp"
  using assms stream_texts_typed
  by (auto simp: serve_stream_def handleInternal_def resolveError_def stream_typed_def)

text \<open>
  C26. The responses are well typed, for every service, every request and every error of the service or
  of the authentication. On the routes \<^verbatim>\<open>start\<close>, \<^verbatim>\<open>stop\<close>, \<^verbatim>\<open>clear\<close>, \<^verbatim>\<open>clear_all\<close>, \<^verbatim>\<open>vote\<close>, \<^verbatim>\<open>voted\<close> and \<^verbatim>\<open>health\<close> the
  content type is JSON, and the body is a single JSON value of the type of the route (stop: votes and
  user ids; voted: lists of ids by poll id; health), or empty with status 200, or an error object
  with the two strings \<^verbatim>\<open>error\<close> and \<^verbatim>\<open>message\<close>. On \<^verbatim>\<open>live_votes\<close> the handler panics or the body is a sequence
  of JSON objects, each a map from poll ids to null or a map from user ids to null or a text, for
  every sequence of ticks. Every other path is a 404 that changes nothing (the redirects of the router
  for paths that are not clean are not modelled).
\<close>
theorem responses_are_well_typed:
  "case serve_all S auth c ts r s of
     None \<Rightarrow> req_Path r = ''/internal/vote/live_votes'' \<and> handleAllVotedIDs ts None True = None
   | Some (resp, s') \<Rightarrow>
       if req_Path r \<in> set routes then response_typed (req_Path r) resp
       else if req_Path r = ''/internal/vote/live_votes'' then stream_typed resp \<and> s' = s
       else resp_Status resp = 404 \<and> s' = s"
proof (cases "req_Path r = ''/internal/vote/live_votes''")
  case True
  then have "serve_all S auth c ts r s = serve_stream ts s" "req_Path r \<notin> set routes"
    by (simp_all add: serve_all_def routes_def)
  with True serve_stream_typed [of ts s] show ?thesis by (auto simp: serve_stream_def split: option.splits)
next
  case False
  obtain resp s' where sv: "serve S auth c r s = (resp, s')" by fastforce
  from serve_typed [of r S auth c s] sv False show ?thesis by (auto simp: serve_all_def)
qed

end
