(* ===== verification/Stop_Response.thy ===== *)
theory Stop_Response
  imports Http_Properties Json_Roundtrip
begin

text \<open>
  The way of a vote from the request to the response of the stop request: the value of a ballot is well-formed
  JSON, so is the stored object, and the encoder of the stop handler copies it byte for byte.
\<close>

lemma ballot_fields_original:
  assumes "ballot_fields ms b = Inr b'" "json_ok_members ms" "\<forall>j. original (BallotValue b) = Some j \<longrightarrow> json_ok j"
  shows "\<forall>j. original (BallotValue b') = Some j \<longrightarrow> json_ok j"
  using assms
  by (induction ms b rule: ballot_fields.induct) (auto simp: Let_def UnmarshalJSON_original split: if_splits sum.splits)

lemma decode_ballot_original:
  assumes "decode_ballot body = Inr b" "original (BallotValue b) = Some j"
  shows "json_ok j"
proof -
  from assms(1) obtain j0 where j0: "Decoder_Decode body = Some j0" "ballot_Unmarshal j0 = Inr b"
    by (auto simp: decode_ballot_def split: option.splits)
  from j0(1) have ok: "json_ok j0" by (auto simp: Decoder_Decode_def simp del: parse_value.simps dest: parse_ok(1))
  show ?thesis
  proof (cases j0)
    case (JObject ms)
    with j0 ok ballot_fields_original [of ms zero_ballot b] assms(2) show ?thesis by (auto simp: zero_ballot_def)
  qed (use j0 assms(2) in \<open>auto simp: zero_ballot_def\<close>)
qed

text \<open>The stored object as a JSON value.\<close>

definition int_member :: "string \<Rightarrow> int \<Rightarrow> (string \<times> json) list" where
  "int_member name i = (if i = 0 then [] else [(name, JNumber (Itoa i))])"

definition voteData_json :: "voteData \<Rightarrow> json" where
  "voteData_json d = JObject
     (int_member ''request_user_id'' (vd_RequestUser d) @ int_member ''vote_user_id'' (vd_VoteUser d) @
      [(''value'', case vd_Value d of None \<Rightarrow> JNull | Some j \<Rightarrow> j), (''weight'', JString (escape_string (vd_Weight d)))])"

lemma lit_ok_names: "lit_ok ''request_user_id''" "lit_ok ''vote_user_id''" "lit_ok ''value''" "lit_ok ''weight''"
proof -
  have lit: "lit_ok s" if "scan_string (s @ [quote_char]) = Some (s, [])" for s
    using scan_string_ok [OF that] by simp
  show "lit_ok ''request_user_id''" "lit_ok ''vote_user_id''" "lit_ok ''value''" "lit_ok ''weight''"
    by (rule lit, code_simp)+
qed

lemma compact_names [simp]:
  "compact_escape ''request_user_id'' = ''request_user_id''" "compact_escape ''vote_user_id'' = ''vote_user_id''"
  "compact_escape ''value'' = ''value''" "compact_escape ''weight'' = ''weight''"
  by code_simp+

lemma voteData_json_ok: "\<forall>j. vd_Value d = Some j \<longrightarrow> json_ok j \<Longrightarrow> json_ok (voteData_json d)"
  by (auto simp: voteData_json_def int_member_def lit_ok_names num_ok_Itoa escape_string_lit split: option.split)

lemma voteData_Marshal_print:
  assumes "\<forall>j. vd_Value d = Some j \<longrightarrow> json_ok j"
  shows "voteData_Marshal d = compact_escape (json_print (voteData_json d))"
proof -
  have "RawMessage_Marshal (vd_Value d) = json_print (html_escape (case vd_Value d of None \<Rightarrow> JNull | Some j \<Rightarrow> j))"
    using assms by (auto simp: RawMessage_Marshal_def compact_print split: option.split)
  then show ?thesis
    unfolding compact_print(1) [OF voteData_json_ok [OF assms]]
    by (simp add: voteData_json_def int_member_def voteData_Marshal_def int_field_def string_Marshal_def escape_string_lit)
qed

lemma raw_encode_object:
  assumes "\<forall>j. vd_Value d = Some j \<longrightarrow> json_ok j"
  shows "raw_encode (voteData_Marshal d) = Some (voteData_Marshal d)"
  using raw_roundtrip [OF voteData_json_ok [OF assms]] unfolding voteData_Marshal_print [OF assms]
  by (simp add: raw_encode_def skip_ws_def del: parse_value.simps)

lemma vote_prepare_object:
  assumes "vote_prepare dec f ks p ru body = Inr (poll, vu, bs)"
  shows "raw_encode bs = Some bs"
proof (rule vote_prepare_Inr [OF assms])
  fix b assume "decode_ballot body = Inr b" "bs = stored_object dec f poll ru b"
  with decode_ballot_original [of body b] show ?thesis
    by (auto simp: stored_object_def vote_object_def Let_def intro!: raw_encode_object)
qed

lemma trace_objects:
  assumes "service_trace D ok okOF okOL v0 es v" "(u, obj) \<in> set (accepted p es)"
  shows "raw_encode obj = Some obj"
  using assms
  by (induction arbitrary: u obj rule: service_trace.induct) (auto split: if_splits dest: vote_prepare_object)

lemma raw_encode_all_id: "(\<And>obj. obj \<in> set objs \<Longrightarrow> raw_encode obj = Some obj) \<Longrightarrow> raw_encode_all objs = Some objs"
  by (induction objs) auto

context vote_service
begin

lemma Stop_unknown:
  assumes "sinv v" "okF p" "okL p" "okOF fc p (fastBackend v)" "okOL lc p (longBackend v)"
    and "ds_poll_err (ds D (flow v)) p = None" "cstate v p = None"
  shows "fst (vote_Stop D fc lc p v) = Inl (MessageError ErrNotExists (''Poll '' @ Itoa p @ '' does not exist in the backend''))"
proof -
  have load: "load_poll (ds D (flow v)) p = Inr (ds_poll (ds D (flow v)) p)" using assms(6) by simp
  obtain rb w where b: "backend (ds_poll (ds D (flow v)) p) (bStop (fast D) fc p) (bStop (long D) lc p) v = (rb, w)" by fastforce
  from backend_Stop_step [OF assms(1-5) config_load [OF load] b] assms(7)
  obtain e where "rb = Inl e" "err_as is_doesNotExistError e" by auto
  with load b show ?thesis by (simp add: vote_Stop_def)
qed

lemma trace_Stop_unknown:
  assumes tr: "trace v0 es v" "sinv v0" "cstate v0 = Map.empty" "live_ok (cstate v0) (liveVotes v0)"
    and ok: "okF p" "okL p" "okOF fc p (fastBackend v)" "okOL lc p (longBackend v)"
    and poll: "ds_poll_err (ds D (flow v)) p = None" and "\<not> started p es"
  shows "fst (vote_Stop D fc lc p v) = Inl (MessageError ErrNotExists (''Poll '' @ Itoa p @ '' does not exist in the backend''))"
proof -
  from trace_inv [OF tr] have inv: "sinv v"
    and "matches (cstate v p) (accepted p es) (started p es) (closed p es)" by auto
  with assms(10) have "cstate v p = None" by (auto simp: matches_def split: option.splits)
  from Stop_unknown [OF inv ok poll this] show ?thesis .
qed

end

lemma messageError_response:
  assumes "handler s = ((Some (MessageError t msg), []), s')" "t \<noteq> ErrInternal"
  shows "resolveError handler True s = (error_response 400 (TypeError_Type t) msg, s')"
proof -
  have "TypeError_Type t \<noteq> ''internal''" using assms(2) by (cases t) auto
  moreover have "\<not> is_context_done (MessageError t msg)" by (simp add: is_context_done_def MessageError_def)
  ultimately show ?thesis
    using resolve_error [of handler s "MessageError t msg" s' True, OF assms(1)]
    by (simp add: writeStatusCode_def writeFormattedError_def error_response_def Let_def err_find_def MessageError_def)
qed

text \<open>
  C8. The response of the stop request, after any history of requests that one instance has served one
  after the other on the production backends: for a poll that was started it is a 200 whose body holds the stored object of every accepted vote, byte for
  byte as it was stored, and the sorted ids of their users; the encoder never fails. For any other
  poll it is a 400 with the type \<^verbatim>\<open>not-exist\<close>.
\<close>
theorem http_stop_response:
  assumes prod: "production R kv X tables conflicts ctx_done D on_fast"
    and new: "ks_fresh (kv r0)" "tables d0 = Some empty_tables" "vote_New D r0 d0 w0 = Inr v0"
    and tr: "service_trace D (\<lambda>p. in_int64 p \<and> in_int32 p) (\<lambda>ks p r. ks_order ks p (kv r)) (\<lambda>_ _ _. True) v0 es v"
    and p: "in_int32 p" "ks_order (ch_fast c) p (kv (fastBackend v))" "ds_poll_err (ds D (flow v)) p = None"
    and req: "req_Path r = ''/internal/vote/stop''" "pollID r = Inr p"
  shows "if started p es
    then \<exists>objs. mset objs = mset (map snd (accepted p es)) \<and>
      fst (serve (service_of D) auth c r v) = ok_response (json_object [(''votes'', json_array objs),
        (''user_ids'', json_array (map Itoa (sort (map fst (accepted p es)))))] @ newline)
    else fst (serve (service_of D) auth c r v) =
      error_response 400 ''not-exist'' (''Poll '' @ Itoa p @ '' does not exist in the backend'')"
proof -
  note svc = production.service [OF prod] and fresh = production.fresh_start [OF prod new]
  obtain x v' where st: "vote_Stop D (ch_fast c) (ch_long c) p v = (x, v')" by fastforce
  have serve: "serve (service_of D) auth c r v = resolveError (handleStop (service_of D) c r) True v"
    using req(1) by (simp add: serve_def registerHandlers_def handleInternal_def)
  note stop = vote_service.trace_Stop [OF svc tr fresh in_int32_in_int64 [OF p(1)] p(1,2) _ p(3), of "ch_long c"]
  show ?thesis
  proof (cases "started p es")
    case True
    with stop st obtain objs where x: "x = Inr (objs, sort (map fst (accepted p es)))"
      and objs: "mset objs = mset (map snd (accepted p es))" by (auto split: sum.splits)
    have "raw_encode_all objs = Some objs"
      using trace_objects [OF tr] mset_eq_setD [OF objs] by (intro raw_encode_all_id) auto
    then have "handleStop (service_of D) c r v = ((None, json_object [(''votes'', json_array objs),
        (''user_ids'', json_array (map Itoa (sort (map fst (accepted p es)))))] @ newline), v')"
      using st x req(2) by (simp add: handleStop_def stop_body_def)
    from resolve_ok [of "handleStop (service_of D) c r", OF this] True objs serve show ?thesis by auto
  next
    case False
    with vote_service.trace_Stop_unknown [OF svc tr fresh in_int32_in_int64 [OF p(1)] p(1,2) _ p(3), of "ch_long c"] st
    have "x = Inl (MessageError ErrNotExists (''Poll '' @ Itoa p @ '' does not exist in the backend''))" by simp
    then have "handleStop (service_of D) c r v =
        ((Some (MessageError ErrNotExists (''Poll '' @ Itoa p @ '' does not exist in the backend'')), []), v')"
      using st req(2) by (simp add: handleStop_def)
    from messageError_response [of "handleStop (service_of D) c r", OF this] False serve show ?thesis by simp
  qed
qed

theorem http_stop_response_witness:
  "fst (serve (service_of demo_deps) demo_auth demo_choices
     \<lparr>req_Path = ''/internal/vote/stop'', req_RawQuery = ''id=1'', req_Body = []\<rparr> demo_v2) =
   ok_response (''{\"votes\":['' @ demo_object @ ''],\"user_ids\":[2]}'' @ newline)"
proof -
  let ?r = "\<lparr>req_Path = ''/internal/vote/stop'', req_RawQuery = ''id=1'', req_Body = []\<rparr>"
  have 1: "in_int32 1" by (simp add: in_int32_def)
  have h: "started 1 demo_history" "accepted 1 demo_history = [(2, demo_object)]"
    by (simp_all add: demo_history_def started_def accepted_def)
  have 3: "ds_poll_err (ds demo_deps (flow demo_v2)) 1 = None" by simp
  have 4: "pollID ?r = Inr 1" by code_simp
  have "mset objs = {#demo_object#} \<longleftrightarrow> objs = [demo_object]" for objs by (cases objs) auto
  moreover have "json_object [(''votes'', json_array [demo_object]), (''user_ids'', json_array [Itoa 2])] =
      ''{\"votes\":['' @ demo_object @ ''],\"user_ids\":[2]}''" by code_simp
  ultimately show ?thesis
    using http_stop_response [OF refprod.production_axioms demo_redis_fresh demo_db0_tables demo_New
      demo_service_trace 1 _ 3 _ 4, of demo_choices demo_auth] h demo_stop_order
    by (simp add: demo_choices_def)
qed

end
