(* ===== verification/Startup.thy ===== *)
theory Startup
  imports Vote_Service Memory_Backend Postgres_Backend Redis_Backend
begin

text \<open>
  From the environment to a running service: \<^verbatim>\<open>backend/backend.go\<close>, the waiting loops of the Redis and
  Postgres backends, \<^verbatim>\<open>vote/flow.go\<close>, \<^verbatim>\<open>main.go\<close> and \<^verbatim>\<open>log/log.go\<close>.

  The environment package, the datastore, the authentication and the connections are other
  repositories; what they return are parameters. The connection string is read by the Postgres
  driver: the locale \<open>conninfo_reader\<close> says what is documented about the keyword/value form with quoted
  values, and it is interpreted on a simple reader.
\<close>

subsection \<open>Configuration\<close>

record environment =
  env_Value :: "string \<Rightarrow> string \<Rightarrow> string"          \<comment> \<open>value of a variable with its default\<close>
  env_ReadSecret :: "string \<Rightarrow> string \<Rightarrow> err + string"

text \<open>\<^verbatim>\<open>strings.ReplaceAll\<close> of one character, and \<^verbatim>\<open>strconv.ParseBool\<close>.\<close>

definition ReplaceAll :: "string \<Rightarrow> char \<Rightarrow> string \<Rightarrow> string" where
  "ReplaceAll s old new = concat (map (\<lambda>c. if c = old then new else [c]) s)"

definition ParseBool :: "string \<Rightarrow> bool option" where
  "ParseBool s =
     (if s \<in> {''1'', ''t'', ''T'', ''TRUE'', ''true'', ''True''} then Some True
      else if s \<in> {''0'', ''f'', ''F'', ''FALSE'', ''false'', ''False''} then Some False
      else None)"

definition encodePostgresConfig :: "string \<Rightarrow> string" where
  "encodePostgresConfig s0 =
     (let s = ReplaceAll s0 backslash [backslash, backslash] in ReplaceAll s CHR 0x27 [backslash, CHR 0x27])"

definition conn_field :: "string \<Rightarrow> string \<Rightarrow> string" where
  "conn_field key val = key @ [CHR ''='', CHR 0x27] @ val @ [CHR 0x27]"

definition postgresAddr :: "string \<Rightarrow> string \<Rightarrow> string \<Rightarrow> string \<Rightarrow> string \<Rightarrow> string" where
  "postgresAddr user dbPassword host port dbname =
     conn_field ''user'' (encodePostgresConfig user) @ '' '' @ conn_field ''password'' dbPassword @ '' '' @
     conn_field ''host'' (encodePostgresConfig host) @ '' '' @ conn_field ''port'' (encodePostgresConfig port) @ '' '' @
     conn_field ''dbname'' (encodePostgresConfig dbname)"

datatype backend_kind = buildMemory | buildRedis string | buildPostgres string

definition Build :: "environment \<Rightarrow> err + backend_kind \<times> backend_kind \<times> bool" where
  "Build env =
     (let redisAddr = env_Value env ''CACHE_HOST'' ''localhost'' @ '':'' @ env_Value env ''CACHE_PORT'' ''6379'' in
      case env_ReadSecret env ''VOTE_DATABASE_PASSWORD_FILE'' ''/run/secrets/postgres_password'' of
        Inl e \<Rightarrow> Inl (Wrapped ''reading postgres password'' e)
      | Inr dbPassword \<Rightarrow>
        let addr = postgresAddr (env_Value env ''VOTE_DATABASE_USER'' ''openslides'') dbPassword
                     (env_Value env ''VOTE_DATABASE_HOST'' ''localhost'') (env_Value env ''VOTE_DATABASE_PORT'' ''5432'')
                     (env_Value env ''VOTE_DATABASE_NAME'' ''openslides'');
            singleInstance = (case ParseBool (env_Value env ''VOTE_SINGLE_INSTANCE'' ''false'') of Some b \<Rightarrow> b | None \<Rightarrow> False)
        in Inr (if singleInstance then buildMemory else buildRedis redisAddr, buildPostgres addr, singleInstance))"

subsection \<open>Waiting for a server and building the backends\<close>

text \<open>The loop of \<^verbatim>\<open>Wait\<close>: \<open>ping\<close> asks the server; the pause between the attempts is left out.\<close>

partial_function (option) Wait :: "('d \<Rightarrow> bool) \<Rightarrow> ('d \<Rightarrow> err option \<times> 'd) \<Rightarrow> 'd \<Rightarrow> 'd option" where
  "Wait ctx_done ping d =
     (if ctx_done d then Some d
      else case ping d of
        (None, d') \<Rightarrow> Some d'
      | (Some e, d') \<Rightarrow> Wait ctx_done ping d')"

declare Wait.simps [code]

definition start_redis :: "('d \<Rightarrow> bool) \<Rightarrow> ('d \<Rightarrow> err option \<times> 'd) \<Rightarrow> err \<Rightarrow> 'd \<Rightarrow> (err + 'd) option" where
  "start_redis ctx_done ping ctxErr d =
     map_option (\<lambda>d'. if ctx_done d' then Inl ctxErr else Inr d') (Wait ctx_done ping d)"

definition start_postgres :: "('d \<Rightarrow> bool) \<Rightarrow> ('d \<Rightarrow> err option \<times> 'd) \<Rightarrow> 'd pgx \<Rightarrow> (string \<Rightarrow> err option) \<Rightarrow> string \<Rightarrow> 'd
    \<Rightarrow> (err + 'd) option" where
  "start_postgres ctx_done ping X newPool connString d =
     (case newPool connString of
        Some e \<Rightarrow> Some (Inl (Wrapped ''creating postgres connection pool'' e))
      | None \<Rightarrow>
        (case Wait ctx_done ping d of
           None \<Rightarrow> None
         | Some d' \<Rightarrow>
           (case pg_Migrate X d' of
              (Some e, d'') \<Rightarrow> Some (Inl (Wrapped ''creating shema'' e))
            | (None, d'') \<Rightarrow> Some (Inr d''))))"

subsection \<open>The main program\<close>

definition Flow :: "err option \<Rightarrow> err + 'w \<Rightarrow> err + 'w" where
  "Flow waitAvailable newPostgres =
     (case waitAvailable of
        Some e \<Rightarrow> Inl (Wrapped ''waiting for postgres'' e)
      | None \<Rightarrow> (case newPostgres of Inl e \<Rightarrow> Inl (Wrapped ''init postgres'' e) | Inr w \<Rightarrow> Inr w))"

definition contextDone :: "err option \<Rightarrow> err option" where
  "contextDone e = (case e of None \<Rightarrow> None | Some x \<Rightarrow> if is_context_done x then None else Some x)"

text \<open>\<^verbatim>\<open>initService\<close>: the flow, the authentication and the configuration, before anything is started.\<close>

definition initService :: "environment \<Rightarrow> err + 'w \<Rightarrow> err option \<Rightarrow> err + 'w \<times> backend_kind \<times> backend_kind \<times> bool" where
  "initService env flowRes authErr =
     (case flowRes of
        Inl e \<Rightarrow> Inl (Wrapped ''init database'' e)
      | Inr w \<Rightarrow>
      case authErr of
        Some e \<Rightarrow> Inl (Wrapped ''init auth system'' e)
      | None \<Rightarrow>
      case Build env of
        Inl e \<Rightarrow> Inl (Wrapped ''init vote backend'' e)
      | Inr (fst0, lng0, single) \<Rightarrow> Inr (w, fst0, lng0, single))"

text \<open>
  The callable that \<^verbatim>\<open>initService\<close> returns: the backends are started, the service is created, and \<open>run\<close>
  is the HTTP server until it ends.
\<close>

definition run_service :: "('f, 'fo, 'l, 'lo, 'w, 'd) deps \<Rightarrow> err + 'f \<Rightarrow> err + 'l \<Rightarrow> 'w \<Rightarrow> (('f, 'l, 'w) Vote \<Rightarrow> err option) \<Rightarrow> err option" where
  "run_service D fastStarter longStarter w run =
     (case fastStarter of
        Inl e \<Rightarrow> Some (Wrapped ''start fast backend'' e)
      | Inr f \<Rightarrow>
      case longStarter of
        Inl e \<Rightarrow> Some (Wrapped ''start long backend'' e)
      | Inr l \<Rightarrow>
      case vote_New D f l w of
        Inl e \<Rightarrow> Some (Wrapped ''starting service'' e)
      | Inr v \<Rightarrow> run v)"

subsection \<open>Logging\<close>

text \<open>The loggers that are set, and what has been printed.\<close>

record logs =
  debugLogger :: bool
  infoLogger :: bool
  printed :: "string list"

definition SetDebugLogger :: "bool \<Rightarrow> logs \<Rightarrow> logs" where
  "SetDebugLogger l s = s\<lparr>debugLogger := l\<rparr>"

definition SetInfoLogger :: "bool \<Rightarrow> logs \<Rightarrow> logs" where
  "SetInfoLogger l s = s\<lparr>infoLogger := l\<rparr>"

definition Info :: "string \<Rightarrow> logs \<Rightarrow> logs" where
  "Info msg s = (if \<not> infoLogger s then s else s\<lparr>printed := printed s @ [msg]\<rparr>)"

definition Debug :: "string \<Rightarrow> logs \<Rightarrow> logs" where
  "Debug msg s = (if \<not> debugLogger s then s else s\<lparr>printed := printed s @ [msg]\<rparr>)"

definition IsDebug :: "logs \<Rightarrow> bool" where
  "IsDebug s = debugLogger s"

definition handleError :: "err \<Rightarrow> logs \<Rightarrow> logs" where
  "handleError e s = (if contextDone (Some e) = None then s else Info (''Error: '' @ err_Error e) s)"

text \<open>One command of \<^verbatim>\<open>main\<close>: the exit code and the log.\<close>

definition main_command :: "err option \<Rightarrow> logs \<Rightarrow> int \<times> logs" where
  "main_command result s =
     (case contextDone result of None \<Rightarrow> (0, s) | Some e \<Rightarrow> (1, handleError e s))"

subsection \<open>The connection string\<close>

lemma encodePostgresConfig_Cons:
  "encodePostgresConfig (c # s) =
     (if c = backslash then [backslash, backslash] else if c = CHR 0x27 then [backslash, CHR 0x27] else [c]) @ encodePostgresConfig s"
  by (simp add: encodePostgresConfig_def ReplaceAll_def)

lemma encodePostgresConfig_Nil [simp]: "encodePostgresConfig [] = []"
  by (simp add: encodePostgresConfig_def ReplaceAll_def)

abbreviation quote :: char where "quote \<equiv> CHR 0x27"

text \<open>
  The documented reading of a connection string, for any driver: \<open>read_value\<close> reads a quoted value after its
  opening quote, where a backslash stands before a quote and a backslash that belong to the value;
  \<open>read_conn\<close> reads settings with a blank between them, each a keyword of small letters and a quoted value.
\<close>

definition keyword :: "string \<Rightarrow> bool" where
  "keyword key \<longleftrightarrow> key \<noteq> [] \<and> list_all (\<lambda>c. c \<in> set ''abcdefghijklmnopqrstuvwxyz'') key"

locale conninfo_reader =
  fixes read_value :: "string \<Rightarrow> (string \<times> string) option"
    and read_conn :: "string \<Rightarrow> (string \<times> string) list option"
  assumes value_end: "read_value (quote # r) = Some ([], r)"
    and value_escaped: "c = quote \<or> c = backslash \<Longrightarrow> read_value (backslash # c # r) = map_option (\<lambda>(v, t). (c # v, t)) (read_value r)"
    and value_char: "c \<noteq> quote \<Longrightarrow> c \<noteq> backslash \<Longrightarrow> read_value (c # r) = map_option (\<lambda>(v, t). (c # v, t)) (read_value r)"
    and last_setting: "keyword key \<Longrightarrow> read_value s = Some (v, []) \<Longrightarrow> read_conn (key @ [CHR ''='', quote] @ s) = Some [(key, v)]"
    and setting: "keyword key \<Longrightarrow> read_value s = Some (v, CHR '' '' # r) \<Longrightarrow>
      read_conn (key @ [CHR ''='', quote] @ s) = map_option (Cons (key, v)) (read_conn r)"
begin

lemma encoded_value: "read_value (encodePostgresConfig s @ quote # r) = Some (s, r)"
  by (induction s) (auto simp: encodePostgresConfig_Cons value_end value_escaped value_char)

lemma plain_value: "quote \<notin> set s \<Longrightarrow> backslash \<notin> set s \<Longrightarrow> read_value (s @ quote # r) = Some (s, r)"
  by (induction s) (auto simp: value_end value_char)

lemma plain_prefix:
  "quote \<notin> set s \<Longrightarrow> backslash \<notin> set s \<Longrightarrow> read_value (s @ r) = map_option (\<lambda>(v, t). (s @ v, t)) (read_value r)"
  by (induction s) (auto simp: value_char option.map_comp comp_def case_prod_unfold option.map_id0 [unfolded id_def])

lemma field: "keyword key \<Longrightarrow> read_value (v @ quote # CHR '' '' # r) = Some (x, CHR '' '' # r) \<Longrightarrow>
    read_conn (conn_field key v @ CHR '' '' # r) = map_option (Cons (key, x)) (read_conn r)"
  using setting [of key "v @ quote # CHR '' '' # r"] by (simp add: conn_field_def)

lemma last_field: "keyword key \<Longrightarrow> read_value (v @ [quote]) = Some (x, []) \<Longrightarrow> read_conn (conn_field key v) = Some [(key, x)]"
  using last_setting [of key "v @ [quote]"] by (simp add: conn_field_def)

lemma read_postgresAddr:
  "quote \<notin> set pw \<Longrightarrow> backslash \<notin> set pw \<Longrightarrow> read_conn (postgresAddr user pw host port dbname) =
    Some [(''user'', user), (''password'', pw), (''host'', host), (''port'', port), (''dbname'', dbname)]"
  by (simp add: postgresAddr_def keyword_def field last_field encoded_value plain_value)

text \<open>
  The password is put into the connection string as it is. When it ends with a backslash, this
  quotes the closing quote, and a different password is read.
\<close>

lemma password_misread:
  "quote \<notin> set pw \<Longrightarrow> backslash \<notin> set pw \<Longrightarrow>
   read_value ((pw @ [backslash]) @ quote # '' host='' @ quote # r) = Some (pw @ quote # '' host='', r)"
  by (simp add: plain_prefix value_escaped value_char value_end)

end

text \<open>A reader of this kind.\<close>

fun ref_read_value :: "string \<Rightarrow> (string \<times> string) option" where
  "ref_read_value [] = None"
| "ref_read_value (c # cs) =
     (if c = quote then Some ([], cs)
      else if c = backslash then (case cs of [] \<Rightarrow> None | d # r \<Rightarrow> map_option (\<lambda>(v, t). (d # v, t)) (ref_read_value r))
      else map_option (\<lambda>(v, t). (c # v, t)) (ref_read_value cs))"

lemma ref_read_value_shorter: "ref_read_value s = Some (v, t) \<Longrightarrow> length t < length s"
  by (induction s arbitrary: v rule: ref_read_value.induct) (auto split: if_splits list.splits simp: less_SucI)

function ref_read_conn :: "string \<Rightarrow> (string \<times> string) list option" where
  "ref_read_conn s =
     (let key = takeWhile (\<lambda>c. c \<noteq> CHR ''='') s in
      case drop (length key) s of
        e # q # r \<Rightarrow>
          if q = quote then
            (case ref_read_value r of
               None \<Rightarrow> None
             | Some (v, []) \<Rightarrow> Some [(key, v)]
             | Some (v, c # rest) \<Rightarrow> if c = CHR '' '' then map_option (Cons (key, v)) (ref_read_conn rest) else None)
          else None
      | _ \<Rightarrow> None)"
  by pat_completeness auto
termination
  by (relation "measure length") (auto dest!: ref_read_value_shorter arg_cong [where f = length])

declare ref_read_conn.simps [simp del]

lemma ref_read_conn_field:
  assumes "CHR ''='' \<notin> set key"
  shows "ref_read_conn (key @ CHR ''='' # quote # s) =
    (case ref_read_value s of
       None \<Rightarrow> None
     | Some (v, []) \<Rightarrow> Some [(key, v)]
     | Some (v, c # rest) \<Rightarrow> if c = CHR '' '' then map_option (Cons (key, v)) (ref_read_conn rest) else None)"
  using assms by (simp add: ref_read_conn.simps [of "key @ CHR ''='' # quote # s"] takeWhile_append)

lemma keyword_no_equals: "keyword key \<Longrightarrow> CHR ''='' \<notin> set key"
proof -
  have "CHR ''='' \<notin> set ''abcdefghijklmnopqrstuvwxyz''" by simp
  then show "keyword key \<Longrightarrow> CHR ''='' \<notin> set key" unfolding keyword_def list_all_iff by blast
qed

interpretation refconn: conninfo_reader ref_read_value ref_read_conn
  by unfold_locales (auto simp: ref_read_conn_field keyword_no_equals)

text \<open>
  C32. Every driver that reads connection strings as documented gets from the connection string the
  configured user, host, port and database, with every quote and backslash in them, and the
  password, provided that the password contains no quote and no backslash.
\<close>
theorem connection_string_roundtrip:
  assumes "conninfo_reader read_value read_conn" "quote \<notin> set pw" "backslash \<notin> set pw"
  shows "read_conn (postgresAddr user pw host port dbname) =
    Some [(''user'', user), (''password'', pw), (''host'', host), (''port'', port), (''dbname'', dbname)]"
  by (rule conninfo_reader.read_postgresAddr [OF assms])

theorem connection_string_roundtrip_witness:
  "ref_read_conn (postgresAddr [CHR ''O'', quote, backslash] ''secret'' ''db'' ''5432'' ''openslides'') =
     Some [(''user'', [CHR ''O'', quote, backslash]), (''password'', ''secret''), (''host'', ''db''), (''port'', ''5432''), (''dbname'', ''openslides'')]"
  by (rule connection_string_roundtrip [OF refconn.conninfo_reader_axioms]) simp_all

subsection \<open>Waiting ends\<close>

definition after_pings :: "('d \<Rightarrow> err option \<times> 'd) \<Rightarrow> nat \<Rightarrow> 'd \<Rightarrow> 'd" where
  "after_pings ping k d = ((\<lambda>d. snd (ping d)) ^^ k) d"

text \<open>
  C33. \<^verbatim>\<open>Wait\<close> returns as soon as the context is done or a ping succeeds: if one of them happens after
  some number of attempts, the loop ends, and it ends in a state where the context is done or right
  after a successful ping.
\<close>
theorem wait_returns:
  assumes "ctx_done (after_pings ping k d) \<or> fst (ping (after_pings ping k d)) = None"
  shows "\<exists>d'. Wait ctx_done ping d = Some d' \<and>
    (ctx_done d' \<or> (\<exists>j. fst (ping (after_pings ping j d)) = None \<and> d' = after_pings ping (Suc j) d))"
  using assms
proof (induction k arbitrary: d)
  case 0
  then show ?case
    by (cases "ping d") (auto simp: after_pings_def Wait.simps [of ctx_done ping d] intro!: exI [of _ 0])
next
  case (Suc k)
  obtain e d1 where p: "ping d = (e, d1)" by fastforce
  have shift: "after_pings ping (Suc j) d = after_pings ping j d1" for j
    using p by (simp add: after_pings_def funpow_Suc_right del: funpow.simps)
  show ?case
  proof (cases "ctx_done d \<or> e = None")
    case True
    then show ?thesis
      using p by (auto simp: Wait.simps [of ctx_done ping d] after_pings_def intro!: exI [of _ 0])
  next
    case False
    with p have w: "Wait ctx_done ping d = Wait ctx_done ping d1" by (auto simp: Wait.simps [of ctx_done ping d])
    from Suc.prems shift have "ctx_done (after_pings ping k d1) \<or> fst (ping (after_pings ping k d1)) = None" by simp
    from Suc.IH [OF this] show ?thesis unfolding w using shift by metis
  qed
qed

theorem wait_returns_witness:
  "\<exists>d'. Wait (\<lambda>_. False) (\<lambda>n :: nat. (if n < 3 then Some (plainError ''refused'') else None, Suc n)) 0 = Some d'"
proof -
  let ?ping = "\<lambda>n :: nat. (if n < 3 then Some (plainError ''refused'') else None, Suc n)"
  have "fst (?ping (after_pings ?ping 3 0)) = None" by (simp add: after_pings_def eval_nat_numeral)
  with wait_returns [of "\<lambda>_. False" ?ping 3 0] show ?thesis by blast
qed

text \<open>
  How the program ends: a command that ends without an error or because its context was canceled
  exits with 0 and logs nothing; any other error is logged once, with its text, and the exit code is 1.
\<close>
theorem main_exit_code:
  "main_command result s =
     (if (case result of None \<Rightarrow> True | Some e \<Rightarrow> is_context_done e) then (0, s)
      else (1, if infoLogger s then s\<lparr>printed := printed s @ [''Error: '' @ err_Error (the result)]\<rparr> else s))"
  by (auto simp: main_command_def contextDone_def handleError_def Info_def split: option.splits)

end
