(* ===== verification/Program.thy ===== *)
theory Program
  imports Startup Vote_Properties Http_Server
begin

text \<open>
  The program around the service: the HTTP server of \<^verbatim>\<open>vote/http/http.go\<close> (\<^verbatim>\<open>New\<close>, \<^verbatim>\<open>StartListener\<close>,
  \<^verbatim>\<open>Run\<close>), the constructors of the Redis and Postgres backends and the commands of \<^verbatim>\<open>main.go\<close>.

  Sockets, connection pools and the command line parser are other packages: what they return are
  parameters. \<^verbatim>\<open>Serve\<close> always ends with an error; \<open>None\<close> stands for \<^verbatim>\<open>http.ErrServerClosed\<close>, which the server
  gives once \<^verbatim>\<open>Shutdown\<close> was called by the goroutine that waits for the context.
\<close>

subsection \<open>The HTTP server\<close>

record Server =
  srv_Addr :: string
  srv_lst :: "string option"          \<comment> \<open>the listener, by the address it is bound to\<close>

definition Server_New :: "environment \<Rightarrow> Server" where
  "Server_New env = \<lparr>srv_Addr = '':'' @ env_Value env ''VOTE_PORT'' ''9013'', srv_lst = None\<rparr>"

definition StartListener :: "(string \<Rightarrow> err + string) \<Rightarrow> Server \<Rightarrow> err option \<times> Server" where
  "StartListener listen s =
     (case listen (srv_Addr s) of
        Inl e \<Rightarrow> (Some (Wrapped (''open '' @ srv_Addr s) e), s)
      | Inr bound \<Rightarrow> (None, s\<lparr>srv_lst := Some bound, srv_Addr := bound\<rparr>))"

definition Server_Run :: "(string \<Rightarrow> err + string) \<Rightarrow> (string \<Rightarrow> err option) \<Rightarrow> err option \<Rightarrow> Server \<Rightarrow> err option \<times> Server" where
  "Server_Run listen srvServe shutdown s =
     (case (if srv_lst s = None then StartListener listen s else (None, s)) of
        (Some e, s') \<Rightarrow> (Some (Wrapped ''start listening'' e), s')
      | (None, s') \<Rightarrow>
        (case srvServe (srv_Addr s') of
           Some e \<Rightarrow> (Some (plainError (''HTTP Server failed: '' @ err_Error e)), s')
         | None \<Rightarrow> (map_option (Wrapped ''HTTP server shutdown'') shutdown, s')))"

subsection \<open>The constructors of the backends\<close>

text \<open>
  A script is created with the number of its keys: \<^verbatim>\<open>Do\<close> passes the first arguments as \<^verbatim>\<open>KEYS\<close> and the
  others as \<^verbatim>\<open>ARGV\<close>.
\<close>

record redis_config =
  pool_MaxActive :: nat
  pool_Wait :: bool
  pool_MaxIdle :: nat
  pool_IdleTimeout :: nat             \<comment> \<open>in seconds\<close>
  pool_Addr :: string
  luaScriptVote_keys :: nat
  luaScriptClearAll_keys :: nat

definition redis_New :: "string \<Rightarrow> redis_config" where
  "redis_New addr = \<lparr>pool_MaxActive = 100, pool_Wait = True, pool_MaxIdle = 10, pool_IdleTimeout = 240, pool_Addr = addr,
     luaScriptVote_keys = 2, luaScriptClearAll_keys = 1\<rparr>"

definition Script_args :: "nat \<Rightarrow> string list \<Rightarrow> string list \<times> string list" where
  "Script_args keys args = (take keys args, drop keys args)"

text \<open>\<^verbatim>\<open>redis.Backend.Wait\<close>: each round takes a connection, sends \<^verbatim>\<open>PING\<close> and gives the connection back.\<close>

definition redis_Wait :: "('d \<Rightarrow> bool) \<Rightarrow> ('d \<Rightarrow> 'c \<times> 'd) \<Rightarrow> ('c \<Rightarrow> 'd \<Rightarrow> err option \<times> 'd) \<Rightarrow> ('c \<Rightarrow> 'd \<Rightarrow> 'd) \<Rightarrow> 'd \<Rightarrow> 'd option" where
  "redis_Wait ctx_done get ping close =
     Wait ctx_done (\<lambda>d. case get d of (conn, d1) \<Rightarrow> (case ping conn d1 of (e, d2) \<Rightarrow> (e, close conn d2)))"

text \<open>\<open>setSimpleProtocol\<close> is the assignment of \<^verbatim>\<open>QueryExecModeSimpleProtocol\<close> to the parsed configuration.\<close>

definition pg_New :: "(string \<Rightarrow> err + 'conf) \<Rightarrow> ('conf \<Rightarrow> 'conf) \<Rightarrow> ('conf \<Rightarrow> err + 'pool) \<Rightarrow> string \<Rightarrow> err + 'pool" where
  "pg_New parseConfig setSimpleProtocol newWithConfig connString =
     (case parseConfig connString of
        Inl e \<Rightarrow> Inl (Wrapped ''invalid connection url'' e)
      | Inr conf \<Rightarrow>
        (case newWithConfig (setSimpleProtocol conf) of
           Inl e \<Rightarrow> Inl (Wrapped ''creating connection pool'' e)
         | Inr pool \<Rightarrow> Inr pool))"

definition pg_Close :: "('pool \<Rightarrow> 'd \<Rightarrow> 'd) \<Rightarrow> 'pool \<Rightarrow> 'd \<Rightarrow> 'd" where
  "pg_Close poolClose pool d = poolClose pool d"

subsection \<open>The commands\<close>

datatype command = CmdRun | CmdBuildDoc | CmdHealth

text \<open>The options of the health command with the defaults of their tags; the port may come from the environment.\<close>

record cli_Health =
  cli_Host :: string
  cli_Port :: string
  cli_UseHTTPS :: bool
  cli_Insecure :: bool

definition cli_default :: "environment \<Rightarrow> cli_Health" where
  "cli_default env = \<lparr>cli_Host = ''localhost'', cli_Port = env_Value env ''VOTE_PORT'' ''9013'',
     cli_UseHTTPS = False, cli_Insecure = False\<rparr>"

definition main_run :: "environment \<Rightarrow> err + 'w \<Rightarrow> err option \<Rightarrow> ('w \<times> backend_kind \<times> backend_kind \<times> bool \<Rightarrow> err option)
    \<Rightarrow> logs \<Rightarrow> err option \<times> logs" where
  "main_run env flowRes authErr service s =
     (let debug = (ParseBool (env_Value env ''VOTE_DEBUG_LOG'' ''false'') = Some True);
          s' = (if debug then SetDebugLogger True s else s)
      in case initService env flowRes authErr of
           Inl e \<Rightarrow> (Some (Wrapped ''init services'' e), s')
         | Inr cfg \<Rightarrow> (service cfg, s'))"

text \<open>The result of \<^verbatim>\<open>build-doc\<close>, and what it prints.\<close>

definition buildDocu :: "environment \<Rightarrow> err + 'w \<Rightarrow> err option \<Rightarrow> err + string \<Rightarrow> err option \<times> string list" where
  "buildDocu env flowRes authErr buildDoc =
     (case initService env flowRes authErr of
        Inl e \<Rightarrow> (Some (Wrapped ''init services'' e), [])
      | Inr _ \<Rightarrow>
        (case buildDoc of
           Inl e \<Rightarrow> (Some (Wrapped ''build doc'' e), [])
         | Inr doc \<Rightarrow> (None, [doc])))"

definition main_program :: "command \<Rightarrow> (logs \<Rightarrow> err option \<times> logs) \<Rightarrow> err option \<Rightarrow> err option \<Rightarrow> logs \<Rightarrow> int \<times> logs" where
  "main_program cmd run docu health s0 =
     (let s = SetInfoLogger True s0 in
      case cmd of
        CmdRun \<Rightarrow> (case run s of (r, s') \<Rightarrow> main_command r s')
      | CmdBuildDoc \<Rightarrow> main_command docu s
      | CmdHealth \<Rightarrow> main_command health s)"

text \<open>Without options the health command asks the port on which the server of the same environment listens.\<close>

lemma health_default_port:
  "'':'' @ cli_Port (cli_default env) = srv_Addr (Server_New env)"
  "health_url (cli_UseHTTPS (cli_default env)) (cli_Host (cli_default env)) (cli_Port (cli_default env)) =
   ''http://localhost'' @ srv_Addr (Server_New env) @ ''/system/vote/health''"
  by (simp_all add: cli_default_def Server_New_def health_url_def)

text \<open>
  How \<^verbatim>\<open>run\<close> ends once the service is up: without an error exactly when the listener was opened, the server was
  closed by the shutdown and the shutdown succeeded.
\<close>

lemma Server_Run_None:
  "srv_lst s = None \<Longrightarrow> fst (Server_Run listen srvServe shutdown s) = None \<longleftrightarrow>
   (\<exists>bound. listen (srv_Addr s) = Inr bound \<and> srvServe bound = None) \<and> shutdown = None"
  by (auto simp: Server_Run_def StartListener_def split: sum.splits option.splits)

subsection \<open>Debug output of a ballot\<close>

text \<open>
  \<^verbatim>\<open>json.Marshal\<close> of a ballot: \<^verbatim>\<open>maybeInt\<close> has no exported field, \<^verbatim>\<open>ballotValue\<close> gives its raw text, and a raw text
  that is missing is an error.
\<close>

definition ballot_String :: "ballot \<Rightarrow> string" where
  "ballot_String b =
     (case original (BallotValue b) of
        None \<Rightarrow> ''Error decoding ballot: json: error calling MarshalJSON for type vote.ballotValue: unexpected end of JSON input''
      | Some j \<Rightarrow> ''{\"user_id\":{},\"value\":'' @ compact_escape (json_print j) @ ''}'')"

lemma ballot_String_hides_user: "ballot_String (b\<lparr>UserID := m\<rparr>) = ballot_String b"
  by (simp add: ballot_String_def)

subsection \<open>Restart\<close>

text \<open>The scripts get their arguments as the model of the calls assumes.\<close>

lemma script_arguments:
  "Script_args (luaScriptVote_keys (redis_New addr)) [a, b, c, d] = ([a, b], [c, d])"
  "Script_args (luaScriptClearAll_keys (redis_New addr)) [a, b, c] = ([a], [b, c])"
  by (simp_all add: Script_args_def redis_New_def)

lemma Wait_keeps:
  assumes "Wait ctx_done ping d = Some d'" "\<And>d. f (snd (ping d)) = f d"
  shows "f d' = f d"
proof -
  have "(\<forall>d. f (snd (ping d)) = f d) \<longrightarrow> f d' = f d"
  proof (rule Wait.raw_induct [where P = "\<lambda>_ ping d d'. (\<forall>d. f (snd (ping d)) = f d) \<longrightarrow> f d' = f d", OF _ assms(1)], intro impI)
    fix wait :: "('a \<Rightarrow> bool) \<Rightarrow> ('a \<Rightarrow> err option \<times> 'a) \<Rightarrow> 'a \<Rightarrow> 'a option" and ctx_done ping d d'
    assume IH: "\<And>ctx_done ping d d'. wait ctx_done ping d = Some d' \<Longrightarrow> (\<forall>d. f (snd (ping d)) = f d) \<longrightarrow> f d' = f d"
      and st: "(if ctx_done d then Some d else case ping d of (None, d') \<Rightarrow> Some d' | (Some e, d') \<Rightarrow> wait ctx_done ping d') = Some d'"
      and keep: "\<forall>d. f (snd (ping d)) = f d"
    obtain e d1 where p: "ping d = (e, d1)" by fastforce
    with keep have "f d1 = f d" by (metis snd_conv)
    with IH [of ctx_done ping d1 d'] st keep p show "f d' = f d" by (auto split: if_splits option.splits)
  qed
  with assms(2) show ?thesis by blast
qed

context production
begin

lemma restarted:
  assumes inv: "svc.sinv v" and ping: "\<And>r. kv (snd (pingR r)) = kv r" "\<And>d. tables (snd (pingP d)) = tables d"
    and redis: "start_redis doneR pingR ctxErr (fastBackend v) = Some (Inr r)"
    and postgres: "start_postgres doneP pingP X newPool addr (longBackend v) = Some (Inr d)"
  obtains v' where "vote_New D r d w = Inr v'" "svc.sinv v'" "svc.cstate v' = svc.cstate v"
    "live_ok (svc.cstate v') (liveVotes v')" "flow v' = w"
proof -
  from redis have "Wait doneR pingR (fastBackend v) = Some r" by (auto simp: start_redis_def split: if_splits)
  from Wait_keeps [OF this, of kv, OF ping(1)] have r: "kv r = kv (fastBackend v)" .
  from postgres obtain d1 where "Wait doneP pingP (longBackend v) = Some d1" and d1: "pg_Migrate X d1 = (None, d)"
    by (auto simp: start_postgres_def split: option.splits prod.splits)
  from Wait_keeps [OF this(1), of tables, OF ping(2)] have t1: "tables d1 = tables (longBackend v)" .
  from d1 obtain "px_schema X d1 = (None, d)" by (auto simp: pg_Migrate_def split: option.splits prod.splits)
  from schema [OF this] t1 inv have d: "tables d = tables (longBackend v)"
    by (auto simp: svc_inv_def pg_inv_def sql_schema_def)
  have "ks_inv (kv r)" "pg_inv tables d" "dom (ks_abs (kv r)) \<subseteq> {p. on_fast p}" "dom (pg_abs tables d) \<subseteq> {p. \<not> on_fast p}"
    using inv r d by (auto simp: svc_inv_def svc_sep_def pg_inv_def pg_abs_def)
  then obtain v' where v': "vote_New D r d w = Inr v'" "svc.sinv v'" "live_ok (svc.cstate v') (liveVotes v')" "flow v' = w"
    "\<And>p. svc.cstate v' p = (if on_fast p then ks_abs (kv r) p else pg_abs tables d p)" by (rule svc.New_ok) blast
  moreover have "svc.cstate v' = svc.cstate v" 
  proof
    show "svc.cstate v' p = svc.cstate v p" for p using v'(5) [of p] r d by (simp add: svc_abs_def pg_abs_def)
  qed
  ultimately show thesis using that by blast
qed

end

text \<open>
  C7. The votes survive a restart of the service. After any history of requests that one instance has
  served one after the other on the production backends, a new process is started on the same servers: it waits for Redis and Postgres, creates the missing
  parts of the schema and loads the live votes, and the HTTP server gets a service that holds
  the same polls, names the same voters and answers an authorized vote as the history before the
  restart demands. The waiting does not change the data of the servers.
\<close>
theorem restart_keeps_votes:
  assumes prod: "production R kv X tables conflicts ctx_done D on_fast"
    and new: "ks_fresh (kv r0)" "tables d0 = Some empty_tables" "vote_New D r0 d0 w0 = Inr v0"
    and tr: "service_trace D (\<lambda>p. in_int64 p \<and> in_int32 p) (\<lambda>ks p r. ks_order ks p (kv r)) (\<lambda>_ _ _. True) v0 es v"
    and ping: "\<And>r. kv (snd (pingR r)) = kv r" "\<And>d. tables (snd (pingP d)) = tables d"
    and redis: "start_redis doneR pingR ctxErr (fastBackend v) = Some (Inr r)"
    and postgres: "start_postgres doneP pingP X newPool addr (longBackend v) = Some (Inr d)"
  shows "\<exists>v'. run_service D (Inr r) (Inr d) w run = run v' \<and>
    svc_abs (\<lambda>r. ks_abs (kv r)) (pg_abs tables) on_fast v' = svc_abs (\<lambda>r. ks_abs (kv r)) (pg_abs tables) on_fast v \<and>
    (\<forall>p. dom (sub_map (liveVotes v') p) = set (map fst (accepted p es))) \<and>
    (\<forall>ks p ru body b. in_int32 p \<and> in_int32 (vote_user b ru) \<and> authorized_vote D ks p ru body b v' \<longrightarrow>
      fst (vote_Vote D ks p ru body v') = vote_answer (history_verdict p (vote_user b ru) es))"
proof -
  note svc = production.service [OF prod]
  note inv = vote_service.trace_inv [OF svc tr production.fresh_start [OF prod new]]
  let ?abs = "svc_abs (\<lambda>r. ks_abs (kv r)) (pg_abs tables) on_fast"
  obtain v' where v': "vote_New D r d w = Inr v'"
    "svc_inv (\<lambda>r. ks_inv (kv r)) (\<lambda>r. ks_abs (kv r)) (pg_inv tables) (pg_abs tables) on_fast v'"
    and abs: "?abs v' = ?abs v" and live: "live_ok (?abs v') (liveVotes v')"
    using production.restarted [OF prod _ ping redis postgres, of w] inv by blast
  have m: "matches (?abs v' p) (accepted p es) (started p es) (closed p es)" for p using inv abs by simp
  have "dom (sub_map (liveVotes v') p) = set (map fst (accepted p es))" for p
    using live m [of p] by (cases "?abs v' p") (auto simp: live_ok_def matches_def voters_of_def)
  moreover have "fst (vote_Vote D ks p ru body v') = vote_answer (history_verdict p (vote_user b ru) es)"
    if "in_int32 p" "in_int32 (vote_user b ru)" "authorized_vote D ks p ru body b v'" for ks p ru body b
  proof -
    obtain x v2 where x: "vote_Vote D ks p ru body v' = (x, v2)" by fastforce
    from vote_service.Vote_step [OF svc v'(2) _ _ _ _ authorized_prepare [OF that(3)] x] that(1,2) in_int32_in_int64 x
      matches_verdict [of "?abs v'" p es "vote_user b ru"] m [of p] show ?thesis by simp
  qed
  moreover have "run_service D (Inr r) (Inr d) w run = run v'" using v'(1) by (simp add: run_service_def)
  ultimately show ?thesis using abs by blast
qed

definition vote_kept :: "('f, 'l, 'w) Vote \<Rightarrow> err option" where
  "vote_kept v = (if 2 \<in> dom (sub_map (liveVotes v) 1) then None else Some (plainError ''vote lost''))"

theorem restart_keeps_votes_witness:
  "\<exists>r d. start_redis (\<lambda>_. False) (\<lambda>r. (None, r)) ContextCanceled (fastBackend demo_v2) = Some (Inr r) \<and>
     start_postgres (\<lambda>_. False) (\<lambda>d. (None, d)) ref_pgx (\<lambda>_. None) ''host=db'' (longBackend demo_v2) = Some (Inr d) \<and>
     run_service demo_deps (Inr r) (Inr d) ''named'' vote_kept = None"
proof -
  obtain x d where s: "px_schema ref_pgx (longBackend demo_v2) = (x, d)" by fastforce
  then have "x = None" by (simp add: ref_pgx_def)
  then have p: "start_postgres (\<lambda>_. False) (\<lambda>d. (None, d)) ref_pgx (\<lambda>_. None) ''host=db'' (longBackend demo_v2) = Some (Inr d)"
    using s by (simp add: start_postgres_def Wait.simps pg_Migrate_def)
  have r: "start_redis (\<lambda>_. False) (\<lambda>r. (None, r)) ContextCanceled (fastBackend demo_v2) = Some (Inr (fastBackend demo_v2))"
    by (simp add: start_redis_def Wait.simps)
  have "accepted 1 demo_history = [(2, demo_object)]" by (simp add: demo_history_def accepted_def)
  with restart_keeps_votes [OF refprod.production_axioms demo_redis_fresh demo_db0_tables demo_New demo_service_trace
      _ _ r p, of "''named''" vote_kept]
  have "run_service demo_deps (Inr (fastBackend demo_v2)) (Inr d) ''named'' vote_kept = None" by (auto simp: vote_kept_def)
  with r p show ?thesis by blast
qed

end
