(* ===== verification/Spec2Isabelle.thy ===== *)
theory Spec2Isabelle
  imports Live_Votes Preload Service_Commands Http_Types Stop_Response Program
begin

text \<open>
  The OpenSlides vote service collects the votes of electronic polls. A backend service starts, stops and
  clears polls over internal HTTP routes; users send ballots to an external route; a datastore says who
  may vote; votes are kept in a fast (Redis) or a long (Postgres) backend until the poll is stopped. This
  development models the Go code under \<^verbatim>\<open>src/\<close> and proves what the service promises: each user has at
  most one vote in a poll, only users that may cast a vote can, stopping a poll returns exactly the
  accepted votes, and the object that is stored for a vote in a poll that is not named contains no
  user. (The fast backends keep such an object under the id of its user until the poll is cleared.)

  \<^bold>\<open>The parts and their theories\<close>

  \<^item> Common ground. \<^verbatim>\<open>Prelude\<close> says how Go values are written in HOL. \<^verbatim>\<open>Strconv\<close>, \<^verbatim>\<open>Json\<close> and
    \<^verbatim>\<open>Go_Errors\<close> model what the code uses of \<^verbatim>\<open>strconv\<close>, \<^verbatim>\<open>encoding/json\<close> and \<^verbatim>\<open>errors\<close>, and the error types
    of \<^verbatim>\<open>vote/error.go\<close>. \<^verbatim>\<open>Json_Roundtrip\<close> shows that the parser inverts the printer,
    \<^verbatim>\<open>Json_Strings\<close> that Go strings and maps come back from JSON as they were.
  \<^item> Backends. \<^verbatim>\<open>Backend_Spec\<close> holds the interface \<^verbatim>\<open>vote.Backend\<close> (\<^verbatim>\<open>vote/vote.go\<close>) and its promise, the locale
    \<open>backend_contract\<close>: an abstract store of polls with voters and ballots, and the effect of each
    method on it. \<^verbatim>\<open>Memory_Backend\<close> (\<^verbatim>\<open>backend/memory\<close>), \<^verbatim>\<open>Redis_Backend\<close> (\<^verbatim>\<open>backend/redis\<close>, with the Lua
    scripts) and \<^verbatim>\<open>Postgres_Backend\<close> (\<^verbatim>\<open>backend/postgres\<close>, with the transactions and the retry loop)
    model every operation over an explicit state and interpret the contract. \<^verbatim>\<open>User_ID_List\<close> is the
    byte encoded sorted list of voters in a Postgres row. The Redis and the Postgres server are
    parameters with the locales \<open>redis_server\<close> and \<open>pg_sql\<close> for their documented behaviour; \<open>pg_server\<close> adds
    to \<open>pg_sql\<close> what the properties assume about the environment, that the context is not done and that
    a transaction meets finitely many conflicts. \<^verbatim>\<open>Redis_Reference\<close> and \<^verbatim>\<open>Postgres_Reference\<close> give servers
    that satisfy them. \<^verbatim>\<open>Redis_Commands\<close> cuts the
    Redis operations at the commands they send, so that many clients can interleave on one server,
    \<^verbatim>\<open>Redis_Linearizable\<close> proves the invariant of such runs and \<^verbatim>\<open>Redis_Interleavings\<close> states what follows.
  \<^item> The service (\<^verbatim>\<open>vote/vote.go\<close>). \<^verbatim>\<open>Ballot\<close> decodes and validates a ballot, \<^verbatim>\<open>Datastore\<close> holds the rules
    who may vote for whom, \<^verbatim>\<open>Vote_Service\<close> the state (\<open>Vote\<close>: both backends, the flow, the live votes) and one
    definition for each method. \<^verbatim>\<open>Service_Contract\<close> (locale \<open>vote_service\<close>) proves what the methods do over
    any two backends that keep the contract; \<^verbatim>\<open>Deployment\<close> puts Redis and Postgres together (locale
    \<open>production\<close>), and memory and Postgres for a single instance (locale \<open>single_instance\<close>), and interprets
    both on the reference servers.
    \<^verbatim>\<open>Vote_Properties\<close> and \<^verbatim>\<open>Live_Votes\<close> state the properties, \<^verbatim>\<open>Preload\<close> what the keys loaded at the
    start of a poll are enough for.
  \<^item> Concurrency. \<^verbatim>\<open>Vote_Concurrency\<close> cuts the methods at the calls of a backend and at the critical
    sections of \<^verbatim>\<open>liveVotesMu\<close>, with one definition for each such phase, and lets any number of
    goroutines and instances interleave; \<^verbatim>\<open>Concurrency_Properties\<close> states what holds then. \<^verbatim>\<open>Service_Commands\<close>
    also cuts the calls of Redis at their commands.
  \<^item> HTTP (\<^verbatim>\<open>vote/http\<close>). \<^verbatim>\<open>Http_Request\<close> reads the arguments, \<^verbatim>\<open>Http_Server\<close> has the handlers, the
    registration of the routes, the resolution of errors and the health client, \<^verbatim>\<open>Live_Stream\<close> the stream of
    live votes. \<^verbatim>\<open>Http_Properties\<close> and \<^verbatim>\<open>Stop_Response\<close> follow requests through all layers, \<^verbatim>\<open>Http_Bodies\<close>
    and \<^verbatim>\<open>Http_Types\<close> give the types of the response bodies.
  \<^item> The program. \<^verbatim>\<open>Startup\<close> models \<^verbatim>\<open>backend/backend.go\<close>, \<^verbatim>\<open>vote/flow.go\<close>, \<^verbatim>\<open>log/log.go\<close> and the start of the
    service in \<^verbatim>\<open>main.go\<close>; \<^verbatim>\<open>Program\<close> the commands of \<^verbatim>\<open>main.go\<close>, the HTTP server object, the constructors of
    the backends, and a restart of the whole process.

  State is passed explicitly: an operation takes the state and returns its result and the new state. An
  error is a value of \<open>err\<close>, a result that may fail is in a sum type with the error on the left, a panic or a
  loop that does not return is \<open>None\<close>. The order in which Go visits a map is an argument; the
  properties hold for every order.

  \<^bold>\<open>What is shown\<close>

  \<^item> The backends. After any history of calls \<^verbatim>\<open>Stop\<close> returns the accepted votes once each, with
    their sorted users, and \<^verbatim>\<open>Vote\<close> is decided by the history (not started, stopped, voted before,
    accepted). For Postgres this includes that both return in spite of serialization failures.
    The binary search insertion and the encoding of the id list are right. Two limits of the
    code: a canceled context is reported as success, and user ids are taken modulo \<^verbatim>\<open>2^32\<close>.
  \<^item> Redis under interleaved commands. As long as no poll is cleared while it is being started or
    stopped, every interleaving has the results of a sequential history in which each call takes
    place at its first command, and \<^verbatim>\<open>LiveVotes\<close> reports each poll as it was at one moment of the
    call. Without this condition a stop can lose all votes, and a poll can be hidden from
    \<^verbatim>\<open>LiveVotes\<close> and \<^verbatim>\<open>ClearAll\<close>: both races are proved to happen.
  \<^item> Ballots. Validation accepts exactly the ballots of a reference without order, and
    what is validated is what is stored, unless the payload has two members \<^verbatim>\<open>value\<close>.
  \<^item> The service. No vote without authorization; the answers of \<^verbatim>\<open>Vote\<close>, \<^verbatim>\<open>Stop\<close> and \<^verbatim>\<open>Voted\<close> after any
    history of requests that one instance, alone on its backends, has served one after the other; the
    object of a vote in a poll that is not named holds the value and the weight only; a failed vote changes
    nothing; the live votes show votes only of named polls with live voting, and when \<^verbatim>\<open>AllLiveVotes\<close>
    panics. A vote of an entitled user depends on the preloaded keys only, when he and the request
    user belong to one meeting.
  \<^item> HTTP. From the bytes of a request to the response: the query, votes, stop, anonymous
    users, internal errors, the health check, one vote for each user in every state that requests,
    one after the other, can reach, that a client of the stream can rebuild the live votes while polls only
    grow, and that every response is JSON of the type of its route.
  \<^item> The program. The connection string gives back the configured values when the password has no
    quote and no backslash, to every driver that reads it as documented (locale \<open>conninfo_reader\<close>); waiting for
    the backends ends; the exit code; and that the votes survive a restart of the process.
  \<^item> Concurrency. When any number of goroutines and instances interleave their commands to Redis and their
    calls of Postgres, and no poll is cleared while it is being started or stopped, the history of each
    backend is legal, so nobody votes twice. While nothing is cleared: the live votes of a single
    instance show all accepted votes but those that are being recorded; with several instances a reload
    can lose a recorded vote, and a later reload brings it back.

  \<^bold>\<open>Bounds\<close>

  The JSON parser runs on fuel of twice the length of its input and one; \<^verbatim>\<open>Json_Roundtrip\<close> proves that
  this is enough for every well-formed text. The retry loop of the Postgres backend and the waiting loops are partial functions without fuel, and that
  they return is proved. No task of \<^verbatim>\<open>Vote_Concurrency\<close> has more than four phases, which the
  lemma \<open>alone_method\<close> uses. Ids of polls and users are taken in the range of 32 bit where Postgres
  stores them, and the number of options times the maximum for each option below \<^verbatim>\<open>2^63\<close>, so that
  the sum of the amounts does not wrap.

  \<^bold>\<open>Not modelled\<close>

  \<^item> Code of other repositories is a parameter: the datastore with its models and the flow, authentication, the
    environment, the decimal package, the Redis and Postgres servers and their drivers.
  \<^item> Sockets, connection pools and the command line parser are parameters of \<^verbatim>\<open>Program\<close>; the goroutine of
    \<^verbatim>\<open>Server.Run\<close> that waits for the context appears as the result of the shutdown. The \<^verbatim>\<open>String\<close> methods
    of the backends and test code are left out.
  \<^item> Texts of JSON errors, the depth limit of the JSON decoder, the cleaning of
    paths by the router, failed writes to a client, and the time that passes between ticks and reloads.
  \<^item> In \<^verbatim>\<open>Vote_Concurrency\<close> a call of a backend is one step, also where the Redis backend sends several
    commands; \<^verbatim>\<open>Service_Commands\<close> takes the commands one by one. A call of Postgres is one step
    everywhere: one statement or one serializable transaction with its retries; only \<^verbatim>\<open>ClearAll\<close> is two
    statements in the code, the drop of the schema and its creation.
  \<^item> The properties about histories of requests (\<^verbatim>\<open>Vote_Properties\<close>, \<^verbatim>\<open>Http_Properties\<close>, \<^verbatim>\<open>Stop_Response\<close>, \<^verbatim>\<open>Program\<close>)
    take the requests of one instance one after the other; what overlapping requests and other
    instances change is the subject of the theories on concurrency.
\<close>

end
